(* ===== verification/Ngx_Prelude.thy ===== *)
theory Ngx_Prelude
  imports Main "HOL-Library.Word"
begin

text \<open>
  Shared vocabulary of the development: the widths of the C types of the modelled build
  (a 64-bit Linux build: \<open>size_t\<close>, \<open>ngx_uint_t\<close>, \<open>ngx_msec_t\<close> and pointers have 64 bits,
  \<open>int\<close> has 32), the return codes of nginx, the outcomes of code with jumps and
  callbacks, and the lemmas on words and lists which the components share.
\<close>

unbundle bit_operations_syntax

section \<open>Widths and return codes\<close>

type_synonym addr = "64 word"
type_synonym csize = "64 word"
type_synonym msec = "64 word"
type_synonym byte = "8 word"

named_theorems ngx_defs \<open>definitions of the small operations of the model\<close>
named_theorems ngx_frame \<open>what an operation leaves unchanged\<close>

text \<open>\<^verbatim>\<open>NGX_OK\<close>, \<^verbatim>\<open>NGX_ERROR\<close>, \<^verbatim>\<open>NGX_AGAIN\<close>, \<^verbatim>\<open>NGX_BUSY\<close>, \<^verbatim>\<open>NGX_DECLINED\<close> of \<^verbatim>\<open>ngx_core.h\<close>.\<close>

datatype ngx_rc = NGX_OK | NGX_ERROR | NGX_AGAIN | NGX_BUSY | NGX_DECLINED

section \<open>Words\<close>

lemma word_and_not_mask: "(x::'a::len word) AND NOT (mask n) = x - take_bit n x"
proof -
  have "x AND NOT (mask n) = push_bit n (drop_bit n x)"
    by (rule bit_word_eqI) (auto simp: bit_simps)
  also have "\<dots> = x - take_bit n x"
    using bits_ident[of n x] by (simp add: algebra_simps)
  finally show ?thesis .
qed

lemma unat_and_not_7:
  fixes p :: "64 word"
  assumes "unat p + 7 < 2 ^ 64"
  shows "unat ((p + 7) AND NOT 7) = (unat p + 7) div 8 * 8"
proof -
  have m: "(7::64 word) = mask 3" by (simp add: mask_eq_exp_minus_1)
  have s: "unat (p + 7) = unat p + 7" using assms by (simp add: unat_plus_if')
  have "unat (take_bit 3 (p + 7)) = take_bit 3 (unat (p + 7))"
    by (rule unsigned_take_bit_eq)
  then have t: "unat (take_bit 3 (p + 7)) = (unat p + 7) mod 8"
    by (simp only: s) (simp add: take_bit_eq_mod)
  have le: "take_bit 3 (p + 7) \<le> p + 7"
    using t s by (simp add: word_le_nat_alt)
  have "unat ((p + 7) AND NOT (mask 3)) = unat (p + 7) - unat (take_bit 3 (p + 7))"
    unfolding word_and_not_mask using le by (rule unat_sub)
  also have "\<dots> = (unat p + 7) - (unat p + 7) mod 8" by (simp only: s t)
  also have "\<dots> = (unat p + 7) div 8 * 8" by (simp add: minus_mod_eq_div_mult)
  finally show ?thesis by (simp only: m)
qed

lemma unat_add_no_wrap:
  fixes a b :: "64 word"
  assumes "unat a + unat b < 2 ^ 64"
  shows "unat (a + b) = unat a + unat b"
  using assms by (simp add: unat_plus_if')

lemma unat_lt_2p64: "unat (a::64 word) < 18446744073709551616"
  using unsigned_less [of a] by simp

lemma sint_word_of_int:
  assumes "- (2 ^ 63) \<le> i" "i < 2 ^ 63"
  shows "sint (word_of_int i :: 64 word) = i"
  using assms by (simp add: signed_of_int signed_take_bit_int_eq_self)

text \<open>The two hexadecimal digits of a byte\<close>

lemma byte_nibbles:
  fixes c :: byte
  shows "unat (drop_bit 4 c) < 16" "unat (c AND 0xf) < 16" "16 * unat (drop_bit 4 c) + unat (c AND 0xf) = unat c"
    "push_bit 4 (drop_bit 4 c) + (c AND 0xf) = c"
proof -
  have m: "(0xf::byte) = mask 4" by (simp add: mask_eq_exp_minus_1)
  have "unat (take_bit 4 c) = take_bit 4 (unat c)" by (rule unsigned_take_bit_eq)
  then have l: "unat (c AND 0xf) = unat c mod 16"
    unfolding m take_bit_eq_mask[symmetric] by (simp only: take_bit_eq_mod[of 4 "unat c"]) simp
  have h: "unat (drop_bit 4 c) = unat c div 16" by (simp add: drop_bit_eq_div unat_div)
  have "unat c < 256" using unsigned_less[of c] by simp
  then show "unat (drop_bit 4 c) < 16" unfolding h by (simp add: less_mult_imp_div_less)
  show "unat (c AND 0xf) < 16" "16 * unat (drop_bit 4 c) + unat (c AND 0xf) = unat c" unfolding l h by simp_all
  show "push_bit 4 (drop_bit 4 c) + (c AND 0xf) = c"
    unfolding m take_bit_eq_mask[symmetric] by (rule bits_ident)
qed

section \<open>Lists\<close>

lemma map_take_append_drop [simp]: "map f (take k xs) @ map f (drop k xs) = map f xs"
  by (metis append_take_drop_id map_append)

end
