(* ===== verification/Ngx_Palloc.thy ===== *)
theory Ngx_Palloc
  imports Ngx_Prelude
begin

text \<open>
  The memory pools of \<^verbatim>\<open>nginx/src/core/ngx_palloc.c\<close>. A pool is a chain of blocks
  obtained from the system allocator, from which small requests are carved, a list of
  large allocations, and a list of cleanup handlers run when the pool is destroyed.
  Addresses and sizes are 64-bit words, so the pointer arithmetic wraps as it does in C.

  The system allocator is not part of the sources: it is a parameter \<open>A\<close> over a state
  \<open>'m\<close>, and what malloc and posix_memalign promise is the predicate \<open>malloc_ok\<close>.
\<close>

section \<open>Data\<close>

record pool_block =
  blk_base :: addr
  blk_last :: addr
  blk_end :: addr
  blk_failed :: csize

record 'h pool_cleanup =
  cln_handler :: "'h option"
  cln_data :: addr

record 'h pool =
  pool_blocks :: "pool_block list"
  pool_max :: csize
  pool_current :: nat
  pool_large :: "addr option list"
  pool_cleanup :: "'h pool_cleanup list"

text \<open>
  The chain \<open>p->d.next\<close> is the list \<open>pool_blocks\<close>, whose head is the pool itself, and
  \<open>pool->current\<close> is the index of a block of it. A \<open>ngx_pool_large_t\<close> is the pointer it
  holds, \<open>None\<close> after \<open>ngx_pfree\<close>. \<open>cln_handler\<close> is \<open>None\<close> for a NULL handler.
\<close>

record 'm allocator =
  memalign :: "csize \<Rightarrow> csize \<Rightarrow> 'm \<Rightarrow> addr option \<times> 'm"
  malloc :: "csize \<Rightarrow> 'm \<Rightarrow> addr option \<times> 'm"
  mfree :: "addr \<Rightarrow> 'm \<Rightarrow> 'm"

definition sizeof_ngx_pool_t :: csize where "sizeof_ngx_pool_t = 80"
definition sizeof_ngx_pool_data_t :: csize where "sizeof_ngx_pool_data_t = 32"
definition sizeof_ngx_pool_large_t :: csize where "sizeof_ngx_pool_large_t = 16"
definition sizeof_ngx_pool_cleanup_t :: csize where "sizeof_ngx_pool_cleanup_t = 24"
definition NGX_ALIGNMENT :: csize where "NGX_ALIGNMENT = 8"
definition NGX_POOL_ALIGNMENT :: csize where "NGX_POOL_ALIGNMENT = 16"

lemmas sizeof_defs = sizeof_ngx_pool_t_def sizeof_ngx_pool_data_t_def
  sizeof_ngx_pool_large_t_def sizeof_ngx_pool_cleanup_t_def NGX_ALIGNMENT_def
  NGX_POOL_ALIGNMENT_def

section \<open>Operations\<close>

definition ngx_align_ptr :: "addr \<Rightarrow> csize \<Rightarrow> addr" where
  "ngx_align_ptr p a = (p + (a - 1)) AND NOT (a - 1)"

definition ngx_create_pool ::
  "csize \<Rightarrow> 'm allocator \<Rightarrow> csize \<Rightarrow> 'm \<Rightarrow> 'h pool option \<times> 'm" where
  "ngx_create_pool pagesize A sz m =
     (case memalign A NGX_POOL_ALIGNMENT sz m of
        (None, m') \<Rightarrow> (None, m')
      | (Some p, m') \<Rightarrow>
          (let rest = sz - sizeof_ngx_pool_t in
           (Some \<lparr>pool_blocks = [\<lparr>blk_base = p, blk_last = p + sizeof_ngx_pool_t,
                                   blk_end = p + sz, blk_failed = 0\<rparr>],
                  pool_max = (if rest < pagesize - 1 then rest else pagesize - 1),
                  pool_current = 0, pool_large = [], pool_cleanup = []\<rparr>, m')))"

fun palloc_scan ::
  "bool \<Rightarrow> csize \<Rightarrow> pool_block list \<Rightarrow> (addr \<times> pool_block list) option" where
  "palloc_scan align sz [] = None"
| "palloc_scan align sz (p # ps) =
     (let m = (if align then ngx_align_ptr (blk_last p) NGX_ALIGNMENT else blk_last p) in
      if sz \<le> blk_end p - m then Some (m, p\<lparr>blk_last := m + sz\<rparr> # ps)
      else map_option (\<lambda>(a, qs). (a, p # qs)) (palloc_scan align sz ps))"

fun palloc_bump :: "nat \<Rightarrow> nat \<Rightarrow> pool_block list \<Rightarrow> nat \<times> pool_block list" where
  "palloc_bump i cur [] = (cur, [])"
| "palloc_bump i cur [p] = (cur, [p])"
| "palloc_bump i cur (p # q # ps) =
     (let (c, rs) = palloc_bump (Suc i) (if 4 < blk_failed p then Suc i else cur) (q # ps)
      in (c, p\<lparr>blk_failed := blk_failed p + 1\<rparr> # rs))"

definition ngx_palloc_block ::
  "'m allocator \<Rightarrow> csize \<Rightarrow> 'h pool \<times> 'm \<Rightarrow> addr option \<times> 'h pool \<times> 'm" where
  "ngx_palloc_block A sz = (\<lambda>(pool, ms).
     let b0 = hd (pool_blocks pool);
         psize = blk_end b0 - blk_base b0
     in case memalign A NGX_POOL_ALIGNMENT psize ms of
          (None, ms') \<Rightarrow> (None, pool, ms')
        | (Some p, ms') \<Rightarrow>
            let m = ngx_align_ptr (p + sizeof_ngx_pool_data_t) NGX_ALIGNMENT;
                new = \<lparr>blk_base = p, blk_last = m + sz, blk_end = p + psize,
                       blk_failed = 0\<rparr>;
                k = pool_current pool;
                (c, bs) = palloc_bump k k (drop k (pool_blocks pool))
            in (Some m, pool\<lparr>pool_blocks := take k (pool_blocks pool) @ bs @ [new],
                             pool_current := c\<rparr>, ms'))"

fun large_reuse :: "nat \<Rightarrow> addr \<Rightarrow> addr option list \<Rightarrow> addr option list option" where
  "large_reuse n p [] = None"
| "large_reuse n p (None # ls) = Some (Some p # ls)"
| "large_reuse n p (Some q # ls) =
     (if 3 < n then None else map_option (\<lambda>ls'. Some q # ls') (large_reuse (Suc n) p ls))"

text \<open>
  \<open>ngx_palloc_large\<close> takes the list node from the pool with \<open>ngx_palloc\<close>, which for a
  pool whose \<open>max\<close> is below the size of a node calls \<open>ngx_palloc_large\<close> again. The
  outer \<open>option\<close> is \<open>None\<close> when this recursion has not returned within the given depth.
\<close>

type_synonym ('h, 'm) palloc_fun =
  "csize \<Rightarrow> 'h pool \<times> 'm \<Rightarrow> (addr option \<times> 'h pool \<times> 'm) option"

definition ngx_palloc_large ::
  "('h, 'm) palloc_fun \<Rightarrow> 'm allocator \<Rightarrow> ('h, 'm) palloc_fun" where
  "ngx_palloc_large palloc A sz = (\<lambda>(pool, ms).
     case malloc A sz ms of
       (None, ms') \<Rightarrow> Some (None, pool, ms')
     | (Some p, ms') \<Rightarrow>
         (case large_reuse 0 p (pool_large pool) of
            Some ls \<Rightarrow> Some (Some p, pool\<lparr>pool_large := ls\<rparr>, ms')
          | None \<Rightarrow>
              (case palloc sizeof_ngx_pool_large_t (pool, ms') of
                 None \<Rightarrow> None
               | Some (None, pool', ms'') \<Rightarrow> Some (None, pool', mfree A p ms'')
               | Some (Some _, pool', ms'') \<Rightarrow>
                   Some (Some p, pool'\<lparr>pool_large := Some p # pool_large pool'\<rparr>, ms''))))"

fun ngx_palloc_gen :: "bool \<Rightarrow> nat \<Rightarrow> 'm allocator \<Rightarrow> ('h, 'm) palloc_fun" where
  "ngx_palloc_gen align 0 A sz st = None"
| "ngx_palloc_gen align (Suc n) A sz (pool, ms) =
     (if sz \<le> pool_max pool then
        (case palloc_scan align sz (drop (pool_current pool) (pool_blocks pool)) of
           Some (m, bs) \<Rightarrow>
             Some (Some m, pool\<lparr>pool_blocks :=
               take (pool_current pool) (pool_blocks pool) @ bs\<rparr>, ms)
         | None \<Rightarrow> Some (ngx_palloc_block A sz (pool, ms)))
      else ngx_palloc_large (ngx_palloc_gen True n A) A sz (pool, ms))"

definition ngx_palloc :: "nat \<Rightarrow> 'm allocator \<Rightarrow> ('h, 'm) palloc_fun" where
  "ngx_palloc = ngx_palloc_gen True"

definition ngx_pnalloc :: "nat \<Rightarrow> 'm allocator \<Rightarrow> ('h, 'm) palloc_fun" where
  "ngx_pnalloc = ngx_palloc_gen False"

definition ngx_pmemalign ::
  "nat \<Rightarrow> 'm allocator \<Rightarrow> csize \<Rightarrow> ('h, 'm) palloc_fun" where
  "ngx_pmemalign n A alignment sz = (\<lambda>(pool, ms).
     case memalign A alignment sz ms of
       (None, ms') \<Rightarrow> Some (None, pool, ms')
     | (Some p, ms') \<Rightarrow>
         (case ngx_palloc n A sizeof_ngx_pool_large_t (pool, ms') of
            None \<Rightarrow> None
          | Some (None, pool', ms'') \<Rightarrow> Some (None, pool', mfree A p ms'')
          | Some (Some _, pool', ms'') \<Rightarrow>
              Some (Some p, pool'\<lparr>pool_large := Some p # pool_large pool'\<rparr>, ms'')))"

fun pfree_scan :: "addr \<Rightarrow> addr option list \<Rightarrow> addr option list option" where
  "pfree_scan p [] = None"
| "pfree_scan p (l # ls) =
     (if l = Some p then Some (None # ls)
      else map_option (\<lambda>ls'. l # ls') (pfree_scan p ls))"

definition ngx_pfree :: "'m allocator \<Rightarrow> addr \<Rightarrow> 'h pool \<times> 'm \<Rightarrow> ngx_rc \<times> 'h pool \<times> 'm" where
  "ngx_pfree A p = (\<lambda>(pool, ms).
     case pfree_scan p (pool_large pool) of
       Some ls \<Rightarrow> (NGX_OK, pool\<lparr>pool_large := ls\<rparr>, mfree A p ms)
     | None \<Rightarrow> (NGX_DECLINED, pool, ms))"

type_synonym memory = "addr \<Rightarrow> byte"

definition ngx_memzero :: "addr \<Rightarrow> csize \<Rightarrow> memory \<Rightarrow> memory" where
  "ngx_memzero p sz mem = (\<lambda>a. if a - p < sz then 0 else mem a)"

definition ngx_pcalloc ::
  "nat \<Rightarrow> 'm allocator \<Rightarrow> csize \<Rightarrow> memory \<Rightarrow> 'h pool \<times> 'm
     \<Rightarrow> (addr option \<times> memory \<times> 'h pool \<times> 'm) option" where
  "ngx_pcalloc n A sz mem st =
     (case ngx_palloc n A sz st of
        None \<Rightarrow> None
      | Some (None, st') \<Rightarrow> Some (None, mem, st')
      | Some (Some p, st') \<Rightarrow> Some (Some p, ngx_memzero p sz mem, st'))"

definition ngx_pool_cleanup_add ::
  "nat \<Rightarrow> 'm allocator \<Rightarrow> ('h, 'm) palloc_fun" where
  "ngx_pool_cleanup_add n A sz st =
     (case ngx_palloc n A sizeof_ngx_pool_cleanup_t st of
        None \<Rightarrow> None
      | Some (None, st') \<Rightarrow> Some (None, st')
      | Some (Some c, st') \<Rightarrow>
          (if sz \<noteq> 0 then
             (case ngx_palloc n A sz st' of
                None \<Rightarrow> None
              | Some (None, st'') \<Rightarrow> Some (None, st'')
              | Some (Some d, pool, ms) \<Rightarrow>
                  Some (Some c, pool\<lparr>pool_cleanup :=
                    \<lparr>cln_handler = None, cln_data = d\<rparr> # pool_cleanup pool\<rparr>, ms))
           else
             (case st' of (pool, ms) \<Rightarrow>
                Some (Some c, pool\<lparr>pool_cleanup :=
                  \<lparr>cln_handler = None, cln_data = 0\<rparr> # pool_cleanup pool\<rparr>, ms))))"

text \<open>
  The caller of \<open>ngx_pool_cleanup_add\<close> fills the entry it got, the head of the list.
\<close>

definition set_cleanup :: "'h \<Rightarrow> addr \<Rightarrow> 'h pool \<Rightarrow> 'h pool" where
  "set_cleanup h d pool =
     (case pool_cleanup pool of
        [] \<Rightarrow> pool
      | c # cs \<Rightarrow> pool\<lparr>pool_cleanup := c\<lparr>cln_handler := Some h, cln_data := d\<rparr> # cs\<rparr>)"

fun run_cleanups :: "('h \<Rightarrow> addr \<Rightarrow> 'w \<Rightarrow> 'w) \<Rightarrow> 'h pool_cleanup list \<Rightarrow> 'w \<Rightarrow> 'w" where
  "run_cleanups run [] w = w"
| "run_cleanups run (c # cs) w =
     run_cleanups run cs
       (case cln_handler c of Some h \<Rightarrow> run h (cln_data c) w | None \<Rightarrow> w)"

fun free_large :: "'m allocator \<Rightarrow> addr option list \<Rightarrow> 'm \<Rightarrow> 'm" where
  "free_large A [] ms = ms"
| "free_large A (None # ls) ms = free_large A ls ms"
| "free_large A (Some p # ls) ms = free_large A ls (mfree A p ms)"

definition ngx_destroy_pool ::
  "('h \<Rightarrow> addr \<Rightarrow> 'w \<Rightarrow> 'w) \<Rightarrow> 'm allocator \<Rightarrow> 'h pool \<Rightarrow> 'w \<times> 'm \<Rightarrow> 'w \<times> 'm" where
  "ngx_destroy_pool run A pool = (\<lambda>(w, ms).
     (run_cleanups run (pool_cleanup pool) w,
      fold (mfree A) (map blk_base (pool_blocks pool))
        (free_large A (pool_large pool) ms)))"

definition ngx_reset_pool :: "'m allocator \<Rightarrow> 'h pool \<times> 'm \<Rightarrow> 'h pool \<times> 'm" where
  "ngx_reset_pool A = (\<lambda>(pool, ms).
     (pool\<lparr>pool_large := [],
           pool_blocks := map (\<lambda>p. p\<lparr>blk_last := blk_base p + sizeof_ngx_pool_t\<rparr>)
             (pool_blocks pool)\<rparr>,
      free_large A (pool_large pool) ms))"

section \<open>What the system allocator promises\<close>

definition region_disj :: "addr \<times> csize \<Rightarrow> addr \<times> csize \<Rightarrow> bool" where
  "region_disj r q \<longleftrightarrow> unat (fst r) + unat (snd r) \<le> unat (fst q)
                   \<or> unat (fst q) + unat (snd q) \<le> unat (fst r)"

definition fresh_region :: "(addr \<times> csize) set \<Rightarrow> addr \<Rightarrow> csize \<Rightarrow> bool" where
  "fresh_region L p s \<longleftrightarrow> p \<noteq> 0 \<and> unat p + unat s < 2 ^ 64
     \<and> (\<forall>r\<in>L. fst r \<noteq> p \<and> region_disj (p, s) r)"

text \<open>
  \<open>live ms\<close> is the set of blocks the allocator has handed out and not taken back.
  A block that is returned is not NULL, does not wrap around the address space, has the
  requested alignment, a pointer of its own and no byte of a live block; \<open>free\<close> removes its block.
\<close>

definition malloc_ok :: "'m allocator \<Rightarrow> ('m \<Rightarrow> (addr \<times> csize) set) \<Rightarrow> bool" where
  "malloc_ok A live \<longleftrightarrow>
     (\<forall>al s ms p ms'. memalign A al s ms = (Some p, ms') \<longrightarrow>
        fresh_region (live ms) p s \<and> unat al dvd unat p \<and>
        live ms' = insert (p, s) (live ms)) \<and>
     (\<forall>s ms p ms'. malloc A s ms = (Some p, ms') \<longrightarrow>
        fresh_region (live ms) p s \<and> live ms' = insert (p, s) (live ms)) \<and>
     (\<forall>al s ms ms'. memalign A al s ms = (None, ms') \<longrightarrow> live ms' = live ms) \<and>
     (\<forall>s ms ms'. malloc A s ms = (None, ms') \<longrightarrow> live ms' = live ms) \<and>
     (\<forall>p ms. live (mfree A p ms) = {r \<in> live ms. fst r \<noteq> p})"

section \<open>The invariant of a pool\<close>

definition blk_region :: "pool_block \<Rightarrow> addr \<times> csize" where
  "blk_region b = (blk_base b, blk_end b - blk_base b)"

definition block_ok :: "nat \<Rightarrow> pool_block \<Rightarrow> bool" where
  "block_ok psz b \<longleftrightarrow> 16 dvd unat (blk_base b) \<and> 8 dvd psz \<and> 80 \<le> psz \<and>
     unat (blk_base b) + psz < 2 ^ 64 \<and> unat (blk_end b) = unat (blk_base b) + psz \<and>
     unat (blk_base b) + 32 \<le> unat (blk_last b) \<and> unat (blk_last b) \<le> unat (blk_end b)"

definition in_block :: "pool_block \<Rightarrow> addr \<times> csize \<Rightarrow> bool" where
  "in_block b r \<longleftrightarrow> unat (blk_base b) + 32 \<le> unat (fst r) \<and>
     unat (fst r) + unat (snd r) \<le> unat (blk_last b)"

definition own_block :: "'h pool \<Rightarrow> (addr \<times> csize) set \<Rightarrow> addr \<times> csize \<Rightarrow> bool" where
  "own_block pool L r \<longleftrightarrow> r \<in> L \<and> r \<notin> blk_region ` set (pool_blocks pool)"

text \<open>
  \<open>pool_inv psz Al L pool\<close>: the blocks of the pool all have \<open>psz\<close> bytes and are live,
  the bump pointer of each stays between its header and its end, and each region of the
  set \<open>Al\<close> of those handed out so far lies in the used part of a block or is a live
  block of its own (a large allocation), no two of them overlapping.
\<close>

definition pool_inv ::
  "nat \<Rightarrow> (addr \<times> csize) set \<Rightarrow> (addr \<times> csize) set \<Rightarrow> 'h pool \<Rightarrow> bool" where
  "pool_inv psz Al L pool \<longleftrightarrow>
     pairwise region_disj L \<and> inj_on fst L \<and>
     pool_current pool < length (pool_blocks pool) \<and>
     unat (pool_max pool) + 80 \<le> psz \<and>
     (\<forall>b\<in>set (pool_blocks pool). block_ok psz b \<and> blk_region b \<in> L) \<and>
     distinct (map blk_base (pool_blocks pool)) \<and>
     (\<forall>r\<in>Al. (\<exists>b\<in>set (pool_blocks pool). in_block b r) \<or> own_block pool L r) \<and>
     pairwise region_disj Al"

section \<open>Allocation keeps the invariant\<close>

lemma palloc_scan_SomeD:
  assumes "palloc_scan al sz bs = Some (m, bs')"
  obtains xs b ys where "bs = xs @ b # ys" "bs' = xs @ b\<lparr>blk_last := m + sz\<rparr> # ys"
    "m = (if al then ngx_align_ptr (blk_last b) NGX_ALIGNMENT else blk_last b)"
    "sz \<le> blk_end b - m"
  using assms
proof (induction bs arbitrary: bs' thesis)
  case Nil
  then show ?case by simp
next
  case (Cons p ps)
  let ?m = "if al then ngx_align_ptr (blk_last p) NGX_ALIGNMENT else blk_last p"
  show ?case
  proof (cases "sz \<le> blk_end p - ?m")
    case True
    with Cons.prems show ?thesis by (auto simp: Let_def intro!: Cons.prems(1)[of "[]" p ps])
  next
    case False
    with Cons.prems(2) obtain qs where q: "palloc_scan al sz ps = Some (m, qs)" "bs' = p # qs"
      by (auto simp: Let_def simp del: if_split)
    from q(1) obtain xs b ys where "ps = xs @ b # ys" "qs = xs @ b\<lparr>blk_last := m + sz\<rparr> # ys"
      "m = (if al then ngx_align_ptr (blk_last b) NGX_ALIGNMENT else blk_last b)"
      "sz \<le> blk_end b - m"
      by (rule Cons.IH[rotated])
    with q show ?thesis by (intro Cons.prems(1)[of "p # xs" b ys]) auto
  qed
qed

lemma ngx_align_ptr_8:
  assumes "unat p + 7 < 2 ^ 64"
  shows "unat (ngx_align_ptr p NGX_ALIGNMENT) = (unat p + 7) div 8 * 8"
  using unat_and_not_7[OF assms] by (simp add: ngx_align_ptr_def NGX_ALIGNMENT_def)

lemma align_up_le:
  assumes "(a::nat) \<le> b" "8 dvd b"
  shows "(a + 7) div 8 * 8 \<le> b"
  using assms by (auto elim!: dvdE)

lemma block_align_bounds:
  assumes "block_ok psz b"
  shows "unat (blk_last b) \<le> unat (ngx_align_ptr (blk_last b) NGX_ALIGNMENT)"
    and "unat (ngx_align_ptr (blk_last b) NGX_ALIGNMENT) \<le> unat (blk_end b)"
    and "8 dvd unat (ngx_align_ptr (blk_last b) NGX_ALIGNMENT)"
proof -
  have d: "8 dvd unat (blk_end b)"
    using assms by (auto simp: block_ok_def intro: dvd_add dvd_trans[of 8 16])
  have e: "unat (blk_end b) + 7 < 2 ^ 64"
  proof -
    obtain k where k: "unat (blk_end b) = 8 * k" using d by (rule dvdE)
    then have "k < 2305843009213693952" using unat_lt_2p64[of "blk_end b"] by simp
    then show ?thesis using k by simp
  qed
  have l: "unat (blk_last b) \<le> unat (blk_end b)"
    using assms by (simp add: block_ok_def)
  have a: "unat (ngx_align_ptr (blk_last b) NGX_ALIGNMENT) = (unat (blk_last b) + 7) div 8 * 8"
    using e l by (intro ngx_align_ptr_8) simp
  show "unat (blk_last b) \<le> unat (ngx_align_ptr (blk_last b) NGX_ALIGNMENT)"
    and "8 dvd unat (ngx_align_ptr (blk_last b) NGX_ALIGNMENT)"
    unfolding a by simp_all
  show "unat (ngx_align_ptr (blk_last b) NGX_ALIGNMENT) \<le> unat (blk_end b)"
    unfolding a by (rule align_up_le[OF l d])
qed

lemma word_fits:
  fixes m e sz :: "64 word"
  assumes "unat m \<le> unat e" "sz \<le> e - m"
  shows "unat (m + sz) = unat m + unat sz" "unat m + unat sz \<le> unat e"
proof -
  have "unat (e - m) = unat e - unat m" using assms(1) by (simp add: unat_sub_if')
  with assms show le: "unat m + unat sz \<le> unat e" by (simp add: word_le_nat_alt)
  then show "unat (m + sz) = unat m + unat sz"
    using unat_lt_2p64[of e] by (intro unat_add_no_wrap) simp
qed

lemma palloc_bump_regions:
  "map blk_base (snd (palloc_bump i c bs)) = map blk_base bs"
  "map blk_last (snd (palloc_bump i c bs)) = map blk_last bs"
  "map blk_end (snd (palloc_bump i c bs)) = map blk_end bs"
  by (induction i c bs rule: palloc_bump.induct) (auto simp: split_def Let_def)

lemma palloc_bump_current:
  "bs \<noteq> [] \<Longrightarrow> c \<le> i \<Longrightarrow> fst (palloc_bump i c bs) < i + length bs"
  by (induction i c bs rule: palloc_bump.induct) (auto simp: split_def Let_def)

lemma region_disj_sym: "region_disj r q \<longleftrightarrow> region_disj q r"
  by (auto simp: region_disj_def)

lemma region_disj_within:
  assumes "region_disj R Q"
    and "unat (fst R) \<le> unat (fst r)" "unat (fst r) + unat (snd r) \<le> unat (fst R) + unat (snd R)"
    and "unat (fst Q) \<le> unat (fst q)" "unat (fst q) + unat (snd q) \<le> unat (fst Q) + unat (snd Q)"
  shows "region_disj r q"
  using assms by (auto simp: region_disj_def)

lemma unat_blk_region:
  assumes "block_ok psz b"
  shows "unat (fst (blk_region b)) = unat (blk_base b)"
    and "unat (fst (blk_region b)) + unat (snd (blk_region b)) = unat (blk_end b)"
  using assms by (auto simp: blk_region_def block_ok_def unat_sub_if')

lemma in_block_within:
  assumes "block_ok psz b" "in_block b r"
  shows "unat (fst (blk_region b)) \<le> unat (fst r)"
    and "unat (fst r) + unat (snd r) \<le> unat (fst (blk_region b)) + unat (snd (blk_region b))"
  using assms unat_blk_region[OF assms(1)] by (auto simp: in_block_def block_ok_def)

lemma pool_inv_disjoint_in_block:
  assumes inv: "pool_inv psz Al L pool" and b: "b \<in> set (pool_blocks pool)"
    and m: "unat (blk_last b) \<le> unat m" "unat m + unat sz \<le> unat (blk_end b)"
    and r: "r \<in> Al"
  shows "region_disj (m, sz) r"
proof -
  have ok: "block_ok psz b" and bL: "blk_region b \<in> L" and pw: "pairwise region_disj L"
    using inv b by (auto simp: pool_inv_def)
  have w: "unat (fst (blk_region b)) \<le> unat m"
    "unat m + unat sz \<le> unat (fst (blk_region b)) + unat (snd (blk_region b))"
    using m ok unat_blk_region[OF ok] by (auto simp: block_ok_def)
  consider (blk) c where "c \<in> set (pool_blocks pool)" "in_block c r" | (large) "own_block pool L r"
    using inv r by (auto simp: pool_inv_def)
  then show ?thesis
  proof cases
    case blk
    show ?thesis
    proof (cases "c = b")
      case True
      with blk m show ?thesis by (auto simp: in_block_def region_disj_def)
    next
      case False
      have cok: "block_ok psz c" and cL: "blk_region c \<in> L"
        using inv blk by (auto simp: pool_inv_def)
      have "blk_base c \<noteq> blk_base b"
        using inv blk(1) b False by (auto simp: pool_inv_def distinct_map dest: inj_onD)
      then have "blk_region b \<noteq> blk_region c" by (auto simp: blk_region_def)
      with pw bL cL have "region_disj (blk_region b) (blk_region c)"
        by (auto simp: pairwise_def)
      then show ?thesis
        using w in_block_within[OF cok blk(2)]
        by (rule region_disj_within[where r = "(m, sz)", unfolded fst_conv snd_conv])
    qed
  next
    case large
    then have "r \<in> L" "r \<noteq> blk_region b" using b by (auto simp: own_block_def)
    with pw bL have "region_disj (blk_region b) r" by (auto simp: pairwise_def)
    then show ?thesis
      using w by (rule region_disj_within[where r = "(m, sz)", unfolded fst_conv snd_conv]) simp_all
  qed
qed

lemma pool_inv_carve:
  assumes inv: "pool_inv psz Al L pool" and bs: "pool_blocks pool = xs @ b # ys"
    and m: "unat (blk_last b) \<le> unat m" "unat m + unat sz \<le> unat (blk_end b)"
    and wrap: "unat (m + sz) = unat m + unat sz"
  shows "pool_inv psz (insert (m, sz) Al) L
           (pool\<lparr>pool_blocks := xs @ b\<lparr>blk_last := m + sz\<rparr> # ys\<rparr>)"
proof -
  let ?b = "b\<lparr>blk_last := m + sz\<rparr>"
  have b: "b \<in> set (pool_blocks pool)" using bs by simp
  have ok: "block_ok psz b" using inv b by (auto simp: pool_inv_def)
  have ok': "block_ok psz ?b" using ok m wrap by (auto simp: block_ok_def)
  have r': "blk_region ?b = blk_region b" by (simp add: blk_region_def)
  have mono: "in_block b r \<Longrightarrow> in_block ?b r" for r
    using m wrap by (auto simp: in_block_def)
  have new: "in_block ?b (m, sz)" using ok m wrap by (auto simp: in_block_def block_ok_def)
  have disj: "\<forall>r\<in>Al. region_disj (m, sz) r"
    using pool_inv_disjoint_in_block[OF inv b m] by blast
  show ?thesis
    unfolding pool_inv_def
  proof (intro conjI ballI)
    show "pairwise region_disj L" using inv by (simp add: pool_inv_def)
    show "pairwise region_disj (insert (m, sz) Al)"
      using inv disj by (auto simp: pool_inv_def pairwise_insert region_disj_sym)
  next
    fix r assume r: "r \<in> insert (m, sz) Al"
    show "(\<exists>b\<in>set (pool_blocks (pool\<lparr>pool_blocks := xs @ ?b # ys\<rparr>)). in_block b r) \<or>
        own_block (pool\<lparr>pool_blocks := xs @ ?b # ys\<rparr>) L r"
    proof (cases "r = (m, sz)")
      case True
      then show ?thesis using new by simp
    next
      case False
      then have "(\<exists>c\<in>set (pool_blocks pool). in_block c r) \<or> own_block pool L r"
        using inv r by (auto simp: pool_inv_def)
      then show ?thesis using mono[of r] bs r' by (fastforce simp: own_block_def)
    qed
  qed (use inv bs ok' r' in \<open>auto simp: pool_inv_def\<close>)
qed

lemma malloc_ok_memalign:
  assumes "malloc_ok A live" "memalign A al s ms = (Some p, ms')"
  shows "fresh_region (live ms) p s" "unat al dvd unat p" "live ms' = insert (p, s) (live ms)"
  using assms unfolding malloc_ok_def by metis+

lemma malloc_ok_malloc:
  assumes "malloc_ok A live" "malloc A s ms = (Some p, ms')"
  shows "fresh_region (live ms) p s" "live ms' = insert (p, s) (live ms)"
  using assms unfolding malloc_ok_def by metis+

lemma malloc_ok_NULL:
  assumes "malloc_ok A live"
  shows "memalign A al s ms = (None, ms') \<Longrightarrow> live ms' = live ms"
    and "malloc A s ms = (None, ms') \<Longrightarrow> live ms' = live ms"
  using assms unfolding malloc_ok_def by blast+

lemma malloc_ok_free:
  assumes "malloc_ok A live"
  shows "live (mfree A p ms) = {r \<in> live ms. fst r \<noteq> p}"
  using assms unfolding malloc_ok_def by blast

lemma pool_inv_extend_live:
  assumes "pool_inv psz Al L pool" "fresh_region L p s"
  shows "pool_inv psz Al (insert (p, s) L) pool"
  using assms
  by (auto simp: pool_inv_def fresh_region_def pairwise_insert own_block_def region_disj_sym)

lemma pool_inv_same_view:
  assumes inv: "pool_inv psz Al L pool"
    and v: "map blk_base bs = map blk_base (pool_blocks pool)"
      "map blk_last bs = map blk_last (pool_blocks pool)"
      "map blk_end bs = map blk_end (pool_blocks pool)"
    and c: "c < length bs"
  shows "pool_inv psz Al L (pool\<lparr>pool_blocks := bs, pool_current := c\<rparr>)"
proof -
  let ?bs = "pool_blocks pool"
  have len: "length bs = length ?bs" using v(1) by (rule map_eq_imp_length_eq)
  have nth: "blk_base (bs ! i) = blk_base (?bs ! i)" "blk_last (bs ! i) = blk_last (?bs ! i)"
    "blk_end (bs ! i) = blk_end (?bs ! i)" if "i < length ?bs" for i
    using that v len by (metis nth_map)+
  have to: "\<exists>b\<in>set ?bs. blk_base b = blk_base b' \<and> blk_last b = blk_last b' \<and> blk_end b = blk_end b'"
    if "b' \<in> set bs" for b'
    using that nth len by (metis in_set_conv_nth nth_mem)
  have fro: "\<exists>b'\<in>set bs. blk_base b = blk_base b' \<and> blk_last b = blk_last b' \<and> blk_end b = blk_end b'"
    if "b \<in> set ?bs" for b
    using that nth len by (metis in_set_conv_nth nth_mem)
  have ok: "block_ok psz b' \<and> blk_region b' \<in> L" if "b' \<in> set bs" for b'
    using inv to[OF that] by (auto simp: pool_inv_def block_ok_def blk_region_def)
  have "map blk_region bs = map blk_region ?bs"
    by (rule nth_equalityI) (simp_all add: len nth blk_region_def)
  then have reg: "blk_region ` set bs = blk_region ` set ?bs"
    by (metis set_map)
  have al: "(\<exists>b\<in>set bs. in_block b r) \<or> own_block (pool\<lparr>pool_blocks := bs, pool_current := c\<rparr>) L r"
    if "r \<in> Al" for r
  proof -
    have "(\<exists>b\<in>set ?bs. in_block b r) \<or> own_block pool L r"
      using inv that by (auto simp: pool_inv_def)
    then show ?thesis
    proof
      assume "\<exists>b\<in>set ?bs. in_block b r"
      then obtain b where "b \<in> set ?bs" "in_block b r" by blast
      with fro[of b] show ?thesis by (auto simp: in_block_def)
    qed (simp add: own_block_def reg)
  qed
  show ?thesis
    using inv ok al c v(1) by (auto simp: pool_inv_def)
qed

lemma pool_inv_add_block:
  assumes inv: "pool_inv psz Al L pool" and fresh: "fresh_region L p s" and s: "unat s = psz"
    and p16: "16 dvd unat p" and l: "unat l = unat p + 32" and e: "unat e = unat p + psz"
  shows "pool_inv psz Al (insert (p, s) L) (pool\<lparr>pool_blocks := pool_blocks pool @
           [\<lparr>blk_base = p, blk_last = l, blk_end = e, blk_failed = f\<rparr>]\<rparr>)"
proof -
  let ?b = "\<lparr>blk_base = p, blk_last = l, blk_end = e, blk_failed = f\<rparr>"
  obtain b0 where b0: "b0 \<in> set (pool_blocks pool)"
    using inv by (cases "pool_blocks pool") (auto simp: pool_inv_def)
  have psz: "8 dvd psz" "80 \<le> psz" using inv b0 by (auto simp: pool_inv_def block_ok_def)
  have ok: "block_ok psz ?b"
    using fresh s p16 l e psz by (auto simp: block_ok_def fresh_region_def)
  have "unat (e - p) = unat s" using e s by (simp add: unat_sub_if')
  then have ep: "e - p = s" by (simp only: word_unat_eq_iff)
  then have reg: "blk_region ?b = (p, s)" by (simp add: blk_region_def)
  have nin: "p \<notin> blk_base ` set (pool_blocks pool)"
  proof
    assume "p \<in> blk_base ` set (pool_blocks pool)"
    then obtain b where "b \<in> set (pool_blocks pool)" "p = fst (blk_region b)"
      by (auto simp: blk_region_def)
    with inv fresh show False by (auto simp: pool_inv_def fresh_region_def)
  qed
  have nL: "(p, s) \<notin> L" using fresh by (auto simp: fresh_region_def)
  note inv' = pool_inv_extend_live[OF inv fresh]
  have al: "\<forall>r\<in>Al. (\<exists>b\<in>set (pool_blocks pool). in_block b r) \<or> (own_block pool L r \<and> r \<noteq> (p, s))"
    using inv nL by (auto simp: pool_inv_def own_block_def)
  show ?thesis
    using inv' ok reg nin al by (auto simp: pool_inv_def own_block_def)
qed

lemma align_block_header:
  assumes "16 dvd unat p" "unat p + 80 < 2 ^ 64"
  shows "unat (p + 32) = unat p + 32" and "ngx_align_ptr (p + 32) NGX_ALIGNMENT = p + 32"
proof -
  show u32: "unat (p + 32) = unat p + 32" using assms(2) by (simp add: unat_plus_if')
  obtain k where k: "unat p = 16 * k" using assms(1) by (rule dvdE)
  have "(16 * k + 32 + 7) div 8 = 2 * k + 4" by arith
  then have "(unat (p + 32) + 7) div 8 * 8 = unat (p + 32)" using u32 k by simp
  moreover have "unat (p + 32) + 7 < 2 ^ 64" using u32 assms(2) by simp
  ultimately show "ngx_align_ptr (p + 32) NGX_ALIGNMENT = p + 32"
    using ngx_align_ptr_8 by (metis word_unat_eq_iff)
qed

lemma palloc_bump_view:
  assumes "palloc_bump k k (drop k xs) = (c, bs)" "k < length xs"
  shows "map blk_base (take k xs @ bs) = map blk_base xs"
    and "map blk_last (take k xs @ bs) = map blk_last xs"
    and "map blk_end (take k xs @ bs) = map blk_end xs"
    and "c < length (take k xs @ bs)"
proof -
  note r = palloc_bump_regions[of k k "drop k xs", unfolded assms(1) snd_conv]
  show v: "map blk_base (take k xs @ bs) = map blk_base xs"
    and "map blk_last (take k xs @ bs) = map blk_last xs"
    and "map blk_end (take k xs @ bs) = map blk_end xs"
    by (simp_all add: r)
  have "c < k + length (drop k xs)"
    using palloc_bump_current[of "drop k xs" k k] assms by simp
  then show "c < length (take k xs @ bs)"
    using assms(2) map_eq_imp_length_eq[OF v] by simp
qed

lemma pool_inv_add_carved_block:
  assumes inv: "pool_inv psz Al L pool" and fresh: "fresh_region L p s" and s: "unat s = psz"
    and p16: "16 dvd unat p" and szle: "unat sz + 80 \<le> psz"
  defines "new \<equiv> \<lparr>blk_base = p, blk_last = p + 32 + sz, blk_end = p + s, blk_failed = 0\<rparr>"
  shows "pool_inv psz (insert (p + 32, sz) Al) (insert (p, s) L)
           (pool\<lparr>pool_blocks := pool_blocks pool @ [new]\<rparr>)"
    and "\<forall>r\<in>Al. region_disj (p + 32, sz) r"
    and "8 dvd unat (p + 32)"
proof -
  define b where "b = \<lparr>blk_base = p, blk_last = p + 32, blk_end = p + s, blk_failed = 0\<rparr>"
  define pool1 where "pool1 = pool\<lparr>pool_blocks := pool_blocks pool @ [b]\<rparr>"
  have room: "unat p + psz < 2 ^ 64" using fresh s by (simp add: fresh_region_def)
  have u32: "unat (p + 32) = unat p + 32"
    using align_block_header(1)[OF p16] room szle by simp
  have ue: "unat (p + s) = unat p + psz" using room s by (simp add: unat_plus_if')
  have i1: "pool_inv psz Al (insert (p, s) L) pool1"
    unfolding pool1_def b_def by (rule pool_inv_add_block[OF inv fresh s p16 u32 ue])
  have bs: "pool_blocks pool1 = pool_blocks pool @ b # []" by (simp add: pool1_def)
  have m: "unat (blk_last b) \<le> unat (p + 32)" "unat (p + 32) + unat sz \<le> unat (blk_end b)"
    using u32 ue szle by (auto simp: b_def)
  have w: "unat (p + 32 + sz) = unat (p + 32) + unat sz"
    using u32 room szle by (intro unat_add_no_wrap) simp
  show "pool_inv psz (insert (p + 32, sz) Al) (insert (p, s) L)
           (pool\<lparr>pool_blocks := pool_blocks pool @ [new]\<rparr>)"
    using pool_inv_carve[OF i1 bs m w] by (simp add: pool1_def b_def new_def)
  show "\<forall>r\<in>Al. region_disj (p + 32, sz) r"
    using pool_inv_disjoint_in_block[OF i1 _ m] bs by auto
  show "8 dvd unat (p + 32)"
    using u32 p16 by (auto intro: dvd_trans[of 8 16])
qed

lemma ngx_palloc_block_inv:
  assumes ok: "malloc_ok A live" and inv: "pool_inv psz Al (live ms) pool"
    and fit: "sz \<le> pool_max pool"
    and call: "ngx_palloc_block A sz (pool, ms) = (res, pool', ms')"
  shows "(res = None \<longrightarrow> pool' = pool \<and> live ms' = live ms) \<and>
    (\<forall>p. res = Some p \<longrightarrow> pool_inv psz (insert (p, sz) Al) (live ms') pool' \<and>
       8 dvd unat p \<and> (\<forall>r\<in>Al. region_disj (p, sz) r))"
proof -
  let ?b0 = "hd (pool_blocks pool)" and ?k = "pool_current pool"
  let ?ps = "blk_end ?b0 - blk_base ?b0"
  have cur: "?k < length (pool_blocks pool)"
    and max: "unat sz + 80 \<le> psz" using inv fit by (auto simp: pool_inv_def word_le_nat_alt)
  have "?b0 \<in> set (pool_blocks pool)" using cur by (cases "pool_blocks pool") auto
  then have ps: "unat ?ps = psz" using inv by (auto simp: pool_inv_def block_ok_def unat_sub_if')
  obtain q ms1 where mal: "memalign A NGX_POOL_ALIGNMENT ?ps ms = (q, ms1)" by fastforce
  show ?thesis
  proof (cases q)
    case None
    with mal call have "res = None" "pool' = pool" "ms' = ms1"
      by (auto simp: ngx_palloc_block_def Let_def)
    moreover have "live ms1 = live ms" using malloc_ok_NULL(1)[OF ok] mal None by blast
    ultimately show ?thesis using inv by auto
  next
    case (Some p)
    obtain c bs where bump: "palloc_bump ?k ?k (drop ?k (pool_blocks pool)) = (c, bs)" by fastforce
    note m = malloc_ok_memalign[OF ok mal[unfolded Some]]
    have p16: "16 dvd unat p" using m(2) by (simp add: NGX_POOL_ALIGNMENT_def)
    have "unat p + 80 < 2 ^ 64" using m(1) ps max by (simp add: fresh_region_def)
    note al = align_block_header(2)[OF p16 this]
    define pool1 where
      "pool1 = pool\<lparr>pool_blocks := take ?k (pool_blocks pool) @ bs, pool_current := c\<rparr>"
    have i1: "pool_inv psz Al (live ms) pool1"
      unfolding pool1_def by (rule pool_inv_same_view[OF inv palloc_bump_view[OF bump cur]])
    have res: "res = Some (p + 32)" "ms' = ms1"
      "pool' = pool1\<lparr>pool_blocks := pool_blocks pool1 @ [\<lparr>blk_base = p,
         blk_last = p + 32 + sz, blk_end = p + ?ps, blk_failed = 0\<rparr>]\<rparr>"
      using call mal Some bump al
      by (auto simp: ngx_palloc_block_def Let_def pool1_def sizeof_ngx_pool_data_t_def)
    show ?thesis
      using pool_inv_add_carved_block[OF i1 m(1) ps p16 max]
      by (auto simp: res m(3))
  qed
qed

lemma pool_inv_fresh_disj:
  assumes inv: "pool_inv psz Al L pool" and fresh: "fresh_region L p s" and r: "r \<in> Al"
  shows "region_disj (p, s) r"
proof -
  consider (blk) b where "b \<in> set (pool_blocks pool)" "in_block b r" | (own) "r \<in> L"
    using inv r by (auto simp: pool_inv_def own_block_def)
  then show ?thesis
  proof cases
    case blk
    then have ok: "block_ok psz b" and "region_disj (p, s) (blk_region b)"
      using inv fresh by (auto simp: pool_inv_def fresh_region_def)
    from this(2) show ?thesis
      by (rule region_disj_within) (use in_block_within[OF ok blk(2)] in simp_all)
  next
    case own
    with fresh show ?thesis by (auto simp: fresh_region_def)
  qed
qed

lemma pool_inv_large_irrelevant [simp]:
  "pool_inv psz Al L (pool\<lparr>pool_large := ls\<rparr>) = pool_inv psz Al L pool"
  "pool_inv psz Al L (pool\<lparr>pool_cleanup := cs\<rparr>) = pool_inv psz Al L pool"
  by (simp_all add: pool_inv_def own_block_def)

lemma pool_inv_add_own:
  assumes inv: "pool_inv psz Al L pool" and fresh: "fresh_region L p s"
  shows "pool_inv psz (insert (p, s) Al) (insert (p, s) L) pool"
proof -
  have d: "\<forall>r\<in>Al. region_disj (p, s) r" using pool_inv_fresh_disj[OF inv fresh] by blast
  have "(p, s) \<notin> L" using fresh by (auto simp: fresh_region_def)
  then have n: "own_block pool (insert (p, s) L) (p, s)"
    using inv by (auto simp: own_block_def pool_inv_def)
  have "pairwise region_disj (insert (p, s) Al)"
    using inv d by (auto simp: pool_inv_def pairwise_insert region_disj_sym)
  with n pool_inv_extend_live[OF inv fresh] show ?thesis
    by (simp add: pool_inv_def)
qed

lemma pool_inv_free_own:
  assumes inv: "pool_inv psz Al L pool" and p: "p \<notin> blk_base ` set (pool_blocks pool)"
  shows "pool_inv psz {r \<in> Al. fst r \<noteq> p \<or> r \<notin> L} {r \<in> L. fst r \<noteq> p} pool"
proof -
  have bl: "\<forall>b\<in>set (pool_blocks pool). block_ok psz b \<and> blk_region b \<in> {r \<in> L. fst r \<noteq> p}"
    using inv p by (auto simp: pool_inv_def blk_region_def)
  have "pairwise region_disj {r \<in> L. fst r \<noteq> p}" "inj_on fst {r \<in> L. fst r \<noteq> p}"
    "pairwise region_disj {r \<in> Al. fst r \<noteq> p \<or> r \<notin> L}"
    using inv by (auto simp: pool_inv_def pairwise_def inj_on_def)
  with bl inv show ?thesis by (auto simp: pool_inv_def own_block_def)
qed

lemma palloc_small_inv:
  assumes inv: "pool_inv psz Al L pool"
    and scan: "palloc_scan al sz (drop (pool_current pool) (pool_blocks pool)) = Some (m, bs)"
  defines "pool' \<equiv> pool\<lparr>pool_blocks := take (pool_current pool) (pool_blocks pool) @ bs\<rparr>"
  shows "pool_inv psz (insert (m, sz) Al) L pool'" and "\<forall>r\<in>Al. region_disj (m, sz) r"
    and "al \<Longrightarrow> 8 dvd unat m"
proof -
  let ?t = "take (pool_current pool) (pool_blocks pool)"
  from scan obtain xs b ys where b: "drop (pool_current pool) (pool_blocks pool) = xs @ b # ys"
    "bs = xs @ b\<lparr>blk_last := m + sz\<rparr> # ys"
    "m = (if al then ngx_align_ptr (blk_last b) NGX_ALIGNMENT else blk_last b)"
    "sz \<le> blk_end b - m"
    by (rule palloc_scan_SomeD)
  have bl: "pool_blocks pool = (?t @ xs) @ b # ys"
    using b(1) by (metis append.assoc append_take_drop_id)
  have mem: "b \<in> set (pool_blocks pool)" by (subst bl) simp
  then have ok: "block_ok psz b" using inv by (auto simp: pool_inv_def)
  have m: "unat (blk_last b) \<le> unat m" "unat m \<le> unat (blk_end b)"
    using block_align_bounds[OF ok] ok b(3) by (auto simp: block_ok_def)
  note f = word_fits[OF m(2) b(4)]
  show "pool_inv psz (insert (m, sz) Al) L pool'"
    using pool_inv_carve[OF inv bl m(1) f(2,1)] by (simp add: pool'_def b(2))
  show "\<forall>r\<in>Al. region_disj (m, sz) r"
    using pool_inv_disjoint_in_block[OF inv mem m(1) f(2)] by blast
  show "al \<Longrightarrow> 8 dvd unat m" using block_align_bounds(3)[OF ok] b(3) by simp
qed

text \<open>
  What an allocation guarantees: on success the invariant, for a set of regions that has
  the old ones and the new one, which overlaps none of them; on failure an unchanged pool
  and no block left behind in the allocator.
\<close>

definition palloc_post ::
  "('m \<Rightarrow> (addr \<times> csize) set) \<Rightarrow> nat \<Rightarrow> (addr \<times> csize) set \<Rightarrow> csize \<Rightarrow> 'h pool \<times> 'm
     \<Rightarrow> addr option \<times> 'h pool \<times> 'm \<Rightarrow> bool" where
  "palloc_post live psz Al sz = (\<lambda>(pool, ms) (res, pool', ms').
     case res of
       None \<Rightarrow> pool' = pool \<and> live ms' = live ms
     | Some p \<Rightarrow> (\<forall>r\<in>Al. region_disj (p, sz) r) \<and>
         (\<exists>Al'. insert (p, sz) Al \<subseteq> Al' \<and> pool_inv psz Al' (live ms') pool'))"

lemma palloc_post_simps [simp]:
  "palloc_post live psz Al sz (pool, ms) (None, pool', ms') \<longleftrightarrow> pool' = pool \<and> live ms' = live ms"
  "palloc_post live psz Al sz (pool, ms) (Some p, pool', ms') \<longleftrightarrow>
     (\<forall>r\<in>Al. region_disj (p, sz) r) \<and>
     (\<exists>Al'. insert (p, sz) Al \<subseteq> Al' \<and> pool_inv psz Al' (live ms') pool')"
  by (simp_all add: palloc_post_def)

lemma ngx_palloc_large_inv:
  assumes ok: "malloc_ok A live" and inv: "pool_inv psz Al (live ms) pool"
    and pal: "\<And>Al ms out. pool_inv psz Al (live ms) pool \<Longrightarrow>
      palloc sizeof_ngx_pool_large_t (pool, ms) = Some out \<Longrightarrow>
      palloc_post live psz Al sizeof_ngx_pool_large_t (pool, ms) out"
    and call: "ngx_palloc_large palloc A sz (pool, ms) = Some out"
  shows "palloc_post live psz Al sz (pool, ms) out"
proof -
  obtain q ms1 where mal: "malloc A sz ms = (q, ms1)" by fastforce
  show ?thesis
  proof (cases q)
    case None
    with mal call have "out = (None, pool, ms1)" by (auto simp: ngx_palloc_large_def)
    then show ?thesis using malloc_ok_NULL(2)[OF ok] mal None by simp
  next
    case (Some p)
    note m = malloc_ok_malloc[OF ok mal[unfolded Some]]
    have d: "\<forall>r\<in>Al. region_disj (p, sz) r" using pool_inv_fresh_disj[OF inv m(1)] by blast
    have i1: "pool_inv psz (insert (p, sz) Al) (live ms1) pool"
      unfolding m(2) by (rule pool_inv_add_own[OF inv m(1)])
    show ?thesis
    proof (cases "large_reuse 0 p (pool_large pool)")
      case r: (Some ls)
      have "out = (Some p, pool\<lparr>pool_large := ls\<rparr>, ms1)"
        using call mal Some r by (auto simp: ngx_palloc_large_def)
      with d i1 show ?thesis by auto
    next
      case r: None
      obtain nd pool2 ms2 where nd: "palloc sizeof_ngx_pool_large_t (pool, ms1) = Some (nd, pool2, ms2)"
        using call mal Some r by (auto simp: ngx_palloc_large_def split: option.splits)
      note post = pal[OF i1 nd]
      show ?thesis
      proof (cases nd)
        case n: None
        have "out = (None, pool2, mfree A p ms2)"
          using call mal Some r nd n by (auto simp: ngx_palloc_large_def)
        moreover have "{r \<in> insert (p, sz) (live ms). fst r \<noteq> p} = live ms"
          using m(1) by (auto simp: fresh_region_def)
        ultimately show ?thesis using post n m(2) by (simp add: malloc_ok_free[OF ok])
      next
        case n: (Some n)
        have "out = (Some p, pool2\<lparr>pool_large := Some p # pool_large pool2\<rparr>, ms2)"
          using call mal Some r nd n by (auto simp: ngx_palloc_large_def)
        with d post n show ?thesis by auto
      qed
    qed
  qed
qed

lemma ngx_palloc_gen_inv:
  assumes ok: "malloc_ok A live"
  shows "pool_inv psz Al (live ms) pool \<Longrightarrow> ngx_palloc_gen al n A sz (pool, ms) = Some out \<Longrightarrow>
    palloc_post live psz Al sz (pool, ms) out"
proof (induction n arbitrary: al sz ms Al out)
  case 0
  then show ?case by simp
next
  case (Suc n)
  show ?case
  proof (cases "sz \<le> pool_max pool")
    case False
    with Suc.prems(2) have "ngx_palloc_large (ngx_palloc_gen True n A) A sz (pool, ms) = Some out"
      by simp
    from ngx_palloc_large_inv[OF ok Suc.prems(1) _ this] show ?thesis by (simp add: Suc.IH)
  next
    case True
    show ?thesis
    proof (cases "palloc_scan al sz (drop (pool_current pool) (pool_blocks pool))")
      case None
      obtain res pool' ms' where out: "out = (res, pool', ms')" by (cases out)
      with True None Suc.prems(2) have "ngx_palloc_block A sz (pool, ms) = (res, pool', ms')" by simp
      from ngx_palloc_block_inv[OF ok Suc.prems(1) True this] show ?thesis
        unfolding out by (cases res) auto
    next
      case (Some mb)
      then obtain m bs where mb: "palloc_scan al sz (drop (pool_current pool) (pool_blocks pool)) = Some (m, bs)"
        by (cases mb) auto
      with True Suc.prems(2) palloc_small_inv[OF Suc.prems(1) mb] show ?thesis
        by (auto intro!: exI[of _ "insert (m, sz) Al"])
    qed
  qed
qed

section \<open>Ownership: what a pool took from the allocator it gives back\<close>

definition own_bases :: "'h pool \<Rightarrow> addr set" where
  "own_bases pool = blk_base ` set (pool_blocks pool) \<union> {p. Some p \<in> set (pool_large pool)}"

text \<open>
  \<open>pool_owns L0 L pool\<close>: of the live blocks \<open>L\<close>, those outside \<open>L0\<close> are exactly the
  blocks and the large allocations of the pool.
\<close>

definition pool_owns :: "(addr \<times> csize) set \<Rightarrow> (addr \<times> csize) set \<Rightarrow> 'h pool \<Rightarrow> bool" where
  "pool_owns L0 L pool \<longleftrightarrow> L0 \<subseteq> L \<and> inj_on fst L \<and>
     fst ` L = fst ` L0 \<union> own_bases pool \<and> fst ` L0 \<inter> own_bases pool = {}"

lemma pool_owns_rest:
  assumes "pool_owns L0 L pool"
  shows "{r \<in> L. fst r \<notin> own_bases pool} = L0"
proof
  show "{r \<in> L. fst r \<notin> own_bases pool} \<subseteq> L0"
  proof
    fix r assume r: "r \<in> {r \<in> L. fst r \<notin> own_bases pool}"
    then have "fst r \<in> fst ` L0" using assms by (auto simp: pool_owns_def)
    then obtain r0 where r0: "r0 \<in> L0" "fst r = fst r0" by auto
    then have "r = r0" using assms r by (auto simp: pool_owns_def dest: inj_onD)
    with r0 show "r \<in> L0" by simp
  qed
qed (use assms in \<open>auto simp: pool_owns_def\<close>)

lemma pool_owns_add:
  assumes "pool_owns L0 L pool" "fresh_region L p s" "own_bases pool' = insert p (own_bases pool)"
  shows "pool_owns L0 (insert (p, s) L) pool'"
  using assms by (auto simp: pool_owns_def fresh_region_def)

lemma large_reuse_set:
  "large_reuse n p ls = Some ls' \<Longrightarrow> {q. Some q \<in> set ls'} = insert p {q. Some q \<in> set ls}"
  by (induction n p ls arbitrary: ls' rule: large_reuse.induct) (auto split: if_splits)

lemma palloc_scan_bases:
  "palloc_scan al sz bs = Some (m, bs') \<Longrightarrow> map blk_base bs' = map blk_base bs"
  by (erule palloc_scan_SomeD) simp

lemma take_scan_bases:
  assumes "palloc_scan al sz (drop k xs) = Some (m, bs)"
  shows "blk_base ` set (take k xs @ bs) = blk_base ` set xs"
proof -
  have "map blk_base (take k xs @ bs) = map blk_base xs"
    using palloc_scan_bases[OF assms] by simp
  then show ?thesis by (metis set_map)
qed

lemma ngx_palloc_block_owns:
  assumes ok: "malloc_ok A live" and owns: "pool_owns L0 (live ms) pool"
    and cur: "pool_current pool < length (pool_blocks pool)"
    and call: "ngx_palloc_block A sz (pool, ms) = (res, pool', ms')"
  shows "pool_owns L0 (live ms') pool'"
proof -
  let ?b0 = "hd (pool_blocks pool)" and ?k = "pool_current pool"
  let ?ps = "blk_end ?b0 - blk_base ?b0"
  obtain q ms1 where mal: "memalign A NGX_POOL_ALIGNMENT ?ps ms = (q, ms1)" by fastforce
  show ?thesis
  proof (cases q)
    case None
    with mal call owns malloc_ok_NULL(1)[OF ok] show ?thesis
      by (auto simp: ngx_palloc_block_def Let_def)
  next
    case (Some p)
    note m = malloc_ok_memalign[OF ok mal[unfolded Some]]
    obtain c bs where bump: "palloc_bump ?k ?k (drop ?k (pool_blocks pool)) = (c, bs)" by fastforce
    have b: "blk_base ` set (take ?k (pool_blocks pool)) \<union> blk_base ` set bs = blk_base ` set (pool_blocks pool)"
      using palloc_bump_view(1)[OF bump cur] by (metis image_Un set_append set_map)
    have "own_bases pool' = insert p (own_bases pool)" "ms' = ms1"
      using call mal Some bump b[symmetric]
      by (auto simp: ngx_palloc_block_def Let_def own_bases_def)
    then show ?thesis using pool_owns_add[OF owns m(1)] m(3) by simp
  qed
qed

lemma ngx_palloc_large_owns:
  assumes ok: "malloc_ok A live" and owns: "pool_owns L0 (live ms) pool"
    and inv: "pool_inv psz Al (live ms) pool"
    and pal: "\<And>L0 Al ms res pool' ms'. pool_inv psz Al (live ms) pool \<Longrightarrow> pool_owns L0 (live ms) pool \<Longrightarrow>
      palloc sizeof_ngx_pool_large_t (pool, ms) = Some (res, pool', ms') \<Longrightarrow>
      pool_owns L0 (live ms') pool' \<and> palloc_post live psz Al sizeof_ngx_pool_large_t (pool, ms) (res, pool', ms')"
    and call: "ngx_palloc_large palloc A sz (pool, ms) = Some (res, pool', ms')"
  shows "pool_owns L0 (live ms') pool'"
proof -
  obtain q ms1 where mal: "malloc A sz ms = (q, ms1)" by fastforce
  show ?thesis
  proof (cases q)
    case None
    with mal call owns malloc_ok_NULL(2)[OF ok] show ?thesis
      by (auto simp: ngx_palloc_large_def)
  next
    case (Some p)
    note m = malloc_ok_malloc[OF ok mal[unfolded Some]]
    show ?thesis
    proof (cases "large_reuse 0 p (pool_large pool)")
      case r: (Some ls)
      with call mal Some have "pool' = pool\<lparr>pool_large := ls\<rparr>" "ms' = ms1"
        by (auto simp: ngx_palloc_large_def)
      then show ?thesis
        using pool_owns_add[OF owns m(1), of pool'] m(2) large_reuse_set[OF r]
        by (auto simp: own_bases_def)
    next
      case r: None
      have i1: "pool_inv psz Al (live ms1) pool"
        unfolding m(2) by (rule pool_inv_extend_live[OF inv m(1)])
      have "p \<notin> fst ` live ms" using m(1) by (auto simp: fresh_region_def)
      then have o1: "pool_owns (insert (p, sz) L0) (live ms1) pool"
        using owns m(2) by (auto simp: pool_owns_def)
      obtain nd pool2 ms2 where nd: "palloc sizeof_ngx_pool_large_t (pool, ms1) = Some (nd, pool2, ms2)"
        using call mal Some r by (auto simp: ngx_palloc_large_def split: option.splits)
      note post = pal[OF i1 o1 nd]
      show ?thesis
      proof (cases nd)
        case n: None
        have "pool' = pool" "live ms' = {r \<in> insert (p, sz) (live ms). fst r \<noteq> p}"
          using call mal Some r nd n post m(2)
          by (auto simp: ngx_palloc_large_def malloc_ok_free[OF ok])
        moreover have "{r \<in> insert (p, sz) (live ms). fst r \<noteq> p} = live ms"
          using m(1) by (auto simp: fresh_region_def)
        ultimately show ?thesis using owns by simp
      next
        case n: (Some n)
        have "pool' = pool2\<lparr>pool_large := Some p # pool_large pool2\<rparr>" "ms' = ms2"
          using call mal Some r nd n by (auto simp: ngx_palloc_large_def)
        moreover have "p \<notin> fst ` L0" using owns m(1) by (auto simp: pool_owns_def fresh_region_def)
        ultimately show ?thesis using post
          by (auto simp: pool_owns_def own_bases_def)
      qed
    qed
  qed
qed

lemma ngx_palloc_gen_owns:
  assumes ok: "malloc_ok A live"
  shows "pool_inv psz Al (live ms) pool \<Longrightarrow> pool_owns L0 (live ms) pool \<Longrightarrow>
    ngx_palloc_gen al n A sz (pool, ms) = Some (res, pool', ms') \<Longrightarrow> pool_owns L0 (live ms') pool'"
proof (induction n arbitrary: al sz ms Al res pool' ms' L0)
  case 0
  then show ?case by simp
next
  case (Suc n)
  show ?case
  proof (cases "sz \<le> pool_max pool")
    case False
    with Suc.prems(3) have "ngx_palloc_large (ngx_palloc_gen True n A) A sz (pool, ms) = Some (res, pool', ms')"
      by simp
    from ngx_palloc_large_owns[OF ok Suc.prems(2,1) _ this] show ?thesis
      using Suc.IH ngx_palloc_gen_inv[OF ok] by blast
  next
    case True
    have cur: "pool_current pool < length (pool_blocks pool)" using Suc.prems(1) by (simp add: pool_inv_def)
    show ?thesis
    proof (cases "palloc_scan al sz (drop (pool_current pool) (pool_blocks pool))")
      case None
      with True Suc.prems(3) have "ngx_palloc_block A sz (pool, ms) = (res, pool', ms')" by simp
      then show ?thesis by (rule ngx_palloc_block_owns[OF ok Suc.prems(2) cur])
    next
      case (Some mb)
      then obtain m bs where mb: "palloc_scan al sz (drop (pool_current pool) (pool_blocks pool)) = Some (m, bs)"
        by (cases mb) auto
      with True Suc.prems(3) take_scan_bases[OF mb] have "own_bases pool' = own_bases pool" "ms' = ms"
        by (auto simp: own_bases_def simp flip: set_append)
      then show ?thesis using Suc.prems(2) by (simp add: pool_owns_def)
    qed
  qed
qed

section \<open>Creating, using and destroying a pool\<close>

lemma ngx_create_pool_inv:
  assumes ok: "malloc_ok A live" and c: "ngx_create_pool pg A sz ms = (Some pool, ms')"
    and L: "pairwise region_disj (live ms)" "inj_on fst (live ms)"
    and sz: "8 dvd unat sz" "80 \<le> unat sz"
  shows "pool_inv (unat sz) {} (live ms') pool" and "pool_owns (live ms) (live ms') pool"
proof -
  obtain p where mal: "memalign A NGX_POOL_ALIGNMENT sz ms = (Some p, ms')"
    and pool: "pool = \<lparr>pool_blocks = [\<lparr>blk_base = p, blk_last = p + 80, blk_end = p + sz, blk_failed = 0\<rparr>],
      pool_max = (if sz - 80 < pg - 1 then sz - 80 else pg - 1), pool_current = 0,
      pool_large = [], pool_cleanup = []\<rparr>"
    using c by (auto simp: ngx_create_pool_def Let_def sizeof_ngx_pool_t_def split: prod.splits option.splits)
  note m = malloc_ok_memalign[OF ok mal]
  have room: "unat p + unat sz < 2 ^ 64" using m(1) by (simp add: fresh_region_def)
  have u: "unat (p + 80) = unat p + 80" "unat (p + sz) = unat p + unat sz"
    using room sz(2) by (simp_all add: unat_plus_if')
  have "unat (sz - 80) = unat sz - 80" using sz(2) by (simp add: unat_sub_if')
  then have mx: "unat (pool_max pool) + 80 \<le> unat sz"
    using sz(2) by (auto simp: pool word_less_nat_alt)
  have reg: "p + sz - p = sz" by simp
  have "pairwise region_disj (live ms')" "inj_on fst (live ms')"
    using L m by (auto simp: pairwise_insert fresh_region_def region_disj_sym inj_on_def)
  then show "pool_inv (unat sz) {} (live ms') pool"
    using m mx room u sz
    by (simp add: pool_inv_def block_ok_def blk_region_def NGX_POOL_ALIGNMENT_def reg)
       (simp add: pool reg NGX_POOL_ALIGNMENT_def)
  show "pool_owns (live ms) (live ms') pool"
    using m \<open>inj_on fst (live ms')\<close>
    by (auto simp: pool_owns_def own_bases_def pool fresh_region_def)
qed

text \<open>
  A request to a pool: \<open>ngx_palloc\<close> of a size for \<open>True\<close>, \<open>ngx_pnalloc\<close> for \<open>False\<close>. \<open>pool_requests\<close> makes
  the requests of a list, one after the other.
\<close>

fun pool_requests :: "nat \<Rightarrow> 'm allocator \<Rightarrow> (bool \<times> csize) list \<Rightarrow> 'h pool \<times> 'm
    \<Rightarrow> ((addr option \<times> csize) list \<times> 'h pool \<times> 'm) option" where
  "pool_requests n A [] st = Some ([], st)"
| "pool_requests n A ((al, s) # ss) st =
     (case (if al then ngx_palloc n A s st else ngx_pnalloc n A s st) of
        None \<Rightarrow> None
      | Some (r, st') \<Rightarrow> map_option (\<lambda>(rs, st''). ((r, s) # rs, st'')) (pool_requests n A ss st'))"

definition granted :: "(addr option \<times> csize) list \<Rightarrow> (addr \<times> csize) list" where
  "granted rs = [(p, s). (Some p, s) \<leftarrow> rs]"

lemma pool_max_palloc [simp]:
  "ngx_palloc_block A sz (pool, ms) = (r, pool', ms') \<Longrightarrow> pool_max pool' = pool_max pool"
  by (auto simp: ngx_palloc_block_def Let_def split: prod.splits option.splits)

lemma ngx_palloc_gen_returns:
  assumes "16 \<le> pool_max pool"
  shows "\<exists>r pool' ms'. ngx_palloc_gen al (Suc (Suc n)) A sz (pool, ms) = Some (r, pool', ms') \<and>
    pool_max pool' = pool_max pool"
proof -
  have small: "\<exists>r pool' ms'. ngx_palloc_gen al (Suc k) A sz (pool, ms) = Some (r, pool', ms') \<and>
    pool_max pool' = pool_max pool" if "sz \<le> pool_max pool" for al k sz ms
    using that by (cases "ngx_palloc_block A sz (pool, ms)") (auto split: option.splits)
  show ?thesis
  proof (cases "sz \<le> pool_max pool")
    case True
    then show ?thesis by (rule small)
  next
    case False
    obtain q ms1 where m: "malloc A sz ms = (q, ms1)" by fastforce
    obtain r pool' ms' where "ngx_palloc_gen True (Suc n) A sizeof_ngx_pool_large_t (pool, ms1) = Some (r, pool', ms')"
      "pool_max pool' = pool_max pool"
      using small[of sizeof_ngx_pool_large_t True n ms1] assms by (auto simp: sizeof_ngx_pool_large_t_def)
    with False m show ?thesis
      by (auto simp: ngx_palloc_large_def simp del: ngx_palloc_gen.simps(2) split: option.splits)
         (subst ngx_palloc_gen.simps(2); auto simp: ngx_palloc_large_def simp del: ngx_palloc_gen.simps(2) split: option.splits)
  qed
qed

lemma live_free_large:
  "malloc_ok A live \<Longrightarrow> live (free_large A ls ms) = {r \<in> live ms. Some (fst r) \<notin> set ls}"
  by (induction A ls ms rule: free_large.induct) (auto simp: malloc_ok_free)

lemma live_fold_free:
  "malloc_ok A live \<Longrightarrow> live (fold (mfree A) ps ms) = {r \<in> live ms. fst r \<notin> set ps}"
  by (induction ps arbitrary: ms) (auto simp: malloc_ok_free)

lemma live_destroy_pool:
  assumes "malloc_ok A live" "pool_owns L0 (live ms) pool"
  shows "live (snd (ngx_destroy_pool run A pool (w, ms))) = L0"
proof -
  have "live (snd (ngx_destroy_pool run A pool (w, ms))) = {r \<in> live ms. fst r \<notin> own_bases pool}"
    by (auto simp: ngx_destroy_pool_def live_fold_free[OF assms(1)] live_free_large[OF assms(1)]
        own_bases_def)
  then show ?thesis using pool_owns_rest[OF assms(2)] by simp
qed

section \<open>An allocator that keeps the contract\<close>

text \<open>
  A concrete allocator, for the examples: its state is the list of live blocks, and a new
  block goes above all of them.
\<close>

definition bump_top :: "(addr \<times> csize) list \<Rightarrow> nat" where
  "bump_top L = foldr (\<lambda>r m. max m (Suc (unat (fst r) + unat (snd r)))) L 16"

definition bump_memalign ::
  "csize \<Rightarrow> csize \<Rightarrow> (addr \<times> csize) list \<Rightarrow> addr option \<times> (addr \<times> csize) list" where
  "bump_memalign al s L =
     (let a = unat al; p = (bump_top L + a - 1) div a * a in
      if a \<noteq> 0 \<and> p + unat s < 2 ^ 64 then (Some (of_nat p), (of_nat p, s) # L) else (None, L))"

definition bump_allocator :: "((addr \<times> csize) list) allocator" where
  "bump_allocator = \<lparr>memalign = bump_memalign, malloc = bump_memalign 16,
     mfree = (\<lambda>p. filter (\<lambda>r. fst r \<noteq> p))\<rparr>"

lemma bump_top_above: "r \<in> set L \<Longrightarrow> unat (fst r) + unat (snd r) < bump_top L"
  by (induction L) (auto simp: bump_top_def)

lemma bump_top_pos: "16 \<le> bump_top L"
  by (induction L) (auto simp: bump_top_def)

lemma align_up_ge:
  assumes "0 < (a::nat)"
  shows "t \<le> (t + a - 1) div a * a"
proof -
  have "(t + a - 1) div a * a + (t + a - 1) mod a = t + a - 1" by simp
  moreover have "(t + a - 1) mod a < a" using assms by simp
  ultimately show ?thesis using assms by linarith
qed

lemma bump_memalign_spec:
  assumes "bump_memalign al s L = (Some p, L')"
  shows "fresh_region (set L) p s" "unat al dvd unat p" "L' = (p, s) # L"
proof -
  define q where "q = (bump_top L + unat al - 1) div unat al * unat al"
  have a: "0 < unat al" "q + unat s < 2 ^ 64" and p: "p = of_nat q" and L': "L' = (p, s) # L"
    using assms by (auto simp: bump_memalign_def Let_def q_def split: if_splits)
  have u: "unat p = q" using a(2) by (simp add: p unat_of_nat)
  have "bump_top L \<le> q" unfolding q_def by (rule align_up_ge[OF a(1)])
  then have top: "unat (fst r) + unat (snd r) < q" if "r \<in> set L" for r
    using bump_top_above[OF that] by simp
  have "q \<noteq> 0" using bump_top_pos[of L] \<open>bump_top L \<le> q\<close> by simp
  then have "p \<noteq> 0" using u by auto
  then show "fresh_region (set L) p s"
    using a(2) top u by (fastforce simp: fresh_region_def region_disj_def)
  show "unat al dvd unat p" unfolding u q_def by simp
  show "L' = (p, s) # L" by (rule L')
qed

lemma bump_memalign_NULL: "bump_memalign al s L = (None, L') \<Longrightarrow> L' = L"
  by (auto simp: bump_memalign_def Let_def split: if_splits)

lemma bump_allocator_ok: "malloc_ok bump_allocator set"
  using bump_memalign_spec bump_memalign_NULL
  by (fastforce simp: malloc_ok_def bump_allocator_def)

section \<open>The live blocks do not wrap around the address space\<close>

definition live_fits :: "(addr \<times> csize) set \<Rightarrow> bool" where
  "live_fits L \<longleftrightarrow> (\<forall>r\<in>L. unat (fst r) + unat (snd r) < 2 ^ 64)"

lemma live_fits_call:
  assumes "malloc_ok A live" "live_fits (live ms)"
  shows "malloc A s ms = (q, ms') \<Longrightarrow> live_fits (live ms')"
    and "memalign A al s ms = (q, ms') \<Longrightarrow> live_fits (live ms')"
    and "live_fits (live (mfree A p ms))"
  using assms malloc_ok_malloc[OF assms(1)] malloc_ok_memalign[OF assms(1)] malloc_ok_NULL[OF assms(1)]
  by (cases q; fastforce simp: live_fits_def fresh_region_def malloc_ok_free)+

lemma ngx_palloc_gen_fits:
  assumes ok: "malloc_ok A live"
  shows "live_fits (live ms) \<Longrightarrow> ngx_palloc_gen al n A sz (pool, ms) = Some (r, pool', ms') \<Longrightarrow>
    live_fits (live ms')"
proof (induction n arbitrary: al sz ms r pool' ms')
  case (Suc n)
  note fits = live_fits_call[OF ok]
  show ?case
  proof (cases "sz \<le> pool_max pool")
    case True
    show ?thesis
    proof (cases "palloc_scan al sz (drop (pool_current pool) (pool_blocks pool))")
      case None
      then have "ngx_palloc_block A sz (pool, ms) = (r, pool', ms')" using True Suc.prems(2) by simp
      then obtain al s q where "memalign A al s ms = (q, ms')"
        by (auto simp: ngx_palloc_block_def Let_def split: option.splits prod.splits)
      then show ?thesis using Suc.prems(1) fits(2) by simp
    qed (use True Suc.prems in auto)
  next
    case False
    obtain q ms1 where m: "malloc A sz ms = (q, ms1)" by fastforce
    note f1 = fits(1)[OF Suc.prems(1) m]
    have large: "ngx_palloc_large (ngx_palloc_gen True n A) A sz (pool, ms) = Some (r, pool', ms')"
      using False Suc.prems(2) by simp
    show ?thesis
    proof (cases "ngx_palloc_gen True n A sizeof_ngx_pool_large_t (pool, ms1)")
      case None
      then show ?thesis using large m f1 by (auto simp: ngx_palloc_large_def split: option.splits)
    next
      case (Some out)
      obtain x y ms2 where out: "out = (x, y, ms2)" by (cases out)
      have f2: "live_fits (live ms2)" by (rule Suc.IH[OF f1 Some[unfolded out]])
      have "ms' = ms1 \<or> ms' = ms2 \<or> (\<exists>p. ms' = mfree A p ms2)"
        using large m Some out by (auto simp: ngx_palloc_large_def split: option.splits)
      then show ?thesis using f1 f2 fits(3)[OF f2] by auto
    qed
  qed
qed simp

lemma word_in_region:
  fixes a p s :: "64 word"
  assumes "unat p + unat s < 2 ^ 64"
  shows "a - p < s \<longleftrightarrow> unat p \<le> unat a \<and> unat a < unat p + unat s"
  using assms unat_lt_2p64[of a] unat_lt_2p64[of p]
  by (auto simp: word_less_nat_alt unat_sub_if')

lemma pool_inv_region_fits:
  assumes "pool_inv psz Al L pool" "live_fits L" "r \<in> Al"
  shows "unat (fst r) + unat (snd r) < 2 ^ 64"
proof -
  have blk: "unat (blk_last b) < 2 ^ 64" for b using unat_lt_2p64[of "blk_last b"] by simp
  consider b where "b \<in> set (pool_blocks pool)" "in_block b r" | "own_block pool L r"
    using assms(1,3) unfolding pool_inv_def by blast
  then show ?thesis
  proof cases
    case 1
    then show ?thesis using blk[of b] by (simp add: in_block_def)
  next
    case 2
    then show ?thesis using assms(2) by (simp add: own_block_def live_fits_def)
  qed
qed

lemma fuel_2: "ngx_palloc_gen al 2 = ngx_palloc_gen al (Suc (Suc 0))"
  by (simp only: numeral_2_eq_2)

lemma granted_Cons: "granted ((r, s) # rs) = (case r of None \<Rightarrow> [] | Some a \<Rightarrow> [(a, s)]) @ granted rs"
  by (cases r) (auto simp: granted_def)

lemma pool_requests_spec:
  assumes ok: "malloc_ok A live"
  shows "pool_inv psz Al (live ms) pool \<Longrightarrow> pool_owns L0 (live ms) pool \<Longrightarrow> 16 \<le> pool_max pool \<Longrightarrow>
    \<exists>rs pool' ms' Al'. pool_requests (Suc (Suc n)) A ss (pool, ms) = Some (rs, pool', ms') \<and>
      length rs = length ss \<and> pool_owns L0 (live ms') pool' \<and> (live_fits (live ms) \<longrightarrow> live_fits (live ms')) \<and> pool_max pool' = pool_max pool \<and>
      Al \<union> set (granted rs) \<subseteq> Al' \<and> pool_inv psz Al' (live ms') pool' \<and>
      (\<forall>r\<in>set (granted rs). \<forall>a\<in>Al. region_disj a r) \<and> sorted_wrt region_disj (granted rs)"
proof (induction ss arbitrary: ms Al pool)
  case Nil
  then show ?case by (auto simp: granted_def)
next
  case (Cons x ss)
  obtain al s where x: "x = (al, s)" by (cases x)
  obtain r pool1 ms1 where p: "ngx_palloc_gen al (Suc (Suc n)) A s (pool, ms) = Some (r, pool1, ms1)"
    and max: "pool_max pool1 = pool_max pool"
    using ngx_palloc_gen_returns[OF Cons.prems(3), of al n A s ms] by blast
  note o1 = ngx_palloc_gen_owns[OF ok Cons.prems(1,2) p]
  have f1: "live_fits (live ms) \<longrightarrow> live_fits (live ms1)" using ngx_palloc_gen_fits[OF ok _ p] by blast
  obtain Al1 where Al1: "Al \<subseteq> Al1" "pool_inv psz Al1 (live ms1) pool1"
    "\<And>a. r = Some a \<Longrightarrow> (a, s) \<in> Al1 \<and> (\<forall>x\<in>Al. region_disj (a, s) x)"
    using ngx_palloc_gen_inv[OF ok Cons.prems(1) p] Cons.prems(1) by (cases r) auto
  obtain rs pool' ms' Al' where rest: "pool_requests (Suc (Suc n)) A ss (pool1, ms1) = Some (rs, pool', ms')"
    "length rs = length ss" "pool_owns L0 (live ms') pool'" "live_fits (live ms1) \<longrightarrow> live_fits (live ms')" "pool_max pool' = pool_max pool1"
    "Al1 \<union> set (granted rs) \<subseteq> Al'" "pool_inv psz Al' (live ms') pool'"
    "\<forall>r\<in>set (granted rs). \<forall>a\<in>Al1. region_disj a r" "sorted_wrt region_disj (granted rs)"
    using Cons.IH[OF Al1(2) o1] Cons.prems(3) max by auto
  have "pool_requests (Suc (Suc n)) A (x # ss) (pool, ms) = Some ((r, s) # rs, pool', ms')"
    using p rest(1) by (cases al) (simp_all add: x ngx_palloc_def ngx_pnalloc_def del: ngx_palloc_gen.simps)
  moreover have "length ((r, s) # rs) = length (x # ss)" using rest(2) by simp
  moreover have "Al \<union> set (granted ((r, s) # rs)) \<subseteq> Al'" using rest(6) Al1 by (auto simp: granted_Cons split: option.splits)
  moreover have "(\<forall>r\<in>set (granted ((r, s) # rs)). \<forall>a\<in>Al. region_disj a r) \<and> sorted_wrt region_disj (granted ((r, s) # rs))"
    using rest(8,9) Al1 by (auto simp: granted_Cons region_disj_sym split: option.splits)
  moreover have "live_fits (live ms) \<longrightarrow> live_fits (live ms')" using f1 rest(4) by blast
  ultimately show ?case using rest(3,5,7) max by metis
qed

text \<open>A pool that \<open>ngx_create_pool\<close> has made, of a size for which the pool is safe to use\<close>

definition fresh_pool ::
  "'m allocator \<Rightarrow> ('m \<Rightarrow> (addr \<times> csize) set) \<Rightarrow> csize \<Rightarrow> csize \<Rightarrow> 'm \<Rightarrow> 'h pool \<Rightarrow> 'm \<Rightarrow> bool" where
  "fresh_pool A live pg sz ms pool ms1 \<longleftrightarrow>
     malloc_ok A live \<and> pairwise region_disj (live ms) \<and> inj_on fst (live ms) \<and>
     8 dvd unat sz \<and> 96 \<le> unat sz \<and> 17 \<le> unat pg \<and> ngx_create_pool pg A sz ms = (Some pool, ms1)"

lemma fresh_pool_requests:
  assumes "fresh_pool A live pg sz ms pool ms1"
  shows "\<exists>rs pool' ms' Al. pool_requests 2 A ss (pool, ms1) = Some (rs, pool', ms') \<and> length rs = length ss \<and>
    sorted_wrt region_disj (granted rs) \<and> pool_owns (live ms) (live ms') pool' \<and> (live_fits (live ms) \<longrightarrow> live_fits (live ms')) \<and>
    16 \<le> pool_max pool' \<and> set (granted rs) \<subseteq> Al \<and> pool_inv (unat sz) Al (live ms') pool'"
proof -
  have a: "malloc_ok A live" "ngx_create_pool pg A sz ms = (Some pool, ms1)" "pairwise region_disj (live ms)"
    "inj_on fst (live ms)" "8 dvd unat sz" "96 \<le> unat sz" "17 \<le> unat pg"
    using assms by (simp_all add: fresh_pool_def)
  have "80 \<le> unat sz" using a(6) by simp
  note c = ngx_create_pool_inv[OF a(1-5) this]
  have "unat (sz - 80) = unat sz - 80" "unat (pg - 1) = unat pg - 1"
    using a(6,7) by (simp_all add: unat_sub_if')
  then have max: "16 \<le> pool_max pool"
    using a(2,6,7)
    by (auto simp: ngx_create_pool_def Let_def sizeof_ngx_pool_t_def word_le_nat_alt
        split: prod.splits option.splits)
  obtain q where "memalign A NGX_POOL_ALIGNMENT sz ms = (q, ms1)"
    using a(2) by (auto simp: ngx_create_pool_def Let_def split: prod.splits option.splits)
  then have fits: "live_fits (live ms) \<longrightarrow> live_fits (live ms1)" using live_fits_call(2)[OF a(1)] by blast
  from pool_requests_spec[OF a(1) c max, of 0 ss, folded numeral_2_eq_2]
  obtain rs pool' ms' Al where r: "pool_requests 2 A ss (pool, ms1) = Some (rs, pool', ms')" "length rs = length ss"
    "pool_owns (live ms) (live ms') pool'" "live_fits (live ms1) \<longrightarrow> live_fits (live ms')" "pool_max pool' = pool_max pool"
    "set (granted rs) \<subseteq> Al" "pool_inv (unat sz) Al (live ms') pool'" "sorted_wrt region_disj (granted rs)" by auto
  have "16 \<le> pool_max pool'" using max r(5) by simp
  then show ?thesis using r fits by blast
qed

lemma sample_fresh_pool: "\<exists>pool ms1. fresh_pool bump_allocator set 4096 256 [] (pool :: unit pool) ms1"
proof -
  have "memalign bump_allocator NGX_POOL_ALIGNMENT 256 [] = (Some 16, [(16, 256)])"
    by (simp add: bump_allocator_def bump_memalign_def bump_top_def NGX_POOL_ALIGNMENT_def Let_def)
  then show ?thesis by (simp add: fresh_pool_def bump_allocator_ok ngx_create_pool_def Let_def)
qed

text \<open>\<open>nested_mallocs n A sz ms\<close>: the first \<open>n\<close> calls of malloc succeed, of \<open>sz\<close> bytes and then of 16 bytes each.\<close>

fun nested_mallocs :: "nat \<Rightarrow> 'm allocator \<Rightarrow> csize \<Rightarrow> 'm \<Rightarrow> bool" where
  "nested_mallocs 0 A sz ms = True"
| "nested_mallocs (Suc n) A sz ms =
     (case malloc A sz ms of (None, _) \<Rightarrow> False | (Some _, ms') \<Rightarrow> nested_mallocs n A sizeof_ngx_pool_large_t ms')"

lemma palloc_gen_nested:
  assumes ok: "malloc_ok A live" and pool: "pool_max pool < 16" "pool_large pool = []"
  shows "pool_max pool < sz \<Longrightarrow>
    case ngx_palloc_gen al n A sz (pool, ms) of
      None \<Rightarrow> nested_mallocs n A sz ms
    | Some (r, pool', ms') \<Rightarrow> \<not> nested_mallocs n A sz ms \<and> r = None \<and> pool' = pool \<and> live ms' = live ms"
proof (induction n arbitrary: al sz ms)
  case (Suc n)
  have large: "ngx_palloc_gen al (Suc n) A sz (pool, ms) = ngx_palloc_large (ngx_palloc_gen True n A) A sz (pool, ms)"
    using Suc.prems by (subst ngx_palloc_gen.simps, subst if_not_P) (simp_all only: not_le)
  obtain q ms1 where m: "malloc A sz ms = (q, ms1)" by fastforce
  show ?case
  proof (cases q)
    case None
    then show ?thesis using m malloc_ok_NULL[OF ok] unfolding large by (auto simp: ngx_palloc_large_def)
  next
    case (Some p)
    note mp = malloc_ok_malloc[OF ok m[unfolded Some]]
    have free: "live (mfree A p ms2) = live ms" if "live ms2 = live ms1" for ms2
      using mp that by (auto simp: malloc_ok_free[OF ok] fresh_region_def)
    have "pool_max pool < sizeof_ngx_pool_large_t" using pool by (simp add: sizeof_ngx_pool_large_t_def)
    note ih = Suc.IH[where al = True and ms = ms1, OF this]
    show ?thesis unfolding large
    proof (cases "ngx_palloc_gen True n A sizeof_ngx_pool_large_t (pool, ms1)")
      case None
      with ih m \<open>q = Some p\<close> pool(2)
      show "case ngx_palloc_large (ngx_palloc_gen True n A) A sz (pool, ms) of None \<Rightarrow> nested_mallocs (Suc n) A sz ms
        | Some (r, pool', ms') \<Rightarrow> \<not> nested_mallocs (Suc n) A sz ms \<and> r = None \<and> pool' = pool \<and> live ms' = live ms"
        by (simp add: ngx_palloc_large_def)
    next
      case (Some out)
      with ih m \<open>q = Some p\<close> pool(2) free
      show "case ngx_palloc_large (ngx_palloc_gen True n A) A sz (pool, ms) of None \<Rightarrow> nested_mallocs (Suc n) A sz ms
        | Some (r, pool', ms') \<Rightarrow> \<not> nested_mallocs (Suc n) A sz ms \<and> r = None \<and> pool' = pool \<and> live ms' = live ms"
        by (cases out) (simp add: ngx_palloc_large_def)
    qed
  qed
qed simp

section \<open>Properties\<close>

text \<open>
  (C19) A pool of \<open>ngx_create_pool\<close> whose size is a multiple of 8 and at least 96 bytes, on a
  machine with pages of at least 17 bytes, hands out regions that never overlap, whatever
  sequence of \<open>ngx_palloc\<close> and \<open>ngx_pnalloc\<close> requests is made and whichever calls of the system
  allocator fail; every request returns; and \<open>ngx_destroy_pool\<close> gives back to the system exactly
  what the pool took from it.
\<close>

theorem pool_lifecycle:
  assumes "fresh_pool A live pg sz ms pool ms1"
  shows "\<exists>rs pool' ms'. pool_requests 2 A ss (pool, ms1) = Some (rs, pool', ms') \<and>
    length rs = length ss \<and> sorted_wrt region_disj (granted rs) \<and>
    live (snd (ngx_destroy_pool run A pool' (w, ms'))) = live ms"
proof -
  have ok: "malloc_ok A live" using assms by (simp add: fresh_pool_def)
  obtain rs pool' ms' where r: "pool_requests 2 A ss (pool, ms1) = Some (rs, pool', ms')"
    "length rs = length ss" "pool_owns (live ms) (live ms') pool'" "sorted_wrt region_disj (granted rs)"
    using fresh_pool_requests[OF assms, of ss] by blast
  show ?thesis
    by (intro exI conjI) (rule r(1), rule r(2), rule r(4), rule live_destroy_pool[OF ok r(3)])
qed

theorem pool_lifecycle_witness:
  "\<exists>pool ms1 rs pool' ms'. ngx_create_pool 4096 bump_allocator 256 [] = (Some pool, ms1) \<and>
     pool_requests 2 bump_allocator [(True, 24), (False, 100), (True, 300)] (pool, ms1) = Some (rs, pool', ms') \<and>
     length rs = 3 \<and> sorted_wrt region_disj (granted rs) \<and>
     set (snd (ngx_destroy_pool (\<lambda>(h::unit) d. Cons d) bump_allocator pool' ([], ms'))) = {}"
proof -
  obtain pool :: "unit pool" and ms1 where f: "fresh_pool bump_allocator set 4096 256 [] pool ms1"
    using sample_fresh_pool by blast
  from pool_lifecycle[OF f, of "[(True, 24), (False, 100), (True, 300)]" "\<lambda>h d. Cons d" "[]"]
  show ?thesis using f by (auto simp: fresh_pool_def)
qed

text \<open>
  (C20) \<open>ngx_pcalloc\<close> on a pool as in the previous property, after any sequence of \<open>ngx_palloc\<close>
  and \<open>ngx_pnalloc\<close> requests, returns. When it returns a region, every byte of the region is
  cleared, and no byte of a region that the pool has handed out before is changed; when it
  returns NULL, the memory is unchanged.
\<close>

theorem ngx_pcalloc_clears_only_its_region:
  assumes "fresh_pool A live pg sz ms pool ms1" "live_fits (live ms)" "pool_requests 2 A ss (pool, ms1) = Some (rs, pool2, ms2)"
  shows "\<exists>r mem' st. ngx_pcalloc 2 A n mem (pool2, ms2) = Some (r, mem', st) \<and>
    (case r of
       None \<Rightarrow> mem' = mem
     | Some p \<Rightarrow> (\<forall>a. a - p < n \<longrightarrow> mem' a = 0) \<and>
         (\<forall>q\<in>set (granted rs). \<forall>a. a - fst q < snd q \<longrightarrow> mem' a = mem a))"
proof -
  have ok: "malloc_ok A live" using assms by (simp add: fresh_pool_def)
  obtain Al where inv: "live_fits (live ms2)" "16 \<le> pool_max pool2" "set (granted rs) \<subseteq> Al"
    "pool_inv (unat sz) Al (live ms2) pool2"
    using fresh_pool_requests[OF assms(1), of ss] assms(2,3) by auto
  obtain r pool' ms' where call: "ngx_palloc_gen True 2 A n (pool2, ms2) = Some (r, pool', ms')"
    using ngx_palloc_gen_returns[OF inv(2), of True 0 A n ms2] unfolding numeral_2_eq_2[symmetric] by blast
  show ?thesis
  proof (cases r)
    case None
    then show ?thesis using call by (simp add: ngx_pcalloc_def ngx_palloc_def)
  next
    case (Some p)
    note call = call[unfolded Some]
    from ngx_palloc_gen_inv[OF ok inv(4) call] obtain Al'
      where disj: "\<forall>r\<in>Al. region_disj (p, n) r"
        and Al': "insert (p, n) Al \<subseteq> Al'" "pool_inv (unat sz) Al' (live ms') pool'" by auto
    note fits = pool_inv_region_fits[OF Al'(2) ngx_palloc_gen_fits[OF ok inv(1) call]]
    have "ngx_memzero p n mem a = mem a" if q: "q \<in> set (granted rs)" "a - fst q < snd q" for q a
    proof -
      have "q \<in> Al" using q(1) inv(3) by blast
      then show ?thesis using q(2) bspec[OF disj, of q] fits[of q] fits[of "(p, n)"] Al'(1)
        by (auto simp: ngx_memzero_def word_in_region region_disj_def)
    qed
    then show ?thesis using call by (auto simp: ngx_pcalloc_def ngx_palloc_def ngx_memzero_def)
  qed
qed

theorem ngx_pcalloc_clears_only_its_region_witness:
  "\<exists>pool ms1 rs pool2 ms2 r mem' st. ngx_create_pool 4096 bump_allocator 256 [] = (Some (pool :: unit pool), ms1) \<and>
     pool_requests 2 bump_allocator [(True, 24)] (pool, ms1) = Some (rs, pool2, ms2) \<and>
     ngx_pcalloc 2 bump_allocator 8 (\<lambda>_. 7) (pool2, ms2) = Some (r, mem', st) \<and>
     (case r of
        None \<Rightarrow> mem' = (\<lambda>_. 7)
      | Some p \<Rightarrow> (\<forall>a. a - p < 8 \<longrightarrow> mem' a = 0) \<and>
          (\<forall>q\<in>set (granted rs). \<forall>a. a - fst q < snd q \<longrightarrow> mem' a = 7))"
proof -
  obtain pool :: "unit pool" and ms1 where f: "fresh_pool bump_allocator set 4096 256 [] pool ms1"
    using sample_fresh_pool by blast
  obtain rs pool2 ms2 where r: "pool_requests 2 bump_allocator [(True, 24)] (pool, ms1) = Some (rs, pool2, ms2)"
    using fresh_pool_requests[OF f] by blast
  have "live_fits (set [])" by (simp add: live_fits_def)
  from ngx_pcalloc_clears_only_its_region[OF f this r, of 8 "\<lambda>_. 7"] r f show ?thesis unfolding fresh_pool_def by blast
qed

text \<open>
  (C21) In a pool of fewer than 96 bytes, whose \<open>max\<close> is below the 16 bytes of a
  large-allocation node, a request of more than \<open>max\<close> bytes never succeeds: \<open>ngx_palloc_large\<close>
  asks the pool for the node, which is again a large request. The recursion goes one call
  deeper for every malloc that succeeds; when one fails it unwinds, gives back what it took
  and returns NULL.
\<close>

theorem small_pool_large_request:
  assumes "malloc_ok A live" "ngx_create_pool pg A psz ms0 = (Some pool, ms)"
    and "80 \<le> unat psz" "unat psz < 96" "pool_max pool < sz"
  shows "case ngx_palloc n A sz (pool, ms) of
      None \<Rightarrow> nested_mallocs n A sz ms
    | Some (r, pool', ms') \<Rightarrow> \<not> nested_mallocs n A sz ms \<and> r = None \<and> pool' = pool \<and> live ms' = live ms"
proof -
  have "unat (psz - 80) = unat psz - 80" using assms(3) by (simp add: unat_sub_if')
  then have "pool_max pool < 16" "pool_large pool = []"
    using assms(2-4)
    by (auto simp: ngx_create_pool_def Let_def sizeof_ngx_pool_t_def word_less_nat_alt
        split: prod.splits option.splits if_splits)
  from palloc_gen_nested[OF assms(1) this assms(5)] show ?thesis unfolding ngx_palloc_def .
qed

theorem small_pool_large_request_witness:
  "\<exists>pool ms. ngx_create_pool 4096 bump_allocator 88 [] = (Some (pool :: unit pool), ms) \<and>
     ngx_palloc 3 bump_allocator 24 (pool, ms) = None \<and> nested_mallocs 3 bump_allocator 24 ms \<and>
     (\<exists>pool' ms'. ngx_palloc 3 bump_allocator (- 64) (pool, ms) = Some (None, pool', ms') \<and> pool' = pool \<and> set ms' = set ms)"
proof -
  obtain pool :: "unit pool" and ms where c: "ngx_create_pool 4096 bump_allocator 88 [] = (Some pool, ms)"
    and p: "pool_max pool = 8" "ms = [(16, 88)]"
    by (simp add: ngx_create_pool_def bump_allocator_def bump_memalign_def bump_top_def NGX_POOL_ALIGNMENT_def
        sizeof_ngx_pool_t_def Let_def)
  note t = small_pool_large_request[OF bump_allocator_ok c, of _ 3]
  have n: "nested_mallocs 3 bump_allocator 24 ms" "\<not> nested_mallocs 3 bump_allocator (- 64) ms"
    by (simp_all add: p numeral_3_eq_3 bump_allocator_def bump_memalign_def bump_top_def sizeof_ngx_pool_large_t_def Let_def)
  show ?thesis using t[of 24] t[of "- 64"] c n p by (auto split: option.splits)
qed

text \<open>
  (C22) In a pool whose size is not a multiple of 8, a request for all the room of the pool
  followed by a request of 8 bytes makes the aligned bump pointer pass the end of the block.
  The room left, \<open>end - m\<close>, is then a huge unsigned number and the pool returns an address
  beyond the end of its only block, without taking any more memory from the system.
\<close>

theorem unaligned_pool_overruns:
  assumes "malloc_ok A live" "ngx_create_pool pg A sz ms = (Some pool, ms1)"
    and "88 \<le> unat sz" "\<not> 8 dvd unat sz" "sz - 80 < pg" "unat (blk_end (hd (pool_blocks pool))) + 8 \<le> 2 ^ 64"
  shows "\<exists>p q pool'. pool_requests 2 A [(True, sz - 80), (True, 8)] (pool, ms1) =
      Some ([(Some p, sz - 80), (Some q, 8)], pool', ms1) \<and>
    live ms1 = insert (blk_base (hd (pool_blocks pool)), sz) (live ms) \<and>
    unat (blk_base (hd (pool_blocks pool))) + unat sz < unat q"
proof -
  obtain b where mal: "memalign A NGX_POOL_ALIGNMENT sz ms = (Some b, ms1)" and
    pool: "pool = \<lparr>pool_blocks = [\<lparr>blk_base = b, blk_last = b + 80, blk_end = b + sz, blk_failed = 0\<rparr>],
      pool_max = (if sz - 80 < pg - 1 then sz - 80 else pg - 1), pool_current = 0, pool_large = [], pool_cleanup = []\<rparr>"
    using assms(2) by (auto simp: ngx_create_pool_def Let_def sizeof_ngx_pool_t_def split: prod.splits option.splits)
  note m = malloc_ok_memalign[OF assms(1) mal]
  have room: "unat b + unat sz < 2 ^ 64" using m(1) by (simp add: fresh_region_def)
  have u: "unat (b + 80) = unat b + 80" "unat (b + sz) = unat b + unat sz" "unat (sz - 80) = unat sz - 80"
    using room assms(3) by (simp_all add: unat_plus_if' unat_sub_if')
  have "16 dvd unat b" using m(2) by (simp add: NGX_POOL_ALIGNMENT_def)
  then have b8: "8 dvd unat b" by presburger
  have max: "pool_max pool = sz - 80"
    using assms(5) by (auto simp: pool word_less_nat_alt unat_sub_if' word_unat_eq_iff split: if_splits)
  have m1: "ngx_align_ptr (b + 80) NGX_ALIGNMENT = b + 80"
    using b8 room assms(3) u by (subst word_unat_eq_iff) (auto simp: ngx_align_ptr_8 elim!: dvdE)
  define q where "q = ngx_align_ptr (b + sz) NGX_ALIGNMENT"
  have uq: "unat q = (unat b + unat sz + 7) div 8 * 8"
    unfolding q_def using assms(6) u(2) by (subst ngx_align_ptr_8) (simp_all add: pool)
  have "\<not> 8 dvd unat b + unat sz" using b8 assms(4) by (simp add: dvd_add_right_iff)
  then have gt: "unat b + unat sz < unat q" "unat q < unat b + unat sz + 8" unfolding uq by presburger+
  have "unat (b + sz - q) = 2 ^ 64 + unat b + unat sz - unat q"
    using gt u(2) unat_lt_2p64[of q] by (simp add: unat_sub_if')
  then have left: "8 \<le> b + sz - q" using gt by (simp add: word_le_nat_alt)
  have "8 \<le> sz - 80" using u(3) assms(3) by (simp add: word_le_nat_alt)
  then show ?thesis
    using m max m1 left gt
    by (auto simp: pool ngx_palloc_def fuel_2 q_def[symmetric])
qed

theorem unaligned_pool_overruns_witness:
  "\<exists>pool ms1 p q pool'. ngx_create_pool 4096 bump_allocator 100 [] = (Some (pool :: unit pool), ms1) \<and>
     pool_requests 2 bump_allocator [(True, 20), (True, 8)] (pool, ms1) = Some ([(Some p, 20), (Some q, 8)], pool', ms1) \<and>
     set ms1 = {(16, 100)} \<and> 116 < unat q"
proof -
  have "\<exists>pool ms1. ngx_create_pool 4096 bump_allocator 100 [] = (Some (pool :: unit pool), ms1) \<and>
    blk_base (hd (pool_blocks pool)) = 16 \<and> blk_end (hd (pool_blocks pool)) = 116"
    by (simp add: ngx_create_pool_def bump_allocator_def bump_memalign_def bump_top_def NGX_POOL_ALIGNMENT_def Let_def)
  then obtain pool :: "unit pool" and ms1 where c: "ngx_create_pool 4096 bump_allocator 100 [] = (Some pool, ms1)"
    and b: "blk_base (hd (pool_blocks pool)) = 16" "blk_end (hd (pool_blocks pool)) = 116" by blast
  from unaligned_pool_overruns[OF bump_allocator_ok c] c b show ?thesis by auto
qed

end
