(* ===== verification/Ngx_World.thy ===== *)
theory Ngx_World
  imports Ngx_Palloc
begin

text \<open>
  The state of the process: connection slots and their events
  (\<open>ngx_connection.h\<close>, \<open>ngx_event.h\<close>), the timer queue, sessions, callbacks and interval
  records (\<open>ngxe_connection.h\<close>, \<open>ngxe_xs.h\<close>, \<open>ngxe_timer.h\<close>), the Perl values they refer
  to, the live pools and the state of the kernel. A pointer to a slot of
  \<open>cycle->connections\<close> is its index; a pointer into a pool is its address. The code that is
  not part of the sources (kernel, C allocator, Perl interpreter, Perl callbacks) is a
  record of functions, \<open>env\<close>, that the operations take as an argument; \<open>os_ok\<close> and \<open>perl_ok\<close>
  say what their documentation promises.
\<close>

section \<open>Results\<close>

datatype fault =
    Null_deref
  | Wrong_type          \<comment> \<open>\<open>c->data\<close> is used as something else than it points to\<close>
  | Timer_not_set       \<comment> \<open>a node that is not in the tree is deleted from the tree\<close>
  | Bad_pool            \<comment> \<open>a pool is destroyed that is not alive\<close>
  | Buffer_overrun      \<comment> \<open>bytes are read or written outside a string buffer\<close>
  | Bad_handle          \<comment> \<open>Perl code passes a pointer that is not a connection it was given\<close>
  | Out_of_fuel         \<comment> \<open>a loop has not ended within the iterations allowed\<close>

type_synonym 'a res = "fault + 'a"

definition rbind :: "'a res \<Rightarrow> ('a \<Rightarrow> 'b res) \<Rightarrow> 'b res" where
  "rbind r f = (case r of Inl e \<Rightarrow> Inl e | Inr x \<Rightarrow> f x)"

definition post :: "('a \<Rightarrow> bool) \<Rightarrow> 'a res \<Rightarrow> bool" where
  "post P r = (case r of Inl e \<Rightarrow> True | Inr x \<Rightarrow> P x)"

named_theorems wp \<open>rules that reduce a postcondition of an operation\<close>

lemma rbind_simps [simp]:
  "rbind (Inl e) f = Inl e" "rbind (Inr x) f = f x"
  by (simp_all add: rbind_def)

lemma rbind_InrE:
  assumes "rbind r f = Inr y"
  obtains x where "r = Inr x" "f x = Inr y"
  using assms by (cases r) auto

lemma post_simps [simp]:
  "post P (Inl e)" "post P (Inr x) = P x"
  by (simp_all add: post_def)

lemma post_rbind [wp]: "post (\<lambda>x. post P (f x)) r \<Longrightarrow> post P (rbind r f)"
  by (cases r) auto

lemma post_mono: "post P r \<Longrightarrow> (\<And>x. P x \<Longrightarrow> Q x) \<Longrightarrow> post Q r"
  by (cases r) auto

lemma postD: "post P r \<Longrightarrow> r = Inr x \<Longrightarrow> P x"
  by simp

lemma post_if [wp]: "(b \<Longrightarrow> post P r) \<Longrightarrow> (\<not> b \<Longrightarrow> post P s) \<Longrightarrow> post P (if b then r else s)"
  by simp

section \<open>Constants of the platform\<close>

definition NGX_EINTR :: nat where "NGX_EINTR = 4"
definition NGX_EAGAIN :: nat where "NGX_EAGAIN = 11"
definition NGX_ECONNABORTED :: nat where "NGX_ECONNABORTED = 103"
definition NGX_ECONNRESET :: nat where "NGX_ECONNRESET = 104"
definition NGX_EINPROGRESS :: nat where "NGX_EINPROGRESS = 115"

type_synonym epoll_mask = "32 word"

definition EPOLLIN :: epoll_mask where "EPOLLIN = 1"
definition EPOLLOUT :: epoll_mask where "EPOLLOUT = 4"
definition EPOLLERR :: epoll_mask where "EPOLLERR = 8"
definition EPOLLHUP :: epoll_mask where "EPOLLHUP = 16"
definition EPOLLET :: epoll_mask where "EPOLLET = 2147483648"

datatype epoll_op = EPOLL_CTL_ADD | EPOLL_CTL_MOD | EPOLL_CTL_DEL

text \<open>A C \<open>int\<close> after an assignment: 32 bits, two's complement.\<close>

definition c_int :: "int \<Rightarrow> int" where
  "c_int x = sint (word_of_int x :: 32 word)"

lemma c_int_id: "- (2 ^ 31) \<le> x \<Longrightarrow> x < 2 ^ 31 \<Longrightarrow> c_int x = x"
  by (simp add: c_int_def int_word_sint)

section \<open>Connection slots and events\<close>

type_synonym slot = nat
type_synonym svid = nat

datatype handler =
    No_handler
  | Ngxe_dummy_handler
  | Ngxe_reader_handler
  | Ngxe_writer_handler
  | Ngxe_client_init_handler
  | Ngxe_interval_callback
  | Ngxe_timeout_callback
  | Ngx_event_accept

record event =
  ev_handler :: handler
  ev_write :: bool
  ev_accept :: bool
  ev_instance :: bool
  ev_active :: bool
  ev_ready :: bool
  ev_eof :: bool
  ev_error :: bool
  ev_timedout :: bool
  ev_timer_set :: bool
  ev_timer_key :: msec
  ev_deferred_accept :: bool
  ev_available :: bool
  ev_closed :: bool
  ev_posted :: bool       \<comment> \<open>\<open>ev->prev != NULL\<close>: the event is in a posted queue\<close>

definition zero_event :: event where
  "zero_event = \<lparr>ev_handler = No_handler, ev_write = False, ev_accept = False, ev_instance = False,
     ev_active = False, ev_ready = False, ev_eof = False, ev_error = False, ev_timedout = False,
     ev_timer_set = False, ev_timer_key = 0, ev_deferred_accept = False, ev_available = False,
     ev_closed = False, ev_posted = False\<rparr>"

text \<open>What \<open>c->data\<close> points to.\<close>

datatype cdata =
    Data_null
  | Data_next slot        \<comment> \<open>in a free slot: the next free one\<close>
  | Data_session addr
  | Data_interval addr
  | Data_callback addr    \<comment> \<open>in a listening slot\<close>

datatype log_error = NGX_ERROR_ALERT | NGX_ERROR_ERR | NGX_ERROR_INFO
  | NGX_ERROR_IGNORE_ECONNRESET | NGX_ERROR_IGNORE_EINVAL

record connection =
  c_data :: cdata
  c_read :: event
  c_write :: event
  c_fd :: int
  c_listening :: "addr option"
  c_sent :: int
  c_pool :: "addr option"
  c_addr_text :: string
  c_log_error :: log_error
  c_timedout :: bool
  c_destroyed :: bool

datatype evref = Read_ev slot | Write_ev slot

fun ev_conn :: "evref \<Rightarrow> slot" where
  "ev_conn (Read_ev c) = c"
| "ev_conn (Write_ev c) = c"

section \<open>Records of the engine\<close>

record session =
  reader_callback :: "addr option"
  reader_buffer :: "svid option"
  reader_timeout :: int
  reader_flags :: int
  writer_callback :: "addr option"
  writer_buffer :: "svid option"
  writer_timeout :: int
  writer_offset :: int
  writer_index :: int

definition zero_session :: session where
  "zero_session = \<lparr>reader_callback = None, reader_buffer = None, reader_timeout = 0,
     reader_flags = 0, writer_callback = None, writer_buffer = None, writer_timeout = 0,
     writer_offset = 0, writer_index = 0\<rparr>"

text \<open>
  \<open>cb_pool\<close> and \<open>cb_freed\<close> are not fields of the C structure: they record the pool that the
  structure was allocated from and whether that pool has been destroyed since.
\<close>

record callback =
  cb_handler :: "svid option"
  cb_args :: "svid list"
  cb_args_n :: nat
  cb_decremented :: bool
  cb_native :: "nat option"
  cb_pool :: addr
  cb_freed :: bool

definition zero_callback :: "addr \<Rightarrow> callback" where
  "zero_callback p = \<lparr>cb_handler = None, cb_args = [], cb_args_n = 0, cb_decremented = False,
     cb_native = None, cb_pool = p, cb_freed = False\<rparr>"

record interval =
  iv_msec :: int
  iv_callback :: "addr option"
  iv_connection :: "slot option"

definition zero_interval :: interval where
  "zero_interval = \<lparr>iv_msec = 0, iv_callback = None, iv_connection = None\<rparr>"

record listening =
  ls_fd :: int
  ls_addr :: "32 word"
  ls_port :: "16 word"
  ls_addr_text :: string
  ls_pool_size :: csize
  ls_addr_ntop :: bool
  ls_addr_text_max_len :: nat
  ls_ignore :: bool
  ls_inherited :: bool
  ls_listen :: bool
  ls_backlog :: int
  ls_connection :: "slot option"
  ls_deferred_accept :: bool
  ls_previous :: "slot option"   \<comment> \<open>\<open>ls->previous->connection\<close>\<close>

datatype cleanup = Ngxe_callback_cleanup | Ngxe_buf_cleanup

section \<open>Perl values\<close>

text \<open>
  The fields of a scalar or array that the macros \<open>SvCUR\<close>, \<open>SvLEN\<close>, \<open>SvPVX\<close>, \<open>SvRV\<close>,
  \<open>SvIV\<close>, \<open>SvREFCNT_inc\<close>, the \<open>OK\<close> flags and \<open>av_len\<close> / \<open>av_fetch\<close> read and write.
  \<open>sv_pvx\<close> is the buffer that \<open>SvPVX\<close> points to; its length is \<open>SvLEN\<close>.
\<close>

datatype svtype = SVt_IV | SVt_PV | SVt_PVAV | SVt_other

record sv =
  sv_type :: svtype
  sv_refcnt :: int
  sv_iok :: bool
  sv_pok :: bool
  sv_rok :: bool
  sv_ook :: bool
  sv_iv :: int
  sv_pvx :: "byte list"
  sv_cur :: nat
  sv_rv :: svid
  sv_av :: "svid list"

definition sv_len :: "sv \<Rightarrow> nat" where
  "sv_len s = length (sv_pvx s)"

definition sv_string :: "sv \<Rightarrow> byte list" where
  "sv_string s = take (sv_cur s) (sv_pvx s)"

definition sv_ok :: "sv \<Rightarrow> bool" where
  "sv_ok s \<longleftrightarrow> sv_iok s \<or> sv_pok s \<or> sv_rok s"

section \<open>The world\<close>

record ('k, 'm) world =
  conns :: "slot \<Rightarrow> connection"
  connection_n :: nat
  free_connections :: "slot option"
  free_connection_n :: int
  timers :: "(evref \<times> msec) list"
  current_msec :: msec
  sessions :: "addr \<Rightarrow> session"
  callbacks :: "addr \<Rightarrow> callback"
  intervals :: "addr \<Rightarrow> interval"
  listenings :: "addr \<Rightarrow> listening"
  svs :: "svid \<Rightarrow> sv"
  sv_next :: svid                     \<comment> \<open>the next identifier for a new Perl value\<close>
  tmps :: "svid list"                 \<comment> \<open>mortal values, released by \<open>FREETMPS\<close>\<close>
  pools :: "addr \<Rightarrow> cleanup pool option"
  mst :: 'm
  kernel :: 'k
  posted_events :: "evref list"
  posted_accept_events :: "evref list"
  received :: "(slot \<times> byte list) list"  \<comment> \<open>history of the bytes \<open>recv\<close> delivered\<close>
  transmitted :: "(slot \<times> byte list) list" \<comment> \<open>history of the bytes \<open>send\<close> accepted\<close>
  stale_reads :: "addr list"          \<comment> \<open>callbacks read after their pool was destroyed\<close>

section \<open>The environment\<close>

record ('k, 'm) env =
  os_recv :: "int \<Rightarrow> nat \<Rightarrow> 'k \<Rightarrow> (nat + byte list) \<times> 'k"  \<comment> \<open>\<open>Inl errno\<close>, or the bytes\<close>
  os_send :: "int \<Rightarrow> byte list \<Rightarrow> 'k \<Rightarrow> (nat + nat) \<times> 'k" \<comment> \<open>\<open>Inl errno\<close>, or the count\<close>
  os_epoll_ctl :: "epoll_op \<Rightarrow> int \<Rightarrow> epoll_mask \<Rightarrow> slot \<times> bool \<Rightarrow> 'k \<Rightarrow> nat option \<times> 'k"
  os_epoll_wait :: "int \<Rightarrow> 'k \<Rightarrow> (nat + (epoll_mask \<times> slot \<times> bool) list) \<times> msec \<times> 'k"
  os_socket :: "'k \<Rightarrow> int \<times> 'k"
  os_setsockopt :: "int \<Rightarrow> 'k \<Rightarrow> bool \<times> 'k"
  os_nonblocking :: "int \<Rightarrow> 'k \<Rightarrow> bool \<times> 'k"
  os_bind :: "int \<Rightarrow> 32 word \<Rightarrow> 16 word \<Rightarrow> 'k \<Rightarrow> bool \<times> 'k"
  os_listen :: "int \<Rightarrow> int \<Rightarrow> 'k \<Rightarrow> bool \<times> 'k"
  os_connect :: "int \<Rightarrow> 32 word \<Rightarrow> 16 word \<Rightarrow> 'k \<Rightarrow> nat option \<times> 'k" \<comment> \<open>errno on failure\<close>
  os_accept :: "int \<Rightarrow> 'k \<Rightarrow> (nat + int \<times> 32 word \<times> 16 word) \<times> 'k"
  os_close :: "int \<Rightarrow> 'k \<Rightarrow> bool \<times> 'k"
  alloc :: "'m allocator"
  pagesize :: csize
  p_sv_setiv :: "int \<Rightarrow> sv \<Rightarrow> sv"
  p_sv_setpv :: "byte list \<Rightarrow> sv \<Rightarrow> sv"
  p_sv_grow :: "nat \<Rightarrow> sv \<Rightarrow> sv"
  p_sv_chop :: "nat \<Rightarrow> sv \<Rightarrow> sv"
  p_sv_backoff :: "sv \<Rightarrow> sv"
  p_sv_setsv :: "svid \<Rightarrow> svid \<Rightarrow> (svid \<Rightarrow> sv) \<Rightarrow> (svid \<Rightarrow> sv)"  \<comment> \<open>target, source\<close>
  p_SvIV :: "sv \<Rightarrow> int"
  p_undef :: svid         \<comment> \<open>\<open>PL_sv_undef\<close>\<close>
  p_newSV :: "nat \<Rightarrow> sv"
  p_newSVsv :: "sv \<Rightarrow> sv"
  p_newSViv :: "int \<Rightarrow> sv"
  p_call_sv :: "svid \<Rightarrow> svid list \<Rightarrow> ('k, 'm) world \<Rightarrow> ('k, 'm) world res"
  native_call :: "nat \<Rightarrow> slot \<Rightarrow> ('k, 'm) world \<Rightarrow> ('k, 'm) world res"
  ngxe_pagesize :: nat
  multi_accept :: bool    \<comment> \<open>\<open>ecf->multi_accept\<close>\<close>
  loop_fuel :: nat        \<comment> \<open>iterations allowed to each loop whose length depends on the input\<close>

end
