(* ===== verification/Ngx_Event_Timer.thy ===== *)
theory Ngx_Event_Timer
  imports Ngx_World
begin

text \<open>
  Timers, \<open>src/nginx/src/event/ngx_event_timer.[ch]\<close>. The red-black tree
  \<open>ngx_event_timer_rbtree\<close> is seen through its in-order sequence of (event, key) pairs; keys
  are compared by the sign of their 64-bit difference, so that the order survives the
  wrap-around of the millisecond clock.
\<close>

section \<open>Access to slots and events\<close>

definition upd_conn :: "slot \<Rightarrow> (connection \<Rightarrow> connection) \<Rightarrow> ('k, 'm) world \<Rightarrow> ('k, 'm) world" where
  "upd_conn c f w = w\<lparr>conns := (conns w)(c := f (conns w c))\<rparr>"

fun get_ev :: "evref \<Rightarrow> ('k, 'm) world \<Rightarrow> event" where
  "get_ev (Read_ev c) w = c_read (conns w c)"
| "get_ev (Write_ev c) w = c_write (conns w c)"

fun upd_ev :: "evref \<Rightarrow> (event \<Rightarrow> event) \<Rightarrow> ('k, 'm) world \<Rightarrow> ('k, 'm) world" where
  "upd_ev (Read_ev c) f w = upd_conn c (\<lambda>x. x\<lparr>c_read := f (c_read x)\<rparr>) w"
| "upd_ev (Write_ev c) f w = upd_conn c (\<lambda>x. x\<lparr>c_write := f (c_write x)\<rparr>) w"

section \<open>The queue\<close>

text \<open>\<open>(ngx_msec_int_t) a - (ngx_msec_int_t) b < 0\<close>\<close>

definition key_less :: "msec \<Rightarrow> msec \<Rightarrow> bool" where
  "key_less a b \<longleftrightarrow> sint (a - b) < 0"

fun timer_insert :: "evref \<Rightarrow> msec \<Rightarrow> (evref \<times> msec) list \<Rightarrow> (evref \<times> msec) list" where
  "timer_insert e k [] = [(e, k)]"
| "timer_insert e k ((f, l) # ts) =
     (if key_less k l then (e, k) # (f, l) # ts else (f, l) # timer_insert e k ts)"

lemma set_timer_insert [simp]: "set (timer_insert e k ts) = insert (e, k) (set ts)"
  by (induction ts rule: timer_insert.induct) auto

definition timer_delete :: "evref \<Rightarrow> (evref \<times> msec) list \<Rightarrow> (evref \<times> msec) list" where
  "timer_delete e ts = filter (\<lambda>t. fst t \<noteq> e) ts"

section \<open>Operations\<close>

text \<open>\<open>ngx_rbtree_delete\<close> also clears the key of the node it takes out.\<close>

definition ngx_event_del_timer :: "evref \<Rightarrow> ('k, 'm) world \<Rightarrow> ('k, 'm) world res" where
  "ngx_event_del_timer e w =
     (if e \<in> fst ` set (timers w) then
        Inr (upd_ev e (\<lambda>x. x\<lparr>ev_timer_key := 0, ev_timer_set := False\<rparr>) (w\<lparr>timers := timer_delete e (timers w)\<rparr>))
      else Inl Timer_not_set)"

definition NGX_TIMER_LAZY_DELAY :: int where "NGX_TIMER_LAZY_DELAY = 300"

definition ngx_abs :: "msec \<Rightarrow> msec" where
  "ngx_abs d = (if 0 \<le> sint d then d else - d)"

definition ngx_event_add_timer :: "evref \<Rightarrow> msec \<Rightarrow> ('k, 'm) world \<Rightarrow> ('k, 'm) world res" where
  "ngx_event_add_timer e timer w =
     (let key = current_msec w + timer;
          add = (\<lambda>w. Inr (upd_ev e (\<lambda>x. x\<lparr>ev_timer_key := key, ev_timer_set := True\<rparr>)
                   (w\<lparr>timers := timer_insert e key (timers w)\<rparr>)))
      in if ev_timer_set (get_ev e w) then
           (if sint (ngx_abs (key - ev_timer_key (get_ev e w))) < NGX_TIMER_LAZY_DELAY then Inr w
            else rbind (ngx_event_del_timer e w) add)
         else add w)"

definition NGX_TIMER_INFINITE :: msec where "NGX_TIMER_INFINITE = - 1"

definition ngx_event_find_timer :: "('k, 'm) world \<Rightarrow> msec" where
  "ngx_event_find_timer w =
     (case timers w of
        [] \<Rightarrow> NGX_TIMER_INFINITE
      | (e, k) # ts \<Rightarrow>
          (let timer = sint (k - current_msec w) in if 0 < timer then word_of_int timer else 0))"

definition expire_first :: "evref \<Rightarrow> ('k, 'm) world \<Rightarrow> ('k, 'm) world" where
  "expire_first e w =
     upd_ev e (\<lambda>x. x\<lparr>ev_timer_key := 0, ev_timer_set := False, ev_timedout := True\<rparr>)
       (w\<lparr>timers := timer_delete e (timers w)\<rparr>)"

text \<open>
  The loop of \<open>ngx_event_expire_timers\<close>: as long as the least timer has expired, it is taken
  out and the handler of its event runs. \<open>run\<close> is the call \<open>ev->handler(ev)\<close>.
\<close>

fun expire_loop ::
  "nat \<Rightarrow> (evref \<Rightarrow> ('k, 'm) world \<Rightarrow> ('k, 'm) world res) \<Rightarrow> ('k, 'm) world \<Rightarrow> ('k, 'm) world res" where
  "expire_loop n run w =
     (case timers w of
        [] \<Rightarrow> Inr w
      | (e, k) # ts \<Rightarrow>
          (if sint (k - current_msec w) \<le> 0 then
             (case n of
                0 \<Rightarrow> Inl Out_of_fuel
              | Suc m \<Rightarrow>
                  rbind (run e (expire_first e w)) (expire_loop m run))
           else Inr w))"

definition ngx_event_expire_timers ::
  "nat \<Rightarrow> (evref \<Rightarrow> ('k, 'm) world \<Rightarrow> ('k, 'm) world res) \<Rightarrow> ('k, 'm) world \<Rightarrow> ('k, 'm) world res" where
  "ngx_event_expire_timers = expire_loop"

definition ngx_event_timer_init :: "('k, 'm) world \<Rightarrow> ('k, 'm) world" where
  "ngx_event_timer_init w = w\<lparr>timers := []\<rparr>"

end
