(* ===== verification/Ngx_Connection.thy ===== *)
theory Ngx_Connection
  imports Ngx_Event_Timer
begin

text \<open>
  Connection slots, \<open>src/nginx/src/core/ngx_connection.c\<close>, and the posted event queues,
  \<open>src/nginx/src/event/ngx_event_posted.[ch]\<close>. Free slots form a list through \<open>c->data\<close>. The
  table \<open>ngx_cycle->files\<close> only exists for event methods other than the modelled one, so
  it is NULL here.
\<close>

section \<open>Posted events\<close>

definition ngx_locked_post_event :: "bool \<Rightarrow> evref \<Rightarrow> ('k, 'm) world \<Rightarrow> ('k, 'm) world" where
  "ngx_locked_post_event accept e w =
     (if ev_posted (get_ev e w) then w
      else upd_ev e (ev_posted_update (\<lambda>_. True))
        (if accept then w\<lparr>posted_accept_events := e # posted_accept_events w\<rparr>
         else w\<lparr>posted_events := e # posted_events w\<rparr>))"

definition ngx_delete_posted_event :: "evref \<Rightarrow> ('k, 'm) world \<Rightarrow> ('k, 'm) world" where
  "ngx_delete_posted_event e w =
     upd_ev e (ev_posted_update (\<lambda>_. False))
       (w\<lparr>posted_accept_events := removeAll e (posted_accept_events w),
          posted_events := removeAll e (posted_events w)\<rparr>)"

fun process_posted_loop ::
  "nat \<Rightarrow> bool \<Rightarrow> (evref \<Rightarrow> ('k, 'm) world \<Rightarrow> ('k, 'm) world res) \<Rightarrow> ('k, 'm) world \<Rightarrow> ('k, 'm) world res" where
  "process_posted_loop n accept run w =
     (case (if accept then posted_accept_events w else posted_events w) of
        [] \<Rightarrow> Inr w
      | e # es \<Rightarrow>
          (case n of
             0 \<Rightarrow> Inl Out_of_fuel
           | Suc m \<Rightarrow>
               rbind (run e (ngx_delete_posted_event e w)) (process_posted_loop m accept run)))"

definition ngx_event_process_posted ::
  "nat \<Rightarrow> bool \<Rightarrow> (evref \<Rightarrow> ('k, 'm) world \<Rightarrow> ('k, 'm) world res) \<Rightarrow> ('k, 'm) world \<Rightarrow> ('k, 'm) world res" where
  "ngx_event_process_posted = process_posted_loop"

section \<open>Slots\<close>

definition fresh_connection :: "int \<Rightarrow> connection \<Rightarrow> connection" where
  "fresh_connection s x =
     (let inst = \<not> ev_instance (c_read x) in
      \<lparr>c_data = Data_null,
       c_read = zero_event\<lparr>ev_instance := inst\<rparr>,
       c_write = zero_event\<lparr>ev_instance := inst, ev_write := True\<rparr>,
       c_fd = s, c_listening = None, c_sent = 0, c_pool = None, c_addr_text = [],
       c_log_error = NGX_ERROR_ALERT, c_timedout = False, c_destroyed = False\<rparr>)"

definition data_next :: "cdata \<Rightarrow> slot option" where
  "data_next d = (case d of Data_next n \<Rightarrow> Some n | _ \<Rightarrow> None)"

definition ngx_get_connection :: "int \<Rightarrow> ('k, 'm) world \<Rightarrow> slot option \<times> ('k, 'm) world" where
  "ngx_get_connection s w =
     (case free_connections w of
        None \<Rightarrow> (None, w)
      | Some c \<Rightarrow>
          (Some c, upd_conn c (fresh_connection s)
            (w\<lparr>free_connections := data_next (c_data (conns w c)),
               free_connection_n := free_connection_n w - 1\<rparr>)))"

definition ngx_free_connection :: "slot \<Rightarrow> ('k, 'm) world \<Rightarrow> ('k, 'm) world" where
  "ngx_free_connection c w =
     (upd_conn c (c_data_update (\<lambda>_. case free_connections w of
           None \<Rightarrow> Data_null | Some n \<Rightarrow> Data_next n)) w)
       \<lparr>free_connections := Some c, free_connection_n := free_connection_n w + 1\<rparr>"

definition ngx_close_socket :: "('k, 'm) env \<Rightarrow> int \<Rightarrow> ('k, 'm) world \<Rightarrow> ('k, 'm) world" where
  "ngx_close_socket E fd w = w\<lparr>kernel := snd (os_close E fd (kernel w))\<rparr>"

text \<open>\<open>ngx_del_conn\<close> with \<open>NGX_CLOSE_EVENT\<close> only clears the \<open>active\<close> flags: the kernel
  forgets the descriptor when it is closed.\<close>

definition ngx_epoll_del_connection_close :: "slot \<Rightarrow> ('k, 'm) world \<Rightarrow> ('k, 'm) world" where
  "ngx_epoll_del_connection_close c w =
     upd_conn c (\<lambda>x. x\<lparr>c_read := (c_read x)\<lparr>ev_active := False\<rparr>,
                        c_write := (c_write x)\<lparr>ev_active := False\<rparr>\<rparr>) w"

definition del_timer_if_set :: "evref \<Rightarrow> ('k, 'm) world \<Rightarrow> ('k, 'm) world res" where
  "del_timer_if_set e w =
     (if ev_timer_set (get_ev e w) then ngx_event_del_timer e w else Inr w)"

definition delete_posted_if :: "evref \<Rightarrow> ('k, 'm) world \<Rightarrow> ('k, 'm) world" where
  "delete_posted_if e w = (if ev_posted (get_ev e w) then ngx_delete_posted_event e w else w)"

definition ngx_close_connection :: "('k, 'm) env \<Rightarrow> slot \<Rightarrow> ('k, 'm) world \<Rightarrow> ('k, 'm) world res" where
  "ngx_close_connection E c w =
     (if c_fd (conns w c) = - 1 then Inr w
      else
        rbind (del_timer_if_set (Read_ev c) w) (\<lambda>w.
        rbind (del_timer_if_set (Write_ev c) w) (\<lambda>w.
        let w = ngx_epoll_del_connection_close c w;
            w = delete_posted_if (Read_ev c) w;
            w = delete_posted_if (Write_ev c) w;
            w = upd_conn c (\<lambda>x. x\<lparr>c_read := (c_read x)\<lparr>ev_closed := True\<rparr>,
                                   c_write := (c_write x)\<lparr>ev_closed := True\<rparr>\<rparr>) w;
            w = ngx_free_connection c w;
            fd = c_fd (conns w c);
            w = upd_conn c (c_fd_update (\<lambda>_. - 1)) w
        in Inr (ngx_close_socket E fd w))))"

text \<open>\<open>ngx_connection_error\<close>: the value it returns (the rest of it writes the log).\<close>

definition ngx_connection_error :: "slot \<Rightarrow> nat \<Rightarrow> ('k, 'm) world \<Rightarrow> int" where
  "ngx_connection_error c err w =
     (if err = NGX_ECONNRESET \<and> c_log_error (conns w c) = NGX_ERROR_IGNORE_ECONNRESET then 0 else - 1)"

text \<open>
  The slots that \<open>ngx_event_process_init\<close> prepares. The arrays come from \<open>malloc\<close>, so the
  fields that the code does not set hold what \<open>raw\<close> says.
\<close>

definition init_connection :: "(slot \<Rightarrow> connection) \<Rightarrow> nat \<Rightarrow> slot \<Rightarrow> connection" where
  "init_connection raw n i =
     (raw i)\<lparr>c_data := (if Suc i < n then Data_next (Suc i) else Data_null),
             c_read := (c_read (raw i))\<lparr>ev_closed := True, ev_instance := True\<rparr>,
             c_write := (c_write (raw i))\<lparr>ev_closed := True\<rparr>,
             c_fd := - 1\<rparr>"

definition init_slots :: "(slot \<Rightarrow> connection) \<Rightarrow> nat \<Rightarrow> ('k, 'm) world \<Rightarrow> ('k, 'm) world" where
  "init_slots raw n w =
     w\<lparr>conns := init_connection raw n, connection_n := n,
       free_connections := (if 0 < n then Some 0 else None), free_connection_n := int n\<rparr>"

section \<open>The free list\<close>

text \<open>\<open>free_path w s cs\<close>: following \<open>c->data\<close> from \<open>s\<close> visits \<open>cs\<close> and ends with NULL.\<close>

fun free_path :: "('k, 'm) world \<Rightarrow> slot option \<Rightarrow> slot list \<Rightarrow> bool" where
  "free_path w s [] \<longleftrightarrow> s = None"
| "free_path w s (c # cs) \<longleftrightarrow> s = Some c \<and>
     (c_data (conns w c) = Data_null \<or> (\<exists>n. c_data (conns w c) = Data_next n)) \<and>
     free_path w (data_next (c_data (conns w c))) cs"

end
