(* ===== verification/Ngx_Event.thy ===== *)
theory Ngx_Event
  imports Ngx_Connection
begin

text \<open>
  Registration of events with epoll (\<open>src/nginx/src/event/modules/ngx_epoll_module.c\<close> and
  \<open>src/nginx/src/event/ngx_event.c\<close>), and reading and writing of sockets
  (\<open>src/nginx/src/os/unix/ngx_recv.c\<close>, \<open>ngx_send.c\<close>). The event method is epoll, so
  \<open>ngx_event_flags\<close> is \<open>NGX_USE_CLEAR_EVENT | NGX_USE_GREEDY_EVENT | NGX_USE_EPOLL_EVENT\<close>.
\<close>

section \<open>What the kernel promises\<close>

text \<open>\<open>recv\<close> and \<open>send\<close> transfer at most as many bytes as they are asked to.\<close>

definition os_ok :: "('k, 'm) env \<Rightarrow> bool" where
  "os_ok E \<longleftrightarrow>
     (\<forall>fd n k bs k'. os_recv E fd n k = (Inr bs, k') \<longrightarrow> length bs \<le> n) \<and>
     (\<forall>fd bs k n k'. os_send E fd bs k = (Inr n, k') \<longrightarrow> n \<le> length bs)"

section \<open>epoll\<close>

definition epoll_ctl ::
  "('k, 'm) env \<Rightarrow> epoll_op \<Rightarrow> slot \<Rightarrow> epoll_mask \<Rightarrow> slot \<times> bool \<Rightarrow> ('k, 'm) world
     \<Rightarrow> ngx_rc \<times> ('k, 'm) world" where
  "epoll_ctl E op c events ptr w =
     (case os_epoll_ctl E op (c_fd (conns w c)) events ptr (kernel w) of
        (None, k) \<Rightarrow> (NGX_OK, w\<lparr>kernel := k\<rparr>)
      | (Some err, k) \<Rightarrow> (NGX_ERROR, w\<lparr>kernel := k\<rparr>))"

fun other_ev :: "evref \<Rightarrow> evref" where
  "other_ev (Read_ev c) = Write_ev c"
| "other_ev (Write_ev c) = Read_ev c"

fun ev_mask :: "evref \<Rightarrow> epoll_mask" where
  "ev_mask (Read_ev c) = EPOLLIN"
| "ev_mask (Write_ev c) = EPOLLOUT"

definition ngx_epoll_add_event ::
  "('k, 'm) env \<Rightarrow> evref \<Rightarrow> epoll_mask \<Rightarrow> ('k, 'm) world \<Rightarrow> ngx_rc \<times> ('k, 'm) world" where
  "ngx_epoll_add_event E e flags w =
     (let c = ev_conn e;
          other = other_ev e;
          (op, events) = (if ev_active (get_ev other w) then (EPOLL_CTL_MOD, ev_mask e OR ev_mask other)
                          else (EPOLL_CTL_ADD, ev_mask e))
      in case epoll_ctl E op c (events OR flags) (c, ev_instance (get_ev e w)) w of
           (NGX_ERROR, w') \<Rightarrow> (NGX_ERROR, w')
         | (_, w') \<Rightarrow> (NGX_OK, upd_ev e (ev_active_update (\<lambda>_. True)) w'))"

definition ngx_epoll_del_event ::
  "('k, 'm) env \<Rightarrow> evref \<Rightarrow> bool \<Rightarrow> epoll_mask \<Rightarrow> ('k, 'm) world \<Rightarrow> ngx_rc \<times> ('k, 'm) world" where
  "ngx_epoll_del_event E e close_event flags w =
     (if close_event then (NGX_OK, upd_ev e (ev_active_update (\<lambda>_. False)) w)
      else
        let c = ev_conn e;
            other = other_ev e;
            (op, events, ptr) =
              (if ev_active (get_ev other w)
               then (EPOLL_CTL_MOD, ev_mask other OR flags, (c, ev_instance (get_ev e w)))
               else (EPOLL_CTL_DEL, 0, (0, False)))
        in case epoll_ctl E op c events ptr w of
             (NGX_ERROR, w') \<Rightarrow> (NGX_ERROR, w')
           | (_, w') \<Rightarrow> (NGX_OK, upd_ev e (ev_active_update (\<lambda>_. False)) w'))"

definition ngx_epoll_add_connection ::
  "('k, 'm) env \<Rightarrow> slot \<Rightarrow> ('k, 'm) world \<Rightarrow> ngx_rc \<times> ('k, 'm) world" where
  "ngx_epoll_add_connection E c w =
     (case epoll_ctl E EPOLL_CTL_ADD c (EPOLLIN OR EPOLLOUT OR EPOLLET)
             (c, ev_instance (c_read (conns w c))) w of
        (NGX_ERROR, w') \<Rightarrow> (NGX_ERROR, w')
      | (_, w') \<Rightarrow>
          (NGX_OK, upd_conn c (\<lambda>x. x\<lparr>c_read := (c_read x)\<lparr>ev_active := True\<rparr>,
                                      c_write := (c_write x)\<lparr>ev_active := True\<rparr>\<rparr>) w'))"

definition ngx_epoll_del_connection ::
  "('k, 'm) env \<Rightarrow> slot \<Rightarrow> bool \<Rightarrow> ('k, 'm) world \<Rightarrow> ngx_rc \<times> ('k, 'm) world" where
  "ngx_epoll_del_connection E c close_event w =
     (if close_event then (NGX_OK, ngx_epoll_del_connection_close c w)
      else
        case epoll_ctl E EPOLL_CTL_DEL c 0 (0, False) w of
          (NGX_ERROR, w') \<Rightarrow> (NGX_ERROR, w')
        | (_, w') \<Rightarrow> (NGX_OK, ngx_epoll_del_connection_close c w'))"

section \<open>Asking for events\<close>

definition ngx_handle_read_event ::
  "('k, 'm) env \<Rightarrow> evref \<Rightarrow> ('k, 'm) world \<Rightarrow> ngx_rc \<times> ('k, 'm) world" where
  "ngx_handle_read_event E e w =
     (if \<not> ev_active (get_ev e w) \<and> \<not> ev_ready (get_ev e w)
      then ngx_epoll_add_event E e EPOLLET w
      else (NGX_OK, w))"

text \<open>All calls in the sources have \<open>lowat = 0\<close>.\<close>

definition ngx_handle_write_event ::
  "('k, 'm) env \<Rightarrow> evref \<Rightarrow> ('k, 'm) world \<Rightarrow> ngx_rc \<times> ('k, 'm) world" where
  "ngx_handle_write_event E wev w =
     (if \<not> ev_active (get_ev wev w) \<and> \<not> ev_ready (get_ev wev w)
      then ngx_epoll_add_event E wev EPOLLET w
      else (NGX_OK, w))"

section \<open>Reading and writing\<close>

text \<open>
  The result of \<open>ngx_unix_recv\<close> is the number of bytes, \<open>NGX_ERROR = -1\<close> or \<open>NGX_AGAIN = -2\<close>,
  with the bytes the kernel stored. The loop repeats the call that a signal interrupts.
\<close>

fun ngx_unix_recv ::
  "nat \<Rightarrow> ('k, 'm) env \<Rightarrow> slot \<Rightarrow> nat \<Rightarrow> ('k, 'm) world \<Rightarrow> (int \<times> byte list \<times> ('k, 'm) world) res" where
  "ngx_unix_recv fuel E c sz w =
     (case os_recv E (c_fd (conns w c)) sz (kernel w) of
        (Inr bs, k) \<Rightarrow>
          (let w = w\<lparr>kernel := k, received := received w @ [(c, bs)]\<rparr> in
           if bs = [] then
             Inr (0, [], upd_ev (Read_ev c) (\<lambda>x. x\<lparr>ev_ready := False, ev_eof := True\<rparr>) w)
           else Inr (int (length bs), bs, w))
      | (Inl err, k) \<Rightarrow>
          (let w = w\<lparr>kernel := k\<rparr> in
           if err = NGX_EINTR then
             (case fuel of 0 \<Rightarrow> Inl Out_of_fuel | Suc m \<Rightarrow> ngx_unix_recv m E c sz w)
           else if err = NGX_EAGAIN then
             Inr (- 2, [], upd_ev (Read_ev c) (\<lambda>x. x\<lparr>ev_ready := False\<rparr>) w)
           else
             let n = ngx_connection_error c err w in
             Inr (n, [], upd_ev (Read_ev c)
               (\<lambda>x. x\<lparr>ev_ready := False, ev_error := (if n = - 1 then True else ev_error x)\<rparr>) w)))"

fun ngx_unix_send ::
  "nat \<Rightarrow> ('k, 'm) env \<Rightarrow> slot \<Rightarrow> byte list \<Rightarrow> ('k, 'm) world \<Rightarrow> (int \<times> ('k, 'm) world) res" where
  "ngx_unix_send fuel E c buf w =
     (case os_send E (c_fd (conns w c)) buf (kernel w) of
        (Inr n, k) \<Rightarrow>
          (let w = w\<lparr>kernel := k\<rparr> in
           if 0 < n then
             Inr (int n,
               upd_conn c (\<lambda>x. x\<lparr>c_sent := c_sent x + int n,
                   c_write := (if n < length buf then (c_write x)\<lparr>ev_ready := False\<rparr> else c_write x)\<rparr>)
                 (w\<lparr>transmitted := transmitted w @ [(c, take n buf)]\<rparr>))
           else Inr (0, upd_ev (Write_ev c) (\<lambda>x. x\<lparr>ev_ready := False\<rparr>) w))
      | (Inl err, k) \<Rightarrow>
          (let w = w\<lparr>kernel := k\<rparr> in
           if err = NGX_EAGAIN then
             Inr (- 2, upd_ev (Write_ev c) (\<lambda>x. x\<lparr>ev_ready := False\<rparr>) w)
           else if err = NGX_EINTR then
             (case fuel of
                0 \<Rightarrow> Inl Out_of_fuel
              | Suc m \<Rightarrow> ngx_unix_send m E c buf (upd_ev (Write_ev c) (\<lambda>x. x\<lparr>ev_ready := False\<rparr>) w))
           else Inr (- 1, upd_ev (Write_ev c) (\<lambda>x. x\<lparr>ev_error := True\<rparr>) w)))"

end
