(* ===== verification/Ngxe_Xs.thy ===== *)
theory Ngxe_Xs
  imports Ngx_Event
begin

text \<open>
  Calls from C into Perl, \<open>src/ngxe_xs.c\<close>, the pools of the running process, and the buffers
  of \<open>src/ngxe_bufs.[ch]\<close> (in the configuration without \<open>NGXE_READER_USE_BUFS\<close>).
\<close>

section \<open>What the Perl interpreter promises\<close>

text \<open>
  The documented behaviour of the functions of the Perl API that the sources call on a
  scalar: \<open>sv_setiv\<close> and \<open>sv_setpv\<close> store a value, \<open>SvGROW\<close> makes the buffer at least as long
  as asked and keeps the string, \<open>sv_chop\<close> removes bytes from the front of the string and
  \<open>SvOOK_off\<close> undoes the offset that \<open>sv_chop\<close> leaves, without changing the string. None of
  them touches the reference count.
\<close>

definition sv_wf :: "sv \<Rightarrow> bool" where
  "sv_wf s \<longleftrightarrow> sv_cur s < sv_len s"

definition perl_ok :: "('k, 'm) env \<Rightarrow> bool" where
  "perl_ok E \<longleftrightarrow>
     (\<forall>n s. sv_iv (p_sv_setiv E n s) = n \<and> sv_refcnt (p_sv_setiv E n s) = sv_refcnt s) \<and>
     (\<forall>b s. 0 \<notin> set b \<longrightarrow> sv_string (p_sv_setpv E b s) = b \<and> sv_pok (p_sv_setpv E b s) \<and>
        sv_iv (p_sv_setpv E b s) = sv_iv s \<and> sv_refcnt (p_sv_setpv E b s) = sv_refcnt s) \<and>
     (\<forall>n s. sv_wf s \<longrightarrow> n \<le> sv_len (p_sv_grow E n s) \<and> sv_len s \<le> sv_len (p_sv_grow E n s) \<and>
        sv_cur (p_sv_grow E n s) = sv_cur s \<and> sv_string (p_sv_grow E n s) = sv_string s \<and>
        sv_refcnt (p_sv_grow E n s) = sv_refcnt s) \<and>
     (\<forall>n s. sv_wf s \<and> n \<le> sv_cur s \<longrightarrow> sv_wf (p_sv_chop E n s) \<and>
        sv_string (p_sv_chop E n s) = drop n (sv_string s) \<and>
        sv_refcnt (p_sv_chop E n s) = sv_refcnt s) \<and>
     (\<forall>s. sv_wf s \<longrightarrow> sv_wf (p_sv_backoff E s) \<and> sv_string (p_sv_backoff E s) = sv_string s \<and>
        sv_refcnt (p_sv_backoff E s) = sv_refcnt s) \<and>
     (\<forall>s. sv_iok s \<longrightarrow> p_SvIV E s = sv_iv s)"

section \<open>Perl values\<close>

definition upd_sv :: "svid \<Rightarrow> (sv \<Rightarrow> sv) \<Rightarrow> ('k, 'm) world \<Rightarrow> ('k, 'm) world" where
  "upd_sv i f w = w\<lparr>svs := (svs w)(i := f (svs w i))\<rparr>"

text \<open>
  The count of references is kept as an integer. That Perl frees a scalar whose count falls to 0 is not
  part of the model: the properties speak of the counts.
\<close>

definition SvREFCNT_inc :: "svid \<Rightarrow> ('k, 'm) world \<Rightarrow> ('k, 'm) world" where
  "SvREFCNT_inc i = upd_sv i (sv_refcnt_update (\<lambda>n. n + 1))"

definition SvREFCNT_dec :: "svid \<Rightarrow> ('k, 'm) world \<Rightarrow> ('k, 'm) world" where
  "SvREFCNT_dec i = upd_sv i (sv_refcnt_update (\<lambda>n. n - 1))"

definition new_sv :: "sv \<Rightarrow> ('k, 'm) world \<Rightarrow> svid \<times> ('k, 'm) world" where
  "new_sv s w = (sv_next w, w\<lparr>svs := (svs w)(sv_next w := s), sv_next := Suc (sv_next w)\<rparr>)"

definition sv_2mortal :: "svid \<Rightarrow> ('k, 'm) world \<Rightarrow> ('k, 'm) world" where
  "sv_2mortal i w = w\<lparr>tmps := tmps w @ [i]\<rparr>"

text \<open>\<open>FREETMPS\<close> after \<open>SAVETMPS\<close>: the mortal values made since then are released.\<close>

definition free_tmps :: "nat \<Rightarrow> ('k, 'm) world \<Rightarrow> ('k, 'm) world" where
  "free_tmps k w = fold SvREFCNT_dec (drop k (tmps w)) (w\<lparr>tmps := take k (tmps w)\<rparr>)"

text \<open>The macro \<open>SvOOK_off\<close> calls \<open>sv_backoff\<close> when the scalar has an offset.\<close>

definition SvOOK_off :: "('k, 'm) env \<Rightarrow> sv \<Rightarrow> sv" where
  "SvOOK_off E s = (if sv_ook s then p_sv_backoff E s else s)"

section \<open>Callbacks\<close>

definition upd_cb :: "addr \<Rightarrow> (callback \<Rightarrow> callback) \<Rightarrow> ('k, 'm) world \<Rightarrow> ('k, 'm) world" where
  "upd_cb a f w = w\<lparr>callbacks := (callbacks w)(a := f (callbacks w a))\<rparr>"

definition dec_option :: "svid option \<Rightarrow> ('k, 'm) world \<Rightarrow> ('k, 'm) world" where
  "dec_option h w = (case h of None \<Rightarrow> w | Some i \<Rightarrow> SvREFCNT_dec i w)"

definition ngxe_callback_dec :: "addr \<Rightarrow> ('k, 'm) world \<Rightarrow> ('k, 'm) world" where
  "ngxe_callback_dec cb w =
     (let x = callbacks w cb in
      if cb_decremented x then w
      else
        let w = dec_option (cb_handler x) w;
            w = fold SvREFCNT_dec (take (cb_args_n x) (cb_args x)) w
        in upd_cb cb (\<lambda>x. x\<lparr>cb_args_n := 0, cb_decremented := True\<rparr>) w)"

definition ngxe_callback_cleanup :: "addr \<Rightarrow> ('k, 'm) world \<Rightarrow> ('k, 'm) world" where
  "ngxe_callback_cleanup cb w =
     (if cb_decremented (callbacks w cb) then w else ngxe_callback_dec cb w)"

text \<open>
  A read of the structure \<open>cb\<close> after its pool was destroyed is recorded in \<open>stale_reads\<close>; the
  read itself still sees the last contents, which is what happens as long as the C library
  has not given the memory to someone else.
\<close>

definition note_stale :: "addr \<Rightarrow> ('k, 'm) world \<Rightarrow> ('k, 'm) world" where
  "note_stale cb w =
     (if cb_freed (callbacks w cb) then w\<lparr>stale_reads := stale_reads w @ [cb]\<rparr> else w)"

definition ngxe_callback ::
  "('k, 'm) env \<Rightarrow> addr \<Rightarrow> bool \<Rightarrow> ('k, 'm) world \<Rightarrow> ('k, 'm) world res" where
  "ngxe_callback E cb decrefcnts w =
     (let x = callbacks w cb in
      case cb_args x of
        [] \<Rightarrow> Inl Null_deref
      | arg0 # _ \<Rightarrow>
          (case cb_handler x of
             None \<Rightarrow>
               (case cb_native x of
                  None \<Rightarrow> Inr w
                | Some h \<Rightarrow> native_call E h (nat (p_SvIV E (svs w arg0))) w)
           | Some h \<Rightarrow>
               let n = cb_args_n x;
                   args = take n (cb_args x);
                   floor = length (tmps w);
                   w = SvREFCNT_inc h w;
                   w = fold SvREFCNT_inc args w
               in rbind (p_call_sv E h args w) (\<lambda>w.
                    let w = note_stale cb w;
                        y = callbacks w cb;
                        w = fold SvREFCNT_dec (take n (cb_args y)) w;
                        w = dec_option (cb_handler y) w;
                        w = (if decrefcnts then ngxe_callback_dec cb w else w)
                    in Inr (free_tmps floor w))))"

section \<open>Buffers\<close>

definition ngxe_buf_size :: "('k, 'm) env \<Rightarrow> nat \<Rightarrow> nat" where
  "ngxe_buf_size E s =
     (if s \<le> 4080 then 4080
      else if s \<le> 32768 then 32768 + ngxe_pagesize E - 16
      else if s \<le> 262144 then 262144 + ngxe_pagesize E - 16
      else if s \<le> 1048576 then 1048576 + ngxe_pagesize E - 16
      else if s \<le> 4194304 then 4194304
      else s)"

definition ngxe_buf_newsv :: "('k, 'm) env \<Rightarrow> nat \<Rightarrow> sv" where
  "ngxe_buf_newsv E s = p_newSV E (ngxe_buf_size E s)"

text \<open>\<open>SvGROW(sv, n)\<close> calls \<open>sv_grow\<close> when \<open>SvLEN(sv) < n\<close>.\<close>

definition SvGROW :: "('k, 'm) env \<Rightarrow> nat \<Rightarrow> sv \<Rightarrow> sv" where
  "SvGROW E n s = (if sv_len s < n then p_sv_grow E n s else s)"

definition ngxe_buf_svgrow :: "('k, 'm) env \<Rightarrow> nat \<Rightarrow> sv \<Rightarrow> sv" where
  "ngxe_buf_svgrow E n s = SvGROW E (ngxe_buf_size E n) s"

definition ngxe_buf :: "('k, 'm) env \<Rightarrow> nat \<Rightarrow> ('k, 'm) world \<Rightarrow> svid \<times> ('k, 'm) world" where
  "ngxe_buf E svlen w =
     (let (i, w) = new_sv (p_newSV E svlen) w;
          w = sv_2mortal i w;
          w = upd_sv i (\<lambda>s. s\<lparr>sv_iok := False, sv_pok := True, sv_rok := False, sv_cur := 0\<rparr>) w
      in (i, SvREFCNT_inc i w))"

definition ngxe_buffree :: "svid \<Rightarrow> ('k, 'm) world \<Rightarrow> ('k, 'm) world" where
  "ngxe_buffree i w =
     (let w = (if sv_type (svs w i) = SVt_PV \<and> sv_pvx (svs w i) \<noteq> []
               then upd_sv i (sv_pvx_update (\<lambda>_. [])) w else w);
          w = upd_sv i (\<lambda>s. s\<lparr>sv_iok := False, sv_pok := False, sv_rok := False\<rparr>) w
      in SvREFCNT_dec i w)"

definition ngxe_buf_cleanup :: "svid \<Rightarrow> ('k, 'm) world \<Rightarrow> ('k, 'm) world" where
  "ngxe_buf_cleanup i w = ngxe_buffree i w"

section \<open>Pools of the process\<close>

definition run_cleanup :: "cleanup \<Rightarrow> addr \<Rightarrow> ('k, 'm) world \<Rightarrow> ('k, 'm) world" where
  "run_cleanup h d w =
     (case h of
        Ngxe_callback_cleanup \<Rightarrow> ngxe_callback_cleanup d w
      | Ngxe_buf_cleanup \<Rightarrow> ngxe_buf_cleanup (unat d) w)"

definition create_pool :: "('k, 'm) env \<Rightarrow> csize \<Rightarrow> ('k, 'm) world \<Rightarrow> addr option \<times> ('k, 'm) world" where
  "create_pool E sz w =
     (case ngx_create_pool (pagesize E) (alloc E) sz (mst w) of
        (None, ms) \<Rightarrow> (None, w\<lparr>mst := ms\<rparr>)
      | (Some p, ms) \<Rightarrow>
          (let a = blk_base (hd (pool_blocks p)) in
           (Some a, w\<lparr>mst := ms, pools := (pools w)(a \<mapsto> p)\<rparr>)))"

definition pool_alloc ::
  "('k, 'm) env \<Rightarrow> addr option \<Rightarrow> (nat \<Rightarrow> 'm allocator \<Rightarrow> (cleanup, 'm) palloc_fun) \<Rightarrow> csize
     \<Rightarrow> ('k, 'm) world \<Rightarrow> (addr option \<times> ('k, 'm) world) res" where
  "pool_alloc E p f sz w =
     (case p of
        None \<Rightarrow> Inl Null_deref
      | Some a \<Rightarrow>
          (case pools w a of
             None \<Rightarrow> Inl Bad_pool
           | Some pl \<Rightarrow>
               (case f 2 (alloc E) sz (pl, mst w) of
                  None \<Rightarrow> Inl Out_of_fuel
                | Some (r, pl', ms) \<Rightarrow> Inr (r, w\<lparr>pools := (pools w)(a \<mapsto> pl'), mst := ms\<rparr>))))"

definition destroy_pool :: "('k, 'm) env \<Rightarrow> addr option \<Rightarrow> ('k, 'm) world \<Rightarrow> ('k, 'm) world res" where
  "destroy_pool E p w =
     (case p of
        None \<Rightarrow> Inl Null_deref
      | Some a \<Rightarrow>
          (case pools w a of
             None \<Rightarrow> Inl Bad_pool
           | Some pl \<Rightarrow>
               (case ngx_destroy_pool run_cleanup (alloc E) pl (w, mst w) of
                  (w', ms) \<Rightarrow>
                    Inr (w'\<lparr>mst := ms, pools := (pools w')(a := None),
                            callbacks := (\<lambda>b. if cb_pool (callbacks w' b) = a
                                              then (callbacks w' b)\<lparr>cb_freed := True\<rparr>
                                              else callbacks w' b)\<rparr>))))"

end
