(* ===== verification/Ngxe_Connection.thy ===== *)
theory Ngxe_Connection
  imports Ngxe_Xs
begin

text \<open>
  The reader, the three writers and the life of a connection, \<open>src/ngxe_connection.c\<close>.
  The labels and \<open>goto\<close>s of the handlers are values that the straight pieces of code between
  them return; a loop that bounds the number of jumps by \<open>loop_fuel\<close> ties the pieces together.
  A handler gets the slot its event belongs to, so the checks \<open>c == NULL\<close> are not repeated here.
\<close>

section \<open>Shared steps\<close>

definition str_bytes :: "string \<Rightarrow> byte list" where
  "str_bytes s = map of_char s"

definition upd_session :: "addr \<Rightarrow> (session \<Rightarrow> session) \<Rightarrow> ('k, 'm) world \<Rightarrow> ('k, 'm) world" where
  "upd_session a f w = w\<lparr>sessions := (sessions w)(a := f (sessions w a))\<rparr>"

text \<open>\<open>(ngxe_session_t *) c->data\<close>\<close>

definition session_of :: "slot \<Rightarrow> ('k, 'm) world \<Rightarrow> addr option res" where
  "session_of c w =
     (case c_data (conns w c) of
        Data_null \<Rightarrow> Inr None
      | Data_session a \<Rightarrow> Inr (Some a)
      | _ \<Rightarrow> Inl Wrong_type)"

definition deref :: "'a option \<Rightarrow> 'a res" where
  "deref p = (case p of None \<Rightarrow> Inl Null_deref | Some x \<Rightarrow> Inr x)"

definition nth_arg :: "addr \<Rightarrow> nat \<Rightarrow> ('k, 'm) world \<Rightarrow> svid res" where
  "nth_arg cb i w =
     (let args = cb_args (callbacks w cb) in
      if i < length args then Inr (args ! i) else Inl Null_deref)"

text \<open>\<open>sv_setiv\<close>, \<open>sv_setpv\<close> and \<open>SvIOK_on\<close> on \<open>cb->args[1]\<close>\<close>

definition set_error :: "('k, 'm) env \<Rightarrow> addr \<Rightarrow> int \<Rightarrow> string \<Rightarrow> ('k, 'm) world \<Rightarrow> ('k, 'm) world res" where
  "set_error E cb n msg w =
     rbind (nth_arg cb 1 w) (\<lambda>i.
       Inr (upd_sv i (\<lambda>s. (p_sv_setpv E (str_bytes msg) (p_sv_setiv E n s))\<lparr>sv_iok := True\<rparr>) w))"

definition ngxe_close :: "('k, 'm) env \<Rightarrow> slot \<Rightarrow> ('k, 'm) world \<Rightarrow> ('k, 'm) world res" where
  "ngxe_close E c w =
     (if c_destroyed (conns w c) then Inr w
      else
        let w = upd_conn c (c_destroyed_update (\<lambda>_. True)) w;
            pool = c_pool (conns w c)
        in rbind (ngx_close_connection E c w) (destroy_pool E pool))"

definition fail_connection ::
  "('k, 'm) env \<Rightarrow> slot \<Rightarrow> addr \<Rightarrow> int \<Rightarrow> string \<Rightarrow> ('k, 'm) world \<Rightarrow> ('k, 'm) world res" where
  "fail_connection E c cb n msg w =
     rbind (set_error E cb n msg w) (\<lambda>w.
     rbind (ngxe_callback E cb True w) (ngxe_close E c))"

definition timed_out ::
  "('k, 'm) env \<Rightarrow> slot \<Rightarrow> addr \<Rightarrow> ('k, 'm) world \<Rightarrow> ('k, 'm) world res" where
  "timed_out E c cb w =
     fail_connection E c cb (- 1) ''Operation timed out'' (upd_conn c (c_timedout_update (\<lambda>_. True)) w)"

text \<open>\<open>if (!ev->timer_set && timeout) ngx_add_timer(ev, timeout)\<close>\<close>

definition add_timer_unless_set :: "evref \<Rightarrow> int \<Rightarrow> ('k, 'm) world \<Rightarrow> ('k, 'm) world res" where
  "add_timer_unless_set e timeout w =
     (if \<not> ev_timer_set (get_ev e w) \<and> timeout \<noteq> 0
      then ngx_event_add_timer e (word_of_int timeout) w else Inr w)"

section \<open>Starting and stopping the reader\<close>

definition ngxe_reader_start :: "('k, 'm) env \<Rightarrow> slot \<Rightarrow> ('k, 'm) world \<Rightarrow> ('k, 'm) world res" where
  "ngxe_reader_start E c w =
     rbind (rbind (session_of c w) deref) (\<lambda>s.
     let w = upd_ev (Read_ev c) (ev_handler_update (\<lambda>_. Ngxe_reader_handler)) w in
     rbind (del_timer_if_set (Read_ev c) w) (\<lambda>w.
     case ngx_handle_read_event E (Read_ev c) w of
       (NGX_OK, w) \<Rightarrow> add_timer_unless_set (Read_ev c) (reader_timeout (sessions w s)) w
     | (_, w) \<Rightarrow>
         rbind (deref (reader_callback (sessions w s))) (\<lambda>cb.
           fail_connection E c cb (- 2) ''Event error'' w)))"

definition ngxe_reader_stop :: "slot \<Rightarrow> ('k, 'm) world \<Rightarrow> ('k, 'm) world res" where
  "ngxe_reader_stop c w =
     rbind (del_timer_if_set (Read_ev c) w) (\<lambda>w.
       Inr (upd_ev (Read_ev c) (ev_handler_update (\<lambda>_. Ngxe_dummy_handler)) w))"

definition ngxe_writer_stop :: "slot \<Rightarrow> ('k, 'm) world \<Rightarrow> ('k, 'm) world res" where
  "ngxe_writer_stop c w =
     rbind (del_timer_if_set (Write_ev c) w) (\<lambda>w.
       Inr (upd_ev (Write_ev c) (ev_handler_update (\<lambda>_. Ngxe_dummy_handler)) w))"

section \<open>Steps the writers share\<close>

text \<open>Where a piece of a writer continues.\<close>

datatype writer_next =
    Sendagain svid int     \<comment> \<open>with the buffer and the number of bytes left in it\<close>
  | Nextbuf
  | Done
  | Aftercallback
  | Return

text \<open>
  \<open>if (ngx_handle_write_event(c->write, 0) != NGX_OK)\<close> with its error branch; \<open>reset\<close> says
  whether the branch clears \<open>writer_offset\<close>. The boolean result is False after an error.
\<close>

definition await_write ::
  "('k, 'm) env \<Rightarrow> bool \<Rightarrow> slot \<Rightarrow> addr \<Rightarrow> addr \<Rightarrow> ('k, 'm) world \<Rightarrow> (bool \<times> ('k, 'm) world) res" where
  "await_write E reset c s cb w =
     (case ngx_handle_write_event E (Write_ev c) w of
        (NGX_OK, w) \<Rightarrow> Inr (True, w)
      | (_, w) \<Rightarrow>
          rbind (fail_connection E c cb (- 2) ''Event error''
                   (if reset then upd_session s (writer_offset_update (\<lambda>_. 0)) w else w))
            (\<lambda>w. Inr (False, w)))"

definition arm_writer :: "slot \<Rightarrow> addr \<Rightarrow> ('k, 'm) world \<Rightarrow> (writer_next \<times> ('k, 'm) world) res" where
  "arm_writer c s w =
     rbind (add_timer_unless_set (Write_ev c) (writer_timeout (sessions w s)) w) (\<lambda>w. Inr (Return, w))"

text \<open>Part of the buffer is sent: wait until the socket takes more.\<close>

definition partly_sent ::
  "('k, 'm) env \<Rightarrow> bool \<Rightarrow> slot \<Rightarrow> addr \<Rightarrow> addr \<Rightarrow> ('k, 'm) world \<Rightarrow> (writer_next \<times> ('k, 'm) world) res" where
  "partly_sent E reset c s cb w =
     rbind (await_write E reset c s cb (upd_ev (Write_ev c) (ev_ready_update (\<lambda>_. False)) w)) (\<lambda>(ok, w).
       if ok then arm_writer c s w else Inr (Return, w))"

text \<open>\<open>n == NGX_AGAIN\<close>; also the wait after a callback, which goes to \<open>next\<close> when the socket is ready.\<close>

definition not_ready ::
  "('k, 'm) env \<Rightarrow> bool \<Rightarrow> slot \<Rightarrow> addr \<Rightarrow> addr \<Rightarrow> writer_next \<Rightarrow> ('k, 'm) world
     \<Rightarrow> (writer_next \<times> ('k, 'm) world) res" where
  "not_ready E reset c s cb next w =
     rbind (await_write E reset c s cb w) (\<lambda>(ok, w).
       if \<not> ok then Inr (Return, w)
       else if ev_ready (c_write (conns w c)) then Inr (next, w)
       else arm_writer c s w)"

definition continue_writer ::
  "('k, 'm) env \<Rightarrow> bool \<Rightarrow> slot \<Rightarrow> addr \<Rightarrow> addr \<Rightarrow> writer_next \<Rightarrow> ('k, 'm) world
     \<Rightarrow> (writer_next \<times> ('k, 'm) world) res" where
  "continue_writer E reset c s cb next w =
     (if ev_ready (c_write (conns w c)) then Inr (next, w)
      else rbind (await_write E reset c s cb w) (\<lambda>(ok, w).
             if ok then arm_writer c s w else Inr (Return, w)))"

definition restart_reader ::
  "('k, 'm) env \<Rightarrow> slot \<Rightarrow> addr \<Rightarrow> ('k, 'm) world \<Rightarrow> (writer_next \<times> ('k, 'm) world) res" where
  "restart_reader E c s w =
     (if reader_callback (sessions w s) \<noteq> None \<and> reader_buffer (sessions w s) \<noteq> None then
        rbind (ngxe_writer_stop c w) (\<lambda>w. rbind (ngxe_reader_start E c w) (\<lambda>w. Inr (Return, w)))
      else Inr (Return, w))"

text \<open>\<open>cur\<close> bytes of the buffer of a scalar, from offset \<open>off\<close>\<close>

definition sv_bytes :: "sv \<Rightarrow> int \<Rightarrow> int \<Rightarrow> byte list res" where
  "sv_bytes x off cur =
     (if 0 \<le> off \<and> 0 \<le> cur \<and> off + cur \<le> int (sv_len x)
      then Inr (take (nat cur) (drop (nat off) (sv_pvx x))) else Inl Buffer_overrun)"

text \<open>The \<open>$_[3] = undef\<close> of the writers by reference\<close>

definition drop_writer_buffer ::
  "('k, 'm) env \<Rightarrow> addr \<Rightarrow> ('k, 'm) world \<Rightarrow> ('k, 'm) world res" where
  "drop_writer_buffer E s w =
     rbind (deref (writer_buffer (sessions w s))) (\<lambda>b.
       let w = SvREFCNT_dec (sv_rv (svs w b)) w;
           w = upd_sv b (sv_rv_update (\<lambda>_. p_undef E)) w
       in Inr (w\<lparr>svs := p_sv_setsv E b (p_undef E) (svs w)\<rparr>))"

section \<open>The writer for a reference to a string\<close>

definition upd_offset :: "addr \<Rightarrow> int \<Rightarrow> ('k, 'm) world \<Rightarrow> ('k, 'm) world" where
  "upd_offset s n = upd_session s (writer_offset_update (\<lambda>_. c_int n))"

definition cur_left :: "addr \<Rightarrow> svid \<Rightarrow> ('k, 'm) world \<Rightarrow> int" where
  "cur_left s svbuf w = int (sv_cur (svs w svbuf)) - writer_offset (sessions w s)"

text \<open>From \<open>SENDAGAIN\<close>\<close>

definition rvpv_send ::
  "('k, 'm) env \<Rightarrow> slot \<Rightarrow> addr \<Rightarrow> addr \<Rightarrow> svid \<Rightarrow> int \<Rightarrow> ('k, 'm) world
     \<Rightarrow> (writer_next \<times> ('k, 'm) world) res" where
  "rvpv_send E c s cb svbuf cur w =
     rbind (sv_bytes (svs w svbuf) (writer_offset (sessions w s)) cur) (\<lambda>buf.
     rbind (ngx_unix_send (loop_fuel E) E c buf w) (\<lambda>(n, w).
     if n = - 1 \<or> n = 0 then
       rbind (fail_connection E c cb 1 ''Write error'' (upd_offset s 0 w)) (\<lambda>w. Inr (Return, w))
     else if n = - 2 then not_ready E True c s cb (Sendagain svbuf cur) w
     else
       let w = upd_offset s (writer_offset (sessions w s) + n) w in
       if 0 < cur_left s svbuf w then partly_sent E True c s cb w
       else Inr (Done, upd_offset s 0 w)))"

text \<open>From the end of the send to \<open>AFTERCALLBACK\<close>\<close>

definition rvpv_done ::
  "('k, 'm) env \<Rightarrow> addr \<Rightarrow> addr \<Rightarrow> ('k, 'm) world \<Rightarrow> (writer_next \<times> ('k, 'm) world) res" where
  "rvpv_done E s cb w =
     rbind (drop_writer_buffer E s w) (\<lambda>w.
     rbind (ngxe_callback E cb False w) (\<lambda>w. Inr (Aftercallback, w)))"

text \<open>From \<open>AFTERCALLBACK\<close>\<close>

definition rvpv_aftercallback ::
  "('k, 'm) env \<Rightarrow> slot \<Rightarrow> addr \<Rightarrow> addr \<Rightarrow> ('k, 'm) world \<Rightarrow> (writer_next \<times> ('k, 'm) world) res" where
  "rvpv_aftercallback E c s cb w =
     (if c_destroyed (conns w c) then Inr (Return, w)
      else if ev_handler (c_write (conns w c)) = Ngxe_dummy_handler then Inr (Return, w)
      else
        rbind (deref (writer_buffer (sessions w s))) (\<lambda>b.
        if sv_ok (svs w b) \<and> sv_rok (svs w b) \<and> 0 < sv_cur (svs w (sv_rv (svs w b))) then
          let svbuf = sv_rv (svs w b) in
          continue_writer E True c s cb (Sendagain svbuf (cur_left s svbuf w)) w
        else restart_reader E c s w))"

fun rvpv_loop ::
  "nat \<Rightarrow> ('k, 'm) env \<Rightarrow> slot \<Rightarrow> addr \<Rightarrow> addr \<Rightarrow> writer_next \<times> ('k, 'm) world \<Rightarrow> ('k, 'm) world res" where
  "rvpv_loop n E c s cb (next, w) =
     (if next = Return then Inr w
      else
        case n of
          0 \<Rightarrow> Inl Out_of_fuel
        | Suc m \<Rightarrow>
            rbind (case next of
                     Sendagain svbuf cur \<Rightarrow> rvpv_send E c s cb svbuf cur w
                   | Done \<Rightarrow> rvpv_done E s cb w
                   | _ \<Rightarrow> rvpv_aftercallback E c s cb w)
              (rvpv_loop m E c s cb))"

definition ngxe_rvpv_writer_handler ::
  "('k, 'm) env \<Rightarrow> evref \<Rightarrow> addr \<Rightarrow> addr \<Rightarrow> svid \<Rightarrow> ('k, 'm) world \<Rightarrow> ('k, 'm) world res" where
  "ngxe_rvpv_writer_handler E ev s cb b w =
     (let c = ev_conn ev;
          svbuf = sv_rv (svs w b);
          w = upd_sv svbuf (sv_pok_update (\<lambda>_. True)) w
      in if ev_timedout (get_ev ev w) then timed_out E c cb w
         else
           rbind (del_timer_if_set (Write_ev c) w) (\<lambda>w.
           let cur = cur_left s svbuf w in
           if cur \<le> 0 then
             rbind (ngxe_callback E cb False (upd_offset s 0 w)) (\<lambda>w.
               rvpv_loop (loop_fuel E) E c s cb (Aftercallback, w))
           else rvpv_loop (loop_fuel E) E c s cb (Sendagain svbuf cur, w)))"

section \<open>The writer for a reference to an array of references\<close>

definition upd_index :: "addr \<Rightarrow> int \<Rightarrow> ('k, 'm) world \<Rightarrow> ('k, 'm) world" where
  "upd_index s n = upd_session s (writer_index_update (\<lambda>_. c_int n))"

text \<open>
  From \<open>NEXTBUF\<close>. \<open>av_fetch\<close> returns NULL for a missing element, which the code
  dereferences; a negative index counts from the end of the array.
\<close>

definition av_fetch :: "sv \<Rightarrow> int \<Rightarrow> svid res" where
  "av_fetch av i =
     (let n = int (length (sv_av av)); j = (if i < 0 then i + n else i) in
      if 0 \<le> j \<and> j < n then Inr (sv_av av ! nat j) else Inl Null_deref)"

definition rvpvav_nextbuf ::
  "('k, 'm) env \<Rightarrow> slot \<Rightarrow> addr \<Rightarrow> addr \<Rightarrow> ('k, 'm) world \<Rightarrow> (writer_next \<times> ('k, 'm) world) res" where
  "rvpvav_nextbuf E c s cb w =
     rbind (deref (writer_buffer (sessions w s))) (\<lambda>b.
     let av = svs w (sv_rv (svs w b));
         avlen = int (length (sv_av av)) - 1;
         idx = writer_index (sessions w s)
     in if avlen < idx then Inr (Done, w)
        else
          rbind (av_fetch av idx) (\<lambda>e.
          if \<not> sv_ok (svs w e) \<or> \<not> sv_rok (svs w e) then
            rbind (fail_connection E c cb 1 ''Buffer is not a SCALAR REF'' (upd_index s 0 (upd_offset s 0 w)))
              (\<lambda>w. Inr (Return, w))
          else
            let svbuf = sv_rv (svs w e);
                w = upd_sv svbuf (sv_pok_update (\<lambda>_. True)) w;
                cur = cur_left s svbuf w
            in if cur \<le> 0 then Inr (Nextbuf, upd_index s (idx + 1) (upd_offset s 0 w))
               else Inr (Sendagain svbuf cur, w)))"

definition rvpvav_send ::
  "('k, 'm) env \<Rightarrow> slot \<Rightarrow> addr \<Rightarrow> addr \<Rightarrow> svid \<Rightarrow> int \<Rightarrow> ('k, 'm) world
     \<Rightarrow> (writer_next \<times> ('k, 'm) world) res" where
  "rvpvav_send E c s cb svbuf cur w =
     rbind (sv_bytes (svs w svbuf) (writer_offset (sessions w s)) cur) (\<lambda>buf.
     rbind (ngx_unix_send (loop_fuel E) E c buf w) (\<lambda>(n, w).
     if n = - 1 \<or> n = 0 then
       rbind (fail_connection E c cb 1 ''Write error'' (upd_index s 0 (upd_offset s 0 w)))
         (\<lambda>w. Inr (Return, w))
     else if n = - 2 then not_ready E True c s cb (Sendagain svbuf cur) w
     else
       let w = upd_offset s (writer_offset (sessions w s) + n) w;
           left = cur_left s svbuf w
       in rbind (del_timer_if_set (Write_ev c) w) (\<lambda>w.
            if 0 < left then partly_sent E True c s cb w
            else Inr (Nextbuf, upd_index s (writer_index (sessions w s) + 1) (upd_offset s 0 w)))))"

definition rvpvav_done ::
  "('k, 'm) env \<Rightarrow> slot \<Rightarrow> addr \<Rightarrow> addr \<Rightarrow> ('k, 'm) world \<Rightarrow> (writer_next \<times> ('k, 'm) world) res" where
  "rvpvav_done E c s cb w =
     rbind (drop_writer_buffer E s w) (\<lambda>w.
     rbind (ngxe_callback E cb False w) (\<lambda>w.
     if c_destroyed (conns w c) then Inr (Return, w)
     else if ev_handler (c_write (conns w c)) = Ngxe_dummy_handler then Inr (Return, w)
     else
       rbind (deref (writer_buffer (sessions w s))) (\<lambda>b.
       if sv_ok (svs w b) \<and> sv_rok (svs w b) then
         continue_writer E True c s cb Nextbuf (upd_index s 0 (upd_offset s 0 w))
       else restart_reader E c s w)))"

fun rvpvav_loop ::
  "nat \<Rightarrow> ('k, 'm) env \<Rightarrow> slot \<Rightarrow> addr \<Rightarrow> addr \<Rightarrow> writer_next \<times> ('k, 'm) world \<Rightarrow> ('k, 'm) world res" where
  "rvpvav_loop n E c s cb (next, w) =
     (if next = Return then Inr w
      else
        case n of
          0 \<Rightarrow> Inl Out_of_fuel
        | Suc m \<Rightarrow>
            rbind (case next of
                     Sendagain svbuf cur \<Rightarrow> rvpvav_send E c s cb svbuf cur w
                   | Done \<Rightarrow> rvpvav_done E c s cb w
                   | _ \<Rightarrow> rvpvav_nextbuf E c s cb w)
              (rvpvav_loop m E c s cb))"

definition ngxe_rvpvav_writer_handler ::
  "('k, 'm) env \<Rightarrow> evref \<Rightarrow> addr \<Rightarrow> addr \<Rightarrow> ('k, 'm) world \<Rightarrow> ('k, 'm) world res" where
  "ngxe_rvpvav_writer_handler E ev s cb w =
     (let c = ev_conn ev in
      if ev_timedout (get_ev ev w) then timed_out E c cb w
      else
        rbind (del_timer_if_set (Write_ev c) w) (\<lambda>w.
          rvpvav_loop (loop_fuel E) E c s cb (Nextbuf, w)))"

section \<open>The writer for a string\<close>

definition pv_send ::
  "('k, 'm) env \<Rightarrow> slot \<Rightarrow> addr \<Rightarrow> addr \<Rightarrow> svid \<Rightarrow> int \<Rightarrow> ('k, 'm) world
     \<Rightarrow> (writer_next \<times> ('k, 'm) world) res" where
  "pv_send E c s cb svbuf cur w =
     rbind (sv_bytes (svs w svbuf) 0 cur) (\<lambda>buf.
     rbind (ngx_unix_send (loop_fuel E) E c buf w) (\<lambda>(n, w).
     if n = - 1 \<or> n = 0 then
       rbind (fail_connection E c cb 1 ''Write error'' w) (\<lambda>w. Inr (Return, w))
     else if n = - 2 then not_ready E False c s cb (Sendagain svbuf cur) w
     else
       let w = upd_sv svbuf (p_sv_chop E (nat n)) w in
       if 0 < sv_cur (svs w svbuf) then partly_sent E False c s cb w
       else
         let w = upd_sv svbuf (SvOOK_off E) w;
             w = upd_sv svbuf (sv_cur_update (\<lambda>_. 0)) w
         in rbind (ngxe_callback E cb False w) (\<lambda>w. Inr (Aftercallback, w))))"

definition pv_aftercallback ::
  "('k, 'm) env \<Rightarrow> slot \<Rightarrow> addr \<Rightarrow> addr \<Rightarrow> svid \<Rightarrow> ('k, 'm) world \<Rightarrow> (writer_next \<times> ('k, 'm) world) res" where
  "pv_aftercallback E c s cb svbuf w =
     (if c_destroyed (conns w c) then Inr (Return, w)
      else if ev_handler (c_write (conns w c)) = Ngxe_dummy_handler then Inr (Return, w)
      else
        let cur = int (sv_cur (svs w svbuf)) in
        if 0 < cur then continue_writer E False c s cb (Sendagain svbuf cur) w
        else restart_reader E c s w)"

fun pv_loop ::
  "nat \<Rightarrow> ('k, 'm) env \<Rightarrow> slot \<Rightarrow> addr \<Rightarrow> addr \<Rightarrow> svid \<Rightarrow> writer_next \<times> ('k, 'm) world
     \<Rightarrow> ('k, 'm) world res" where
  "pv_loop n E c s cb svbuf (next, w) =
     (if next = Return then Inr w
      else
        case n of
          0 \<Rightarrow> Inl Out_of_fuel
        | Suc m \<Rightarrow>
            rbind (case next of
                     Sendagain b cur \<Rightarrow> pv_send E c s cb b cur w
                   | _ \<Rightarrow> pv_aftercallback E c s cb svbuf w)
              (pv_loop m E c s cb svbuf))"

definition pv_writer_handler ::
  "('k, 'm) env \<Rightarrow> evref \<Rightarrow> addr \<Rightarrow> addr \<Rightarrow> svid \<Rightarrow> ('k, 'm) world \<Rightarrow> ('k, 'm) world res" where
  "pv_writer_handler E ev s cb svbuf w =
     (let c = ev_conn ev in
      if ev_timedout (get_ev ev w) then timed_out E c cb w
      else
        rbind (del_timer_if_set (Write_ev c) w) (\<lambda>w.
        let cur = int (sv_cur (svs w svbuf)) in
        if cur = 0 then
          let w = (if sv_ook (svs w svbuf) then upd_sv svbuf (SvOOK_off E) w else w);
              w = upd_sv svbuf (sv_cur_update (\<lambda>_. 0)) w
          in rbind (ngxe_callback E cb False w) (\<lambda>w.
               pv_loop (loop_fuel E) E c s cb svbuf (Aftercallback, w))
        else pv_loop (loop_fuel E) E c s cb svbuf (Sendagain svbuf cur, w)))"

definition ngxe_writer_handler :: "('k, 'm) env \<Rightarrow> evref \<Rightarrow> ('k, 'm) world \<Rightarrow> ('k, 'm) world res" where
  "ngxe_writer_handler E ev w =
     (let c = ev_conn ev in
      rbind (session_of c w) (\<lambda>sp.
      case sp of
        None \<Rightarrow> Inr w
      | Some s \<Rightarrow>
          (case (writer_callback (sessions w s), writer_buffer (sessions w s)) of
             (Some cb, Some b) \<Rightarrow>
               if sv_rok (svs w b) then
                 (case sv_type (svs w (sv_rv (svs w b))) of
                    SVt_PV \<Rightarrow> ngxe_rvpv_writer_handler E ev s cb b w
                  | SVt_PVAV \<Rightarrow> ngxe_rvpvav_writer_handler E ev s cb w
                  | _ \<Rightarrow> fail_connection E c cb 1 ''Unsupported buffer type'' w)
               else pv_writer_handler E ev s cb b w
           | _ \<Rightarrow> Inr w)))"

definition ngxe_writer_start :: "('k, 'm) env \<Rightarrow> slot \<Rightarrow> ('k, 'm) world \<Rightarrow> ('k, 'm) world res" where
  "ngxe_writer_start E c w =
     rbind (rbind (session_of c w) deref) (\<lambda>s.
     let w = upd_ev (Write_ev c) (ev_handler_update (\<lambda>_. Ngxe_writer_handler)) w in
     rbind (del_timer_if_set (Write_ev c) w) (\<lambda>w.
     case ngx_handle_write_event E (Write_ev c) w of
       (NGX_OK, w) \<Rightarrow>
         rbind (add_timer_unless_set (Write_ev c) (writer_timeout (sessions w s)) w) (\<lambda>w.
         if ev_ready (c_write (conns w c)) then ngxe_writer_handler E (Write_ev c) w else Inr w)
     | (_, w) \<Rightarrow>
         rbind (deref (writer_callback (sessions w s))) (\<lambda>cb.
           fail_connection E c cb (- 2) ''Event error'' w)))"

section \<open>The reader\<close>

datatype reader_next = Recvagain | Callback | Reader_return

text \<open>The bytes that \<open>recv\<close> stores at \<open>buf + cur\<close>\<close>

definition sv_store :: "svid \<Rightarrow> nat \<Rightarrow> byte list \<Rightarrow> ('k, 'm) world \<Rightarrow> ('k, 'm) world res" where
  "sv_store i cur bs w =
     (if cur + length bs \<le> sv_len (svs w i)
      then Inr (upd_sv i (sv_pvx_update (\<lambda>m. take cur m @ bs @ drop (cur + length bs) m)) w)
      else Inl Buffer_overrun)"

text \<open>
  \<open>if (ngx_handle_read_event(c->read, 0) != NGX_OK)\<close> with its error branch. The boolean
  result is False after an error.
\<close>

definition await_read ::
  "('k, 'm) env \<Rightarrow> slot \<Rightarrow> addr \<Rightarrow> ('k, 'm) world \<Rightarrow> (bool \<times> ('k, 'm) world) res" where
  "await_read E c cb w =
     (case ngx_handle_read_event E (Read_ev c) w of
        (NGX_OK, w) \<Rightarrow> Inr (True, w)
      | (_, w) \<Rightarrow>
          rbind (fail_connection E c cb (- 2) ''Event error'' w) (\<lambda>w. Inr (False, w)))"

definition arm_reader :: "slot \<Rightarrow> addr \<Rightarrow> ('k, 'm) world \<Rightarrow> (reader_next \<times> ('k, 'm) world) res" where
  "arm_reader c s w =
     rbind (add_timer_unless_set (Read_ev c) (reader_timeout (sessions w s)) w)
       (\<lambda>w. Inr (Reader_return, w))"

definition wait_readable ::
  "('k, 'm) env \<Rightarrow> slot \<Rightarrow> addr \<Rightarrow> addr \<Rightarrow> ('k, 'm) world \<Rightarrow> (reader_next \<times> ('k, 'm) world) res" where
  "wait_readable E c s cb w =
     rbind (await_read E c cb w) (\<lambda>(ok, w).
       if \<not> ok then Inr (Reader_return, w)
       else if ev_ready (c_read (conns w c)) then Inr (Recvagain, w)
       else arm_reader c s w)"

text \<open>The comparison of \<open>SvCUR\<close> with \<open>SvIV(cb->args[4])\<close> is one of unsigned 64-bit numbers.\<close>

definition too_short :: "('k, 'm) env \<Rightarrow> svid \<Rightarrow> svid \<Rightarrow> ('k, 'm) world \<Rightarrow> bool" where
  "too_short E svbuf min_len w \<longleftrightarrow>
     (of_nat (sv_cur (svs w svbuf) + 1) :: 64 word) < word_of_int (p_SvIV E (svs w min_len)) \<and>
     sv_cur (svs w svbuf) + 1 < sv_len (svs w svbuf)"

text \<open>From the bytes received to the next label\<close>

definition reader_got ::
  "('k, 'm) env \<Rightarrow> slot \<Rightarrow> addr \<Rightarrow> addr \<Rightarrow> svid \<Rightarrow> ('k, 'm) world \<Rightarrow> (reader_next \<times> ('k, 'm) world) res" where
  "reader_got E c s cb svbuf w =
     rbind (await_read E c cb w) (\<lambda>(ok, w).
     if \<not> ok then Inr (Reader_return, w)
     else
       rbind (add_timer_unless_set (Read_ev c) (reader_timeout (sessions w s)) w) (\<lambda>w.
       rbind (nth_arg cb 4 w) (\<lambda>min_len.
       if too_short E svbuf min_len w then wait_readable E c s cb w
       else Inr (Callback, w))))"

text \<open>From \<open>RECVAGAIN\<close>\<close>

definition reader_recv ::
  "('k, 'm) env \<Rightarrow> slot \<Rightarrow> addr \<Rightarrow> addr \<Rightarrow> svid \<Rightarrow> ('k, 'm) world \<Rightarrow> (reader_next \<times> ('k, 'm) world) res" where
  "reader_recv E c s cb svbuf w =
     (let w = (if sv_len (svs w svbuf) = sv_cur (svs w svbuf) + 1
               then upd_sv svbuf (ngxe_buf_svgrow E (sv_len (svs w svbuf) + 16384)) w else w);
          cur = sv_cur (svs w svbuf);
          len = sv_len (svs w svbuf)
      in if len \<le> cur + 1 then Inr (Callback, w)
         else
           rbind (ngx_unix_recv (loop_fuel E) E c (len - cur - 1) w) (\<lambda>(n, bs, w).
           rbind (sv_store svbuf cur bs w) (\<lambda>w.
           if n = - 1 \<or> n = 0 then
             rbind (fail_connection E c cb 1 ''Read error'' w) (\<lambda>w. Inr (Reader_return, w))
           else if n = - 2 then arm_reader c s w
           else reader_got E c s cb svbuf (upd_sv svbuf (sv_cur_update (\<lambda>_. cur + nat n)) w))))"

text \<open>From \<open>CALLBACK\<close>\<close>

definition writer_has_data :: "addr \<Rightarrow> ('k, 'm) world \<Rightarrow> bool" where
  "writer_has_data s w =
     (case (writer_callback (sessions w s), writer_buffer (sessions w s)) of
        (Some cb, Some b) \<Rightarrow> sv_rok (svs w b) \<or> (sv_pok (svs w b) \<and> 0 < sv_cur (svs w b))
      | _ \<Rightarrow> False)"

definition reader_callback_step ::
  "('k, 'm) env \<Rightarrow> slot \<Rightarrow> addr \<Rightarrow> addr \<Rightarrow> ('k, 'm) world \<Rightarrow> (reader_next \<times> ('k, 'm) world) res" where
  "reader_callback_step E c s cb w =
     rbind (ngxe_callback E cb False w) (\<lambda>w.
     if c_destroyed (conns w c) then Inr (Reader_return, w)
     else if ev_handler (c_read (conns w c)) = Ngxe_dummy_handler then Inr (Reader_return, w)
     else if ev_handler (c_write (conns w c)) \<noteq> Ngxe_dummy_handler then Inr (Reader_return, w)
     else if writer_has_data s w then
       let w = upd_session s (\<lambda>x. x\<lparr>writer_offset := 0, writer_index := 0\<rparr>) w in
       rbind (ngxe_reader_stop c w) (\<lambda>w.
       rbind (ngxe_writer_start E c w) (\<lambda>w. Inr (Reader_return, w)))
     else wait_readable E c s cb w)"

fun reader_loop ::
  "nat \<Rightarrow> ('k, 'm) env \<Rightarrow> slot \<Rightarrow> addr \<Rightarrow> addr \<Rightarrow> svid \<Rightarrow> reader_next \<times> ('k, 'm) world
     \<Rightarrow> ('k, 'm) world res" where
  "reader_loop n E c s cb svbuf (next, w) =
     (if next = Reader_return then Inr w
      else
        case n of
          0 \<Rightarrow> Inl Out_of_fuel
        | Suc m \<Rightarrow>
            rbind (if next = Recvagain then reader_recv E c s cb svbuf w
                   else reader_callback_step E c s cb w)
              (reader_loop m E c s cb svbuf))"

definition ngxe_reader_handler :: "('k, 'm) env \<Rightarrow> evref \<Rightarrow> ('k, 'm) world \<Rightarrow> ('k, 'm) world res" where
  "ngxe_reader_handler E ev w =
     (let c = ev_conn ev in
      rbind (session_of c w) (\<lambda>sp.
      case sp of
        None \<Rightarrow> Inr w
      | Some s \<Rightarrow>
          (case (reader_callback (sessions w s), reader_buffer (sessions w s)) of
             (Some cb, Some svbuf) \<Rightarrow>
               if ev_timedout (get_ev ev w) then timed_out E c cb w
               else
                 rbind (del_timer_if_set (Read_ev c) w) (\<lambda>w.
                   reader_loop (loop_fuel E) E c s cb svbuf (Recvagain, w))
           | _ \<Rightarrow> Inr w)))"

section \<open>Clients and servers\<close>

definition ngxe_client_init_handler ::
  "('k, 'm) env \<Rightarrow> evref \<Rightarrow> ('k, 'm) world \<Rightarrow> ('k, 'm) world res" where
  "ngxe_client_init_handler E ev w =
     (let c = ev_conn ev;
          w = upd_ev (Read_ev c) (ev_handler_update (\<lambda>_. Ngxe_dummy_handler)) w;
          w = upd_ev (Write_ev c) (ev_handler_update (\<lambda>_. Ngxe_dummy_handler)) w
      in rbind (session_of c w) (\<lambda>sp.
         case sp of
           None \<Rightarrow> Inr w
         | Some s \<Rightarrow>
             (case writer_callback (sessions w s) of
                None \<Rightarrow> Inr w
              | Some cb \<Rightarrow>
                  if ev_error (get_ev ev w) then fail_connection E c cb (- 1) ''Connect error'' w
                  else if ev_timedout (get_ev ev w) then timed_out E c cb w
                  else
                    rbind (del_timer_if_set (Write_ev c) w) (\<lambda>w. ngxe_callback E cb True w))))"

definition sizeof_ngxe_session_t :: csize where "sizeof_ngxe_session_t = 64"
definition sizeof_ngxe_callback_t :: csize where "sizeof_ngxe_callback_t = 32"
definition sizeof_ngxe_interval_t :: csize where "sizeof_ngxe_interval_t = 24"
definition sizeof_sockaddr_in :: csize where "sizeof_sockaddr_in = 16"
definition sizeof_ngx_listening_t :: csize where "sizeof_ngx_listening_t = 184"
definition sizeof_ngx_peer_connection_t :: csize where "sizeof_ngx_peer_connection_t = 96"
definition sizeof_ngx_addr_t :: csize where "sizeof_ngx_addr_t = 32"
definition sizeof_ngx_str_t :: csize where "sizeof_ngx_str_t = 16"
definition sizeof_ngx_log_t :: csize where "sizeof_ngx_log_t = 48"

definition ngxe_server_init_connection ::
  "('k, 'm) env \<Rightarrow> slot \<Rightarrow> ('k, 'm) world \<Rightarrow> ('k, 'm) world res" where
  "ngxe_server_init_connection E c w =
     rbind (pool_alloc E (c_pool (conns w c)) ngx_palloc sizeof_ngxe_session_t w) (\<lambda>(sp, w).
     case sp of
       None \<Rightarrow> ngxe_close E c w
     | Some s \<Rightarrow>
         let w = upd_session s (\<lambda>_. zero_session) w;
             w = upd_conn c (c_data_update (\<lambda>_. Data_session s)) w;
             w = upd_ev (Read_ev c) (ev_handler_update (\<lambda>_. Ngxe_dummy_handler)) w;
             w = upd_ev (Write_ev c) (ev_handler_update (\<lambda>_. Ngxe_dummy_handler)) w
         in rbind (deref (c_listening (conns w c))) (\<lambda>l.
            rbind (deref (ls_connection (listenings w l))) (\<lambda>lc.
            case c_data (conns w lc) of
              Data_callback cb \<Rightarrow>
                rbind (nth_arg cb 0 w) (\<lambda>a0.
                rbind (nth_arg cb 1 w) (\<lambda>a1.
                let w = upd_sv a0 (p_sv_setiv E (int c)) w;
                    w = upd_sv a1 (p_sv_setpv E (str_bytes (c_addr_text (conns w c)))) w
                in ngxe_callback E cb False w))
            | Data_null \<Rightarrow> Inl Null_deref
            | _ \<Rightarrow> Inl Wrong_type)))"

end
