(* ===== verification/Ngx_Inet.thy ===== *)
theory Ngx_Inet
  imports Ngx_Prelude
begin

text \<open>
  IPv4 addresses, \<open>src/nginx/src/core/ngx_inet.c\<close>, and the decimal printing of
  \<open>src/nginx/src/core/ngx_string.c\<close> that it uses. An \<open>in_addr_t\<close> is in network byte order: on a
  little-endian machine its least significant byte is the first number of the dotted form.
  The build has no IPv6 support.
\<close>

section \<open>Parsing\<close>

type_synonym in_addr = "32 word"

definition INADDR_NONE :: in_addr where "INADDR_NONE = 0xffffffff"
definition INADDR_ANY :: in_addr where "INADDR_ANY = 0"

definition addr_byte :: "nat \<Rightarrow> in_addr \<Rightarrow> in_addr" where
  "addr_byte i a = drop_bit (8 * i) a AND 255"

definition htonl :: "32 word \<Rightarrow> in_addr" where
  "htonl a = push_bit 24 (addr_byte 0 a) OR push_bit 16 (addr_byte 1 a) OR
             push_bit 8 (addr_byte 2 a) OR addr_byte 3 a"

definition is_digit :: "char \<Rightarrow> bool" where
  "is_digit c \<longleftrightarrow> 48 \<le> (of_char c :: nat) \<and> (of_char c :: nat) \<le> 57"

definition digit_value :: "char \<Rightarrow> nat" where
  "digit_value c = of_char c - 48"

fun inet_addr_loop :: "string \<Rightarrow> 32 word \<Rightarrow> 64 word \<Rightarrow> nat \<Rightarrow> in_addr" where
  "inet_addr_loop [] addr octet n =
     (if n \<noteq> 3 then INADDR_NONE
      else if octet < 256 then htonl (push_bit 8 addr + ucast octet)
      else INADDR_NONE)"
| "inet_addr_loop (c # cs) addr octet n =
     (if is_digit c then inet_addr_loop cs addr (octet * 10 + of_nat (digit_value c)) n
      else if c = CHR ''.'' \<and> octet < 256
      then inet_addr_loop cs (push_bit 8 addr + ucast octet) 0 (n + 1)
      else INADDR_NONE)"

definition ngx_inet_addr :: "string \<Rightarrow> in_addr" where
  "ngx_inet_addr text = inet_addr_loop text 0 0 0"

section \<open>Printing\<close>

text \<open>The decimal branch of \<open>ngx_sprintf_num\<close> with no padding\<close>

fun sprintf_dec :: "nat \<Rightarrow> string \<Rightarrow> string" where
  "sprintf_dec ui p =
     (let p = char_of (ui mod 10 + 48) # p in
      if ui div 10 = 0 then p else sprintf_dec (ui div 10) p)"

declare sprintf_dec.simps [simp del]

definition ngx_inet_ntop :: "in_addr \<Rightarrow> nat \<Rightarrow> string" where
  "ngx_inet_ntop a len =
     (let num = (\<lambda>i. sprintf_dec (unat (addr_byte i a)) []) in
      take len (num 0 @ ''.'' @ num 1 @ ''.'' @ num 2 @ ''.'' @ num 3))"

text \<open>\<open>ngx_sock_ntop\<close> for \<open>AF_INET\<close>; \<open>port\<close> is the port in host byte order.\<close>

definition ngx_sock_ntop :: "in_addr \<Rightarrow> 16 word \<Rightarrow> nat \<Rightarrow> bool \<Rightarrow> string" where
  "ngx_sock_ntop a port len with_port =
     (let num = (\<lambda>i. sprintf_dec (unat (addr_byte i a)) []);
          text = num 0 @ ''.'' @ num 1 @ ''.'' @ num 2 @ ''.'' @ num 3
      in take len (if with_port then text @ '':'' @ sprintf_dec (unat port) [] else text))"

definition NGX_INET_ADDRSTRLEN :: nat where "NGX_INET_ADDRSTRLEN = 15"

section \<open>Printing and parsing fit together\<close>

lemma sprintf_dec_append: "sprintf_dec n (p @ q) = sprintf_dec n p @ q"
proof (induction n p rule: sprintf_dec.induct)
  case (1 n p)
  then show ?case
    by (cases "n div 10 = 0") (simp_all add: sprintf_dec.simps[of n] Let_def)
qed

lemma sprintf_dec_step:
  "sprintf_dec n [] = (if n div 10 = 0 then [] else sprintf_dec (n div 10) []) @ [char_of (n mod 10 + 48)]"
  using sprintf_dec_append[of "n div 10" "[]" "[char_of (n mod 10 + 48)]"]
  by (simp add: sprintf_dec.simps[of n])

lemma of_char_digit [simp]:
  "(of_char (char_of (n mod 10 + 48) :: char) :: nat) = n mod 10 + 48"
proof -
  have "n mod 10 < 10" by simp
  then show ?thesis by (simp only: of_char_of) simp
qed

lemma digit_char [simp]:
  "is_digit (char_of (n mod 10 + 48))" "digit_value (char_of (n mod 10 + 48)) = n mod 10"
  by (simp_all add: is_digit_def digit_value_def)

lemma sprintf_dec_digits: "\<forall>c\<in>set (sprintf_dec n []). is_digit c"
proof (induction n rule: less_induct)
  case (less n)
  then have "\<forall>c\<in>set (sprintf_dec (n div 10) []). is_digit c" if "0 < n div 10"
    using that by (intro less) simp
  then show ?case by (auto simp: sprintf_dec_step[of n])
qed

definition digits_value :: "64 word \<Rightarrow> string \<Rightarrow> 64 word" where
  "digits_value = foldl (\<lambda>octet c. octet * 10 + of_nat (digit_value c))"

lemma inet_addr_loop_digits:
  "\<forall>c\<in>set ds. is_digit c \<Longrightarrow>
   inet_addr_loop (ds @ cs) addr octet n = inet_addr_loop cs addr (digits_value octet ds) n"
  by (induction ds arbitrary: octet) (simp_all add: digits_value_def)

lemma digits_value_sprintf_dec: "digits_value 0 (sprintf_dec n []) = of_nat n"
proof (induction n rule: less_induct)
  case (less n)
  have n: "of_nat n = of_nat (n div 10) * 10 + (of_nat (n mod 10) :: 64 word)"
    by (metis div_mod_decomp of_nat_add of_nat_mult of_nat_numeral)
  show ?case
  proof (cases "n div 10 = 0")
    case True
    then have "sprintf_dec n [] = [char_of (n mod 10 + 48)]" by (simp add: sprintf_dec_step[of n])
    then show ?thesis using n True by (simp only: digits_value_def foldl.simps digit_char) simp
  next
    case False
    then have "digits_value 0 (sprintf_dec (n div 10) []) = of_nat (n div 10)"
      by (intro less) simp
    then show ?thesis using False n
      by (subst sprintf_dec_step) (simp add: digits_value_def)
  qed
qed

lemma inet_addr_loop_number:
  assumes "b < 256"
  shows "inet_addr_loop (sprintf_dec b [] @ CHR ''.'' # cs) addr 0 n =
           inet_addr_loop cs (push_bit 8 addr + of_nat b) 0 (n + 1)"
    and "inet_addr_loop (sprintf_dec b []) addr 0 3 = htonl (push_bit 8 addr + of_nat b)"
proof -
  have u: "unat (of_nat b :: 64 word) = b" using assms by (simp add: unat_of_nat)
  then have "ucast (of_nat b :: 64 word) = (of_nat b :: 32 word)" "(of_nat b :: 64 word) < 256"
    using assms by (simp_all add: word_less_nat_alt unsigned_ucast_eq take_bit_nat_eq_self_iff word_unat_eq_iff unat_of_nat)
  then show "inet_addr_loop (sprintf_dec b [] @ CHR ''.'' # cs) addr 0 n =
           inet_addr_loop cs (push_bit 8 addr + of_nat b) 0 (n + 1)"
    and "inet_addr_loop (sprintf_dec b []) addr 0 3 = htonl (push_bit 8 addr + of_nat b)"
    using inet_addr_loop_digits[OF sprintf_dec_digits, of b "CHR ''.'' # cs" addr 0 n]
      inet_addr_loop_digits[OF sprintf_dec_digits, of b "[]" addr 0 3]
    by (simp_all add: digits_value_sprintf_dec is_digit_def)
qed

lemma bit_255_word: "bit (255 :: 32 word) n \<longleftrightarrow> n < 8"
proof -
  have "(255 :: 32 word) = mask 8" by (simp add: mask_eq_exp_minus_1)
  then show ?thesis by (simp only: bit_mask_iff) auto
qed

lemma bit_addr_byte: "bit (addr_byte i a) n \<longleftrightarrow> n < 8 \<and> bit a (8 * i + n)"
  unfolding addr_byte_def bit_and_iff bit_drop_bit_eq bit_255_word comp_def by auto

lemma shift_in_byte:
  "push_bit 8 x + addr_byte i a = push_bit 8 x OR addr_byte i a"
  by (rule disjunctive_add) (auto simp: bit_push_bit_iff bit_addr_byte)

lemma bit_shift_in_byte:
  "bit (push_bit 8 x OR addr_byte i a) n \<longleftrightarrow>
     (if n < 8 then bit a (8 * i + n) else n < 32 \<and> bit x (n - 8))"
  by (auto simp: bit_or_iff bit_push_bit_iff bit_addr_byte)

lemma bit_htonl:
  assumes "r < 8"
  shows "bit (htonl x) r \<longleftrightarrow> bit x (24 + r)" "bit (htonl x) (8 + r) \<longleftrightarrow> bit x (16 + r)"
    "bit (htonl x) (16 + r) \<longleftrightarrow> bit x (8 + r)" "bit (htonl x) (24 + r) \<longleftrightarrow> bit x r"
  using assms by (simp_all add: htonl_def bit_or_iff bit_push_bit_iff bit_addr_byte)

lemma htonl_bytes:
  "htonl (push_bit 8 (push_bit 8 (push_bit 8 (push_bit 8 0 + addr_byte 0 a) + addr_byte 1 a) + addr_byte 2 a)
     + addr_byte 3 a) = a" (is "htonl ?x = a")
proof (rule bit_word_eqI)
  fix n assume n: "n < LENGTH(32)"
  define r where "r = n mod 8"
  have r: "r < 8" by (simp add: r_def)
  have x: "bit ?x (24 + r) \<longleftrightarrow> bit a r" "bit ?x (16 + r) \<longleftrightarrow> bit a (8 + r)"
    "bit ?x (8 + r) \<longleftrightarrow> bit a (16 + r)" "bit ?x r \<longleftrightarrow> bit a (24 + r)"
    using r unfolding shift_in_byte bit_shift_in_byte by simp_all
  have "n = r \<or> n = 8 + r \<or> n = 16 + r \<or> n = 24 + r" using n unfolding r_def by simp presburger
  then show "bit (htonl ?x) n \<longleftrightarrow> bit a n"
    using bit_htonl[OF r, of ?x] x by metis
qed

lemma addr_byte_less: "unat (addr_byte i a) < 256"
proof -
  have "addr_byte i a = take_bit 8 (drop_bit (8 * i) a)"
    by (rule bit_word_eqI) (auto simp: bit_addr_byte bit_take_bit_iff bit_drop_bit_eq)
  then have "unat (addr_byte i a) = take_bit 8 (unat (drop_bit (8 * i) a))"
    by (simp only: unsigned_take_bit_eq)
  then show ?thesis using take_bit_nat_less_exp[of 8] by simp
qed

lemma length_sprintf_dec: "n < 256 \<Longrightarrow> length (sprintf_dec n []) \<le> 3"
  using sprintf_dec_step[of n] sprintf_dec_step[of "n div 10"] sprintf_dec_step[of "n div 10 div 10"]
  by auto

text \<open>The address with the given numbers, in the order of the dotted form\<close>

definition in_addr_of :: "nat \<Rightarrow> nat \<Rightarrow> nat \<Rightarrow> nat \<Rightarrow> in_addr" where
  "in_addr_of w x y z = of_nat w OR push_bit 8 (of_nat x) OR push_bit 16 (of_nat y) OR push_bit 24 (of_nat z)"

text \<open>The number that a text of digits denotes\<close>

definition decimal_text :: "string \<Rightarrow> nat" where
  "decimal_text = foldl (\<lambda>n c. n * 10 + digit_value c) 0"

lemma digits_value_decimal: "unat (digits_value 0 ds) = decimal_text ds mod 2 ^ 64"
proof -
  have "digits_value 0 ds = of_nat (decimal_text ds)"
    by (induction ds rule: rev_induct) (simp_all add: digits_value_def decimal_text_def)
  then show ?thesis by (simp add: unat_of_nat)
qed

lemma inet_addr_loop_field:
  assumes "\<forall>c\<in>set ds. is_digit c"
  shows "inet_addr_loop (ds @ CHR ''.'' # cs) addr 0 n =
      (if unat (digits_value 0 ds) < 256 then inet_addr_loop cs (push_bit 8 addr + of_nat (unat (digits_value 0 ds))) 0 (n + 1)
       else INADDR_NONE)"
    and "inet_addr_loop ds addr 0 3 =
      (if unat (digits_value 0 ds) < 256 then htonl (push_bit 8 addr + of_nat (unat (digits_value 0 ds))) else INADDR_NONE)"
  using inet_addr_loop_digits[OF assms, of "CHR ''.'' # cs" addr 0 n] inet_addr_loop_digits[OF assms, of "[]" addr 0 3]
  by (simp_all add: is_digit_def word_less_nat_alt)

lemma addr_byte_small: "w < 256 \<Longrightarrow> addr_byte 0 (of_nat w) = of_nat w"
proof -
  assume "w < 256"
  have "addr_byte 0 (of_nat w :: 32 word) = take_bit 8 (of_nat w)"
    by (rule bit_word_eqI) (auto simp: bit_addr_byte bit_take_bit_iff)
  also have "\<dots> = of_nat (take_bit 8 w)" by (simp add: take_bit_of_nat)
  also have "take_bit 8 w = w" using \<open>w < 256\<close> by (simp add: take_bit_nat_eq_self_iff)
  finally show ?thesis .
qed

lemma addr_byte_in_addr_of:
  assumes "w < 256" "x < 256" "y < 256" "z < 256"
  shows "addr_byte 0 (in_addr_of w x y z) = of_nat w" "addr_byte 1 (in_addr_of w x y z) = of_nat x"
    "addr_byte 2 (in_addr_of w x y z) = of_nat y" "addr_byte 3 (in_addr_of w x y z) = of_nat z"
proof -
  have b: "bit (of_nat v :: 32 word) n \<Longrightarrow> n < 8" if "v < 256" for v n
    using bit_addr_byte[of 0 "of_nat v" n] by (simp add: addr_byte_small[OF that])
  note b' = b[OF assms(1)] b[OF assms(2)] b[OF assms(3)] b[OF assms(4)]
  show "addr_byte 0 (in_addr_of w x y z) = of_nat w" "addr_byte 1 (in_addr_of w x y z) = of_nat x"
    "addr_byte 2 (in_addr_of w x y z) = of_nat y" "addr_byte 3 (in_addr_of w x y z) = of_nat z"
    by (rule bit_word_eqI; auto simp: bit_addr_byte in_addr_of_def bit_or_iff bit_push_bit_iff dest: b')+
qed

section \<open>Properties\<close>

text \<open>
  (C23) Every IPv4 address that \<open>ngx_sock_ntop\<close> prints is read back by \<open>ngx_inet_addr\<close> as the
  same address, and 15 characters are enough for it.
\<close>

theorem inet_addr_ntop: "ngx_inet_addr (ngx_sock_ntop a port NGX_INET_ADDRSTRLEN False) = a"
proof -
  let ?n = "\<lambda>i. sprintf_dec (unat (addr_byte i a)) []"
  let ?text = "?n 0 @ CHR ''.'' # ?n 1 @ CHR ''.'' # ?n 2 @ CHR ''.'' # ?n 3"
  have b: "unat (addr_byte i a) < 256" for i by (rule addr_byte_less)
  have l: "length (?n i) \<le> 3" for i by (rule length_sprintf_dec[OF b])
  have "length ?text \<le> NGX_INET_ADDRSTRLEN"
    using l[of 0] l[of 1] l[of 2] l[of 3] by (simp add: NGX_INET_ADDRSTRLEN_def)
  then have "take NGX_INET_ADDRSTRLEN ?text = ?text" by (rule take_all)
  then have "ngx_sock_ntop a port NGX_INET_ADDRSTRLEN False = ?text"
    by (simp only: ngx_sock_ntop_def Let_def if_False append.simps)
  then have "ngx_inet_addr (ngx_sock_ntop a port NGX_INET_ADDRSTRLEN False) = inet_addr_loop ?text 0 0 0"
    by (simp only: ngx_inet_addr_def)
  also have "\<dots> = a"
    using inet_addr_loop_number(2)[OF b, of 3] htonl_bytes[of a]
    by (simp only: inet_addr_loop_number(1)[OF b] of_nat_unat ucast_id) (simp add: numeral_3_eq_3)
  finally show ?thesis .
qed

text \<open>
  (C24) What \<open>ngx_inet_addr\<close> does with four texts of decimal digits separated by dots: it keeps the
  numbers modulo \<open>2^64\<close>, gives the address that has them as its bytes when all four are below
  256 then, and \<open>INADDR_NONE\<close> otherwise. A number that overflows is not noticed, and a missing number
  counts as 0.
\<close>

theorem inet_addr_dotted:
  assumes "\<forall>ch\<in>set (a @ b @ c @ d). is_digit ch"
  shows "ngx_inet_addr (a @ ''.'' @ b @ ''.'' @ c @ ''.'' @ d) =
    (let v = (\<lambda>ds. decimal_text ds mod 2 ^ 64) in
     if v a < 256 \<and> v b < 256 \<and> v c < 256 \<and> v d < 256 then in_addr_of (v a) (v b) (v c) (v d) else INADDR_NONE)"
proof -
  have d: "\<forall>ch\<in>set a. is_digit ch" "\<forall>ch\<in>set b. is_digit ch" "\<forall>ch\<in>set c. is_digit ch" "\<forall>ch\<in>set d. is_digit ch"
    using assms by auto
  let ?v = "\<lambda>ds. decimal_text ds mod 2 ^ 64"
  note f = inet_addr_loop_field(1)[OF d(1)] inet_addr_loop_field(1)[OF d(2)] inet_addr_loop_field(1)[OF d(3)]
    inet_addr_loop_field(2)[OF d(4)]
  have "htonl (push_bit 8 (push_bit 8 (push_bit 8 (push_bit 8 0 + of_nat w) + of_nat x) + of_nat y) + of_nat z)
      = in_addr_of w x y z" if "w < 256" "x < 256" "y < 256" "z < 256" for w x y z
    using htonl_bytes[of "in_addr_of w x y z"] by (simp only: addr_byte_in_addr_of[OF that])
  note quad = this
  have three: "0 + 1 + 1 + 1 = (3 :: nat)" by simp
  have "ngx_inet_addr (a @ ''.'' @ b @ ''.'' @ c @ ''.'' @ d) =
    (if ?v a < 256 then if ?v b < 256 then if ?v c < 256 then if ?v d < 256 then
       htonl (push_bit 8 (push_bit 8 (push_bit 8 (push_bit 8 0 + of_nat (?v a)) + of_nat (?v b)) + of_nat (?v c)) + of_nat (?v d))
     else INADDR_NONE else INADDR_NONE else INADDR_NONE else INADDR_NONE)"
    unfolding ngx_inet_addr_def append.simps f three digits_value_decimal by (rule refl)
  then show ?thesis using quad by (simp only: Let_def) auto
qed

theorem inet_addr_dotted_witness:
  "ngx_inet_addr ''18446744073709551743.0.0.1'' = in_addr_of 127 0 0 1 \<and> ngx_inet_addr ''127.0.300.1'' = INADDR_NONE"
  using inet_addr_dotted[of "''18446744073709551743''" "''0''" "''0''" "''1''"] inet_addr_dotted[of "''127''" "''0''" "''300''" "''1''"]
  by (simp add: is_digit_def digit_value_def decimal_text_def)

end
