(* ===== verification/Ngx_Event_Connect.thy ===== *)
theory Ngx_Event_Connect
  imports Ngxe_Connection Ngx_Inet
begin

text \<open>
  Outgoing connections, \<open>src/nginx/src/event/ngx_event_connect.c\<close> and \<open>ngxe_create_peer\<close> of
  \<open>src/ngxe_connection.c\<close>; incoming ones, \<open>src/nginx/src/event/ngx_event_accept.c\<close>; and the
  listening sockets of \<open>src/ngxe_ngx.c\<close>.
\<close>

section \<open>Peers\<close>

record peer =
  pr_connection :: "slot option"
  pr_addr :: in_addr
  pr_port :: "16 word"
  pr_local :: "in_addr option"
  pr_rcvbuf :: int
  pr_log_error :: log_error

text \<open>The allocations of \<open>ngxe_create_peer\<close>, each of which may fail\<close>

fun alloc_all ::
  "('k, 'm) env \<Rightarrow> addr option \<Rightarrow> csize list \<Rightarrow> ('k, 'm) world \<Rightarrow> (bool \<times> ('k, 'm) world) res" where
  "alloc_all E p [] w = Inr (True, w)"
| "alloc_all E p (sz # szs) w =
     rbind (pool_alloc E p ngx_palloc sz w) (\<lambda>(a, w).
       if a = None then Inr (False, w) else alloc_all E p szs w)"

definition ngxe_create_peer ::
  "('k, 'm) env \<Rightarrow> addr option \<Rightarrow> in_addr \<Rightarrow> in_addr \<Rightarrow> 16 word \<Rightarrow> ('k, 'm) world
     \<Rightarrow> (peer option \<times> ('k, 'm) world) res" where
  "ngxe_create_peer E pool bindaddr addr port w =
     rbind (alloc_all E pool [sizeof_ngx_addr_t, sizeof_sockaddr_in, sizeof_sockaddr_in,
              sizeof_ngx_peer_connection_t, sizeof_ngx_str_t] w) (\<lambda>(ok, w).
     if ok then
       Inr (Some \<lparr>pr_connection = None, pr_addr = addr, pr_port = port, pr_local = None,
                  pr_rcvbuf = 0, pr_log_error = NGX_ERROR_ERR\<rparr>, w)
     else Inr (None, w))"

section \<open>Connecting\<close>

definition connect_failed ::
  "('k, 'm) env \<Rightarrow> slot \<Rightarrow> int \<Rightarrow> peer \<Rightarrow> ('k, 'm) world \<Rightarrow> ngx_rc \<times> peer \<times> ('k, 'm) world" where
  "connect_failed E c s pc w =
     (NGX_ERROR, pc, ngx_close_socket E s (ngx_free_connection c w))"

text \<open>\<open>with_kernel f w\<close>: a system call that only changes the state of the kernel\<close>

definition with_kernel :: "('k \<Rightarrow> 'a \<times> 'k) \<Rightarrow> ('k, 'm) world \<Rightarrow> 'a \<times> ('k, 'm) world" where
  "with_kernel f w = (case f (kernel w) of (r, k) \<Rightarrow> (r, w\<lparr>kernel := k\<rparr>))"

definition ngx_event_connect_peer ::
  "('k, 'm) env \<Rightarrow> peer \<Rightarrow> ('k, 'm) world \<Rightarrow> ngx_rc \<times> peer \<times> ('k, 'm) world" where
  "ngx_event_connect_peer E pc w =
     (case with_kernel (os_socket E) w of (s, w) \<Rightarrow>
      if s = - 1 then (NGX_ERROR, pc, w)
      else
        case ngx_get_connection s w of
          (None, w) \<Rightarrow> (NGX_ERROR, pc, ngx_close_socket E s w)
        | (Some c, w) \<Rightarrow>
            (case (if pr_rcvbuf pc \<noteq> 0 then with_kernel (os_setsockopt E s) w else (True, w)) of (ok, w) \<Rightarrow>
             if \<not> ok then connect_failed E c s pc w
             else
               case with_kernel (os_nonblocking E s) w of (ok, w) \<Rightarrow>
               if \<not> ok then connect_failed E c s pc w
               else
                 case (case pr_local pc of
                         None \<Rightarrow> (True, w)
                       | Some a \<Rightarrow> with_kernel (os_bind E s a 0) w) of (ok, w) \<Rightarrow>
                 if \<not> ok then connect_failed E c s pc w
                 else
                   let w = upd_conn c (c_log_error_update (\<lambda>_. pr_log_error pc)) w;
                       pc = pc\<lparr>pr_connection := Some c\<rparr>
                   in case ngx_epoll_add_connection E c w of
                        (NGX_ERROR, w) \<Rightarrow> connect_failed E c s pc w
                      | (_, w) \<Rightarrow>
                          (case with_kernel (os_connect E s (pr_addr pc) (pr_port pc)) w of
                             (Some err, w) \<Rightarrow>
                               if err \<noteq> NGX_EINPROGRESS then (NGX_DECLINED, pc, w)
                               else (NGX_AGAIN, pc, w)
                           | (None, w) \<Rightarrow>
                               (NGX_OK, pc, upd_ev (Write_ev c) (ev_ready_update (\<lambda>_. True)) w))))"

section \<open>Accepting\<close>

definition ngx_close_accepted_connection ::
  "('k, 'm) env \<Rightarrow> slot \<Rightarrow> ('k, 'm) world \<Rightarrow> ('k, 'm) world res" where
  "ngx_close_accepted_connection E c w =
     (let w = ngx_free_connection c w;
          fd = c_fd (conns w c);
          w = upd_conn c (c_fd_update (\<lambda>_. - 1)) w;
          w = ngx_close_socket E fd w
      in case c_pool (conns w c) of
           None \<Rightarrow> Inr w
         | Some p \<Rightarrow> destroy_pool E (Some p) w)"

text \<open>
  What is done with an accepted socket \<open>s\<close> of the peer with address \<open>a\<close>. \<open>accept_name\<close> is the
  part that prints the address of the peer.
\<close>

definition accept_give_up :: "('k, 'm) env \<Rightarrow> slot \<Rightarrow> ('k, 'm) world \<Rightarrow> (bool \<times> ('k, 'm) world) res" where
  "accept_give_up E c w = rbind (ngx_close_accepted_connection E c w) (\<lambda>w. Inr (False, w))"

definition accept_name ::
  "('k, 'm) env \<Rightarrow> listening \<Rightarrow> in_addr \<Rightarrow> addr \<Rightarrow> slot \<Rightarrow> ('k, 'm) world \<Rightarrow> (bool \<times> ('k, 'm) world) res" where
  "accept_name E ls a p c w =
     (if \<not> ls_addr_ntop ls then Inr (True, w)
      else
        rbind (pool_alloc E (Some p) ngx_pnalloc (of_nat (ls_addr_text_max_len ls)) w) (\<lambda>(t, w).
        if t = None then accept_give_up E c w
        else
          let text = ngx_sock_ntop a 0 (ls_addr_text_max_len ls) False;
              w = upd_conn c (c_addr_text_update (\<lambda>_. text)) w
          in if text = [] then accept_give_up E c w else Inr (True, w)))"

definition accept_socket ::
  "('k, 'm) env \<Rightarrow> evref \<Rightarrow> addr \<Rightarrow> int \<Rightarrow> in_addr \<Rightarrow> slot \<Rightarrow> ('k, 'm) world \<Rightarrow> (bool \<times> ('k, 'm) world) res" where
  "accept_socket E ev l s a c w =
     (let ls = listenings w l in
      case create_pool E (ls_pool_size ls) w of
        (None, w) \<Rightarrow> accept_give_up E c w
      | (Some p, w) \<Rightarrow>
          let w = upd_conn c (c_pool_update (\<lambda>_. Some p)) w in
          rbind (alloc_all E (Some p) [sizeof_sockaddr_in, sizeof_ngx_log_t] w) (\<lambda>(ok, w).
          if \<not> ok then accept_give_up E c w
          else
            case with_kernel (os_nonblocking E s) w of (ok, w) \<Rightarrow>
            if \<not> ok then accept_give_up E c w
            else
              let w = upd_conn c (c_listening_update (\<lambda>_. Some l)) w;
                  w = upd_ev (Write_ev c) (ev_ready_update (\<lambda>_. True)) w;
                  w = (if ev_deferred_accept (get_ev ev w)
                       then upd_ev (Read_ev c) (ev_ready_update (\<lambda>_. True)) w else w)
              in accept_name E ls a p c w))"

fun accept_loop ::
  "nat \<Rightarrow> ('k, 'm) env \<Rightarrow> evref \<Rightarrow> addr \<Rightarrow> ('k, 'm) world \<Rightarrow> ('k, 'm) world res" where
  "accept_loop n E ev l w =
     (case n of
        0 \<Rightarrow> Inl Out_of_fuel
      | Suc m \<Rightarrow>
          (case with_kernel (os_accept E (c_fd (conns w (ev_conn ev)))) w of
             (Inl err, w) \<Rightarrow>
               if err = NGX_ECONNABORTED \<and> ev_available (get_ev ev w) then accept_loop m E ev l w else Inr w
           | (Inr (s, a, port), w) \<Rightarrow>
               (case ngx_get_connection s w of
                  (None, w) \<Rightarrow> Inr (ngx_close_socket E s w)
                | (Some c, w) \<Rightarrow>
                    rbind (accept_socket E ev l s a c w) (\<lambda>(ok, w).
                    if \<not> ok then Inr w
                    else
                      rbind (ngxe_server_init_connection E c w) (\<lambda>w.
                        if ev_available (get_ev ev w) then accept_loop m E ev l w else Inr w)))))"

definition ngx_event_accept :: "('k, 'm) env \<Rightarrow> evref \<Rightarrow> ('k, 'm) world \<Rightarrow> ('k, 'm) world res" where
  "ngx_event_accept E ev w =
     rbind (deref (c_listening (conns w (ev_conn ev)))) (\<lambda>l.
       accept_loop (loop_fuel E) E ev l
         (upd_ev ev (\<lambda>x. x\<lparr>ev_available := multi_accept E, ev_ready := False\<rparr>) w))"

section \<open>Listening\<close>

definition NGX_LISTEN_BACKLOG :: int where "NGX_LISTEN_BACKLOG = 511"

text \<open>
  \<open>ngx_ngxe_create_listening\<close>: the structure, a copy of the socket address and the printed
  address come from the pool; the result is the address of the structure.
\<close>

definition ngx_ngxe_create_listening ::
  "('k, 'm) env \<Rightarrow> addr option \<Rightarrow> in_addr \<Rightarrow> 16 word \<Rightarrow> ('k, 'm) world
     \<Rightarrow> (addr option \<times> ('k, 'm) world) res" where
  "ngx_ngxe_create_listening E pool a port w =
     rbind (pool_alloc E pool ngx_palloc sizeof_ngx_listening_t w) (\<lambda>(l, w).
     case l of
       None \<Rightarrow> Inr (None, w)
     | Some l \<Rightarrow>
         rbind (pool_alloc E pool ngx_palloc sizeof_sockaddr_in w) (\<lambda>(sa, w).
         if sa = None then Inr (None, w)
         else
           let text = ngx_sock_ntop a port 113 True in
           rbind (pool_alloc E pool ngx_pnalloc (of_nat (length text)) w) (\<lambda>(t, w).
           if t = None then Inr (None, w)
           else
             Inr (Some l, w\<lparr>listenings := (listenings w)(l :=
               \<lparr>ls_fd = - 1, ls_addr = a, ls_port = port, ls_addr_text = text, ls_pool_size = 0,
                ls_addr_ntop = False, ls_addr_text_max_len = NGX_INET_ADDRSTRLEN, ls_ignore = False,
                ls_inherited = False, ls_listen = False, ls_backlog = NGX_LISTEN_BACKLOG,
                ls_connection = None, ls_deferred_accept = False, ls_previous = None\<rparr>)\<rparr>))))"

definition upd_listening :: "addr \<Rightarrow> (listening \<Rightarrow> listening) \<Rightarrow> ('k, 'm) world \<Rightarrow> ('k, 'm) world" where
  "upd_listening l f w = w\<lparr>listenings := (listenings w)(l := f (listenings w l))\<rparr>"

definition ngx_ngxe_open_listening_socket ::
  "('k, 'm) env \<Rightarrow> addr \<Rightarrow> ('k, 'm) world \<Rightarrow> ('k, 'm) world" where
  "ngx_ngxe_open_listening_socket E l w =
     (let ls = listenings w l in
      if ls_ignore ls then w
      else if ls_fd ls \<noteq> - 1 then w
      else if ls_inherited ls then w
      else
        case with_kernel (os_socket E) w of (s, w) \<Rightarrow>
        if s = - 1 then w
        else
          case with_kernel (os_setsockopt E s) w of (ok, w) \<Rightarrow>
          if \<not> ok then ngx_close_socket E s w
          else
            case with_kernel (os_nonblocking E s) w of (ok, w) \<Rightarrow>
            if \<not> ok then ngx_close_socket E s w
            else
              case with_kernel (os_bind E s (ls_addr ls) (ls_port ls)) w of (ok, w) \<Rightarrow>
              if \<not> ok then ngx_close_socket E s w
              else
                case with_kernel (os_listen E s (ls_backlog ls)) w of (ok, w) \<Rightarrow>
                if \<not> ok then ngx_close_socket E s w
                else upd_listening l (\<lambda>x. x\<lparr>ls_listen := True, ls_fd := s\<rparr>) w)"

definition ngx_ngxe_add_listening_connection ::
  "('k, 'm) env \<Rightarrow> addr \<Rightarrow> ('k, 'm) world \<Rightarrow> ngx_rc \<times> ('k, 'm) world" where
  "ngx_ngxe_add_listening_connection E l w =
     (case ngx_get_connection (ls_fd (listenings w l)) w of
        (None, w) \<Rightarrow> (NGX_ERROR, w)
      | (Some c, w) \<Rightarrow>
          let w = upd_conn c (c_listening_update (\<lambda>_. Some l)) w;
              w = upd_listening l (ls_connection_update (\<lambda>_. Some c)) w;
              w = upd_ev (Read_ev c) (\<lambda>x. x\<lparr>ev_accept := True,
                    ev_deferred_accept := ls_deferred_accept (listenings w l)\<rparr>) w;
              w = (case ls_previous (listenings w l) of
                     None \<Rightarrow> w
                   | Some old \<Rightarrow> upd_conn old (c_fd_update (\<lambda>_. - 1))
                                   (snd (ngx_epoll_del_event E (Read_ev old) True 0 w)));
              w = upd_ev (Read_ev c) (ev_handler_update (\<lambda>_. Ngx_event_accept)) w
          in ngx_epoll_add_event E (Read_ev c) 0 w)"

text \<open>The part of \<open>ngxe_server_create\<close> after \<open>ngx_ngxe_create_listening\<close>\<close>

definition server_listen ::
  "('k, 'm) env \<Rightarrow> addr \<Rightarrow> addr \<Rightarrow> ('k, 'm) world \<Rightarrow> (addr option \<times> ('k, 'm) world) res" where
  "server_listen E p l w =
     (let w = upd_listening l (\<lambda>x. x\<lparr>ls_pool_size := 256, ls_addr_ntop := True\<rparr>) w;
          w = ngx_ngxe_open_listening_socket E l w
      in case ngx_ngxe_add_listening_connection E l w of
           (NGX_OK, w) \<Rightarrow>
             rbind (deref (ls_connection (listenings w l))) (\<lambda>c.
               Inr (Some l, upd_conn c (c_pool_update (\<lambda>_. Some p)) w))
         | (_, w) \<Rightarrow> Inr (None, w))"

definition ngxe_server_create ::
  "('k, 'm) env \<Rightarrow> in_addr \<Rightarrow> 16 word \<Rightarrow> ('k, 'm) world \<Rightarrow> (addr option \<times> ('k, 'm) world) res" where
  "ngxe_server_create E a port w =
     (case create_pool E 256 w of
        (None, w) \<Rightarrow> Inr (None, w)
      | (Some p, w) \<Rightarrow>
          rbind (pool_alloc E (Some p) ngx_palloc sizeof_sockaddr_in w) (\<lambda>(sa, w).
          if sa = None then Inr (None, w)
          else
            rbind (ngx_ngxe_create_listening E (Some p) a port w) (\<lambda>(l, w).
            case l of
              None \<Rightarrow> Inr (None, w)
            | Some l \<Rightarrow> server_listen E p l w)))"

end
