(* ===== verification/Ngxe_Api.thy ===== *)
theory Ngxe_Api
  imports Ngx_Event_Connect
begin

text \<open>
  Timers of the engine (\<open>src/ngxe_timer.c\<close>) and the operations that \<open>src/Engine.xs\<close> offers to
  Perl code. Perl callbacks act on the engine only through these operations and by
  assigning to their own variables; \<open>perl_run\<close> executes a list of such actions, and
  \<open>script_env\<close> is an environment whose callbacks are scripts.
\<close>

section \<open>Interval and timeout handlers\<close>

definition interval_of :: "slot \<Rightarrow> ('k, 'm) world \<Rightarrow> addr res" where
  "interval_of c w =
     (case c_data (conns w c) of
        Data_interval a \<Rightarrow> Inr a
      | Data_null \<Rightarrow> Inl Null_deref
      | _ \<Rightarrow> Inl Wrong_type)"

definition ngxe_interval_callback :: "('k, 'm) env \<Rightarrow> evref \<Rightarrow> ('k, 'm) world \<Rightarrow> ('k, 'm) world res" where
  "ngxe_interval_callback E ev w =
     rbind (interval_of (ev_conn ev) w) (\<lambda>a.
     rbind (ngx_event_add_timer ev (word_of_int (iv_msec (intervals w a))) w) (\<lambda>w.
     rbind (deref (iv_callback (intervals w a))) (\<lambda>cb.
       ngxe_callback E cb False w)))"

definition ngxe_timeout_callback :: "('k, 'm) env \<Rightarrow> evref \<Rightarrow> ('k, 'm) world \<Rightarrow> ('k, 'm) world res" where
  "ngxe_timeout_callback E ev w =
     (let c = ev_conn ev in
      rbind (interval_of c w) (\<lambda>a.
      rbind (deref (iv_callback (intervals w a))) (\<lambda>cb.
      rbind (ngxe_callback E cb True w) (\<lambda>w.
      rbind (destroy_pool E (c_pool (conns w c)) w) (\<lambda>w.
        Inr (ngx_free_connection c w))))))"

section \<open>Making a callback\<close>

text \<open>
  An argument of a new callback is a fresh mortal value or a value that exists already;
  the callback keeps one reference to each.
\<close>

datatype arg_spec = Fresh sv | Shared svid

fun make_args :: "arg_spec list \<Rightarrow> ('k, 'm) world \<Rightarrow> svid list \<times> ('k, 'm) world" where
  "make_args [] w = ([], w)"
| "make_args (Fresh s # as) w =
     (case new_sv s w of (i, w) \<Rightarrow>
      case make_args as (SvREFCNT_inc i (sv_2mortal i w)) of (is, w) \<Rightarrow> (i # is, w))"
| "make_args (Shared i # as) w =
     (case make_args as (SvREFCNT_inc i w) of (is, w) \<Rightarrow> (i # is, w))"

definition fill_callback ::
  "('k, 'm) env \<Rightarrow> addr option \<Rightarrow> addr \<Rightarrow> svid \<Rightarrow> arg_spec list \<Rightarrow> ('k, 'm) world \<Rightarrow> ('k, 'm) world res" where
  "fill_callback E pool cb sub specs w =
     (case make_args [Fresh (p_newSVsv E (svs w sub))] w of (hs, w) \<Rightarrow>
      let w = upd_cb cb (\<lambda>x. x\<lparr>cb_handler := Some (hd hs), cb_args_n := length specs\<rparr>) w in
      rbind (pool_alloc E pool ngx_palloc (of_nat (8 * length specs)) w) (\<lambda>(a, w).
      case a of
        None \<Rightarrow> Inl Null_deref
      | Some _ \<Rightarrow>
          case make_args specs w of (is, w) \<Rightarrow>
          Inr (upd_cb cb (cb_args_update (\<lambda>_. is)) w)))"

text \<open>\<open>ngx_pcalloc\<close> of a callback, without and with its cleanup handler\<close>

definition alloc_callback ::
  "('k, 'm) env \<Rightarrow> addr option \<Rightarrow> ('k, 'm) world \<Rightarrow> (addr option \<times> ('k, 'm) world) res" where
  "alloc_callback E pool w =
     rbind (pool_alloc E pool ngx_palloc sizeof_ngxe_callback_t w) (\<lambda>(a, w).
       case a of
         None \<Rightarrow> Inr (None, w)
       | Some cb \<Rightarrow> Inr (Some cb, upd_cb cb (\<lambda>_. zero_callback (the pool)) w))"

definition add_cleanup ::
  "('k, 'm) env \<Rightarrow> addr option \<Rightarrow> cleanup \<Rightarrow> addr \<Rightarrow> ('k, 'm) world \<Rightarrow> (bool \<times> ('k, 'm) world) res" where
  "add_cleanup E pool h d w =
     rbind (pool_alloc E pool ngx_pool_cleanup_add 0 w) (\<lambda>(a, w).
       case (a, pool) of
         (Some _, Some p) \<Rightarrow> Inr (True, w\<lparr>pools := (pools w)(p := map_option (set_cleanup h d) (pools w p))\<rparr>)
       | _ \<Rightarrow> Inr (False, w))"

definition alloc_callback_cleanup ::
  "('k, 'm) env \<Rightarrow> addr option \<Rightarrow> ('k, 'm) world \<Rightarrow> (addr option \<times> ('k, 'm) world) res" where
  "alloc_callback_cleanup E pool w =
     rbind (alloc_callback E pool w) (\<lambda>(a, w).
     case a of
       None \<Rightarrow> Inr (None, w)
     | Some cb \<Rightarrow>
         rbind (add_cleanup E pool Ngxe_callback_cleanup cb w) (\<lambda>(ok, w).
           Inr (if ok then Some cb else None, w)))"

section \<open>Timers for Perl code\<close>

definition user_args :: "('k, 'm) env \<Rightarrow> svid list \<Rightarrow> ('k, 'm) world \<Rightarrow> arg_spec list" where
  "user_args E as w = map (\<lambda>i. Fresh (p_newSVsv E (svs w i))) as"

text \<open>
  \<open>ngxe_interval_set\<close> and \<open>ngxe_timeout_set\<close>, which differ only in the handler \<open>h\<close>. The
  result is the address of the interval structure, or \<open>None\<close> for \<open>undef\<close>. \<open>timer_init\<close> is the
  part after the allocation of the structure \<open>iv\<close>, \<open>timer_start\<close> the part after that of the
  callback \<open>cb\<close>.
\<close>

definition timer_start ::
  "('k, 'm) env \<Rightarrow> slot \<Rightarrow> addr option \<Rightarrow> int \<Rightarrow> svid \<Rightarrow> svid list \<Rightarrow> addr \<Rightarrow> addr \<Rightarrow> ('k, 'm) world
     \<Rightarrow> (addr option \<times> ('k, 'm) world) res" where
  "timer_start E c pool msec sub as iv cb w =
     (let w = w\<lparr>intervals := (intervals w)(iv := (intervals w iv)\<lparr>iv_callback := Some cb\<rparr>)\<rparr> in
      rbind (fill_callback E pool cb sub (Fresh (p_newSViv E (uint iv)) # user_args E as w) w) (\<lambda>w.
      rbind (ngx_event_add_timer (Read_ev c) (word_of_int msec) w) (\<lambda>w. Inr (Some iv, w))))"

definition timer_init ::
  "('k, 'm) env \<Rightarrow> slot \<Rightarrow> addr option \<Rightarrow> int \<Rightarrow> svid \<Rightarrow> svid list \<Rightarrow> addr \<Rightarrow> ('k, 'm) world
     \<Rightarrow> (addr option \<times> ('k, 'm) world) res" where
  "timer_init E c pool msec sub as iv w =
     (let w = w\<lparr>intervals := (intervals w)(iv :=
                \<lparr>iv_msec = msec, iv_callback = None, iv_connection = Some c\<rparr>)\<rparr>;
          w = upd_conn c (c_data_update (\<lambda>_. Data_interval iv)) w
      in rbind (alloc_callback E pool w) (\<lambda>(a, w).
         case a of
           None \<Rightarrow> Inr (None, w)
         | Some cb \<Rightarrow> timer_start E c pool msec sub as iv cb w))"

definition ngxe_timer_set ::
  "('k, 'm) env \<Rightarrow> handler \<Rightarrow> int \<Rightarrow> svid \<Rightarrow> svid list \<Rightarrow> ('k, 'm) world
     \<Rightarrow> (addr option \<times> ('k, 'm) world) res" where
  "ngxe_timer_set E h msec sub as w =
     (case ngx_get_connection 0 w of
        (None, w) \<Rightarrow> Inr (None, w)
      | (Some c, w) \<Rightarrow>
          let w = upd_ev (Read_ev c) (\<lambda>x. x\<lparr>ev_handler := h, ev_active := True\<rparr>) w in
          case create_pool E 128 w of (pool, w) \<Rightarrow>
          let w = upd_conn c (c_pool_update (\<lambda>_. pool)) w in
          rbind (pool_alloc E pool ngx_palloc sizeof_ngxe_interval_t w) (\<lambda>(a, w).
          case a of
            None \<Rightarrow> Inr (None, w)
          | Some iv \<Rightarrow> timer_init E c pool msec sub as iv w))"

text \<open>\<open>ngxe_interval_clear\<close> and \<open>ngxe_timeout_clear\<close>\<close>

definition ngxe_timer_clear ::
  "('k, 'm) env \<Rightarrow> addr \<Rightarrow> ('k, 'm) world \<Rightarrow> ('k, 'm) world res" where
  "ngxe_timer_clear E iv w =
     rbind (deref (iv_connection (intervals w iv))) (\<lambda>c.
     rbind (deref (iv_callback (intervals w iv))) (\<lambda>cb.
     rbind (ngx_event_del_timer (Read_ev c) (ngxe_callback_dec cb w)) (\<lambda>w.
     rbind (destroy_pool E (c_pool (conns w c)) w) (\<lambda>w.
       Inr (ngx_free_connection c w)))))"

section \<open>Readers and writers for Perl code\<close>

text \<open>The checks at the start of most operations: the pool and the session must be there.\<close>

definition with_session ::
  "slot \<Rightarrow> (addr \<Rightarrow> ('k, 'm) world \<Rightarrow> ('k, 'm) world res) \<Rightarrow> ('k, 'm) world \<Rightarrow> ('k, 'm) world res" where
  "with_session c f w =
     (if c_pool (conns w c) = None then Inr w
      else rbind (session_of c w) (\<lambda>sp. case sp of None \<Rightarrow> Inr w | Some s \<Rightarrow> f s w))"

text \<open>The reader buffer of the session, which the first reader or writer creates\<close>

definition SvPOK_only :: "sv \<Rightarrow> sv" where
  "SvPOK_only x = x\<lparr>sv_iok := False, sv_pok := True, sv_rok := False\<rparr>"

definition SvIOK_only :: "sv \<Rightarrow> sv" where
  "SvIOK_only x = x\<lparr>sv_iok := True, sv_pok := False, sv_rok := False\<rparr>"

definition reader_buffer_spec :: "('k, 'm) env \<Rightarrow> nat \<Rightarrow> session \<Rightarrow> arg_spec" where
  "reader_buffer_spec E bufsize x =
     (case reader_buffer x of
        None \<Rightarrow> Fresh ((SvPOK_only (ngxe_buf_newsv E bufsize))\<lparr>sv_cur := 0\<rparr>)
      | Some i \<Rightarrow> Shared i)"

definition attach_buffers :: "addr \<Rightarrow> addr \<Rightarrow> ('k, 'm) world \<Rightarrow> ('k, 'm) world" where
  "attach_buffers s cb w =
     (let args = cb_args (callbacks w cb) in
      upd_session s (\<lambda>x. x\<lparr>
        reader_buffer := (if reader_buffer x = None then Some (args ! 2) else reader_buffer x),
        writer_buffer := (if writer_buffer x = None then Some (args ! 3) else writer_buffer x)\<rparr>) w)"

definition NGXE_START :: int where "NGXE_START = 1"

definition xs_ngxe_reader ::
  "('k, 'm) env \<Rightarrow> nat \<Rightarrow> slot \<Rightarrow> int \<Rightarrow> int \<Rightarrow> svid \<Rightarrow> svid list \<Rightarrow> ('k, 'm) world \<Rightarrow> ('k, 'm) world res" where
  "xs_ngxe_reader E bufsize c start timeout sub as =
     with_session c (\<lambda>s w.
       let pool = c_pool (conns w c) in
       rbind (alloc_callback_cleanup E pool w) (\<lambda>(a, w).
       case a of
         None \<Rightarrow> Inr w
       | Some cb \<Rightarrow>
           let specs = [Fresh (SvIOK_only (p_newSViv E (int c))), Fresh (SvIOK_only (p_newSViv E 0)),
                        reader_buffer_spec E bufsize (sessions w s),
                        (case writer_buffer (sessions w s) of
                           None \<Rightarrow> Fresh (SvPOK_only (p_newSV E 1)) | Some i \<Rightarrow> Shared i),
                        Fresh (SvIOK_only (p_newSViv E 0))] @ user_args E as w
           in rbind (fill_callback E pool cb sub specs w) (\<lambda>w.
              let w = attach_buffers s cb w;
                  w = upd_session s (\<lambda>x. x\<lparr>reader_flags := start, reader_callback := Some cb,
                        reader_timeout := timeout\<rparr>) w;
                  w = upd_ev (Read_ev c) (ev_handler_update (\<lambda>_. Ngxe_dummy_handler)) w
              in if start mod 2 = NGXE_START then ngxe_reader_start E c w else Inr w)))"

text \<open>The kinds of value a writer sends as they are\<close>

definition supported_buffer :: "svid \<Rightarrow> ('k, 'm) world \<Rightarrow> bool" where
  "supported_buffer b w \<longleftrightarrow>
     (sv_rok (svs w b) \<and> sv_type (svs w (sv_rv (svs w b))) \<in> {SVt_PV, SVt_PVAV}) \<or>
     sv_type (svs w b) = SVt_PV"

definition xs_ngxe_writer ::
  "('k, 'm) env \<Rightarrow> nat \<Rightarrow> slot \<Rightarrow> int \<Rightarrow> int \<Rightarrow> svid \<Rightarrow> svid \<Rightarrow> svid list \<Rightarrow> ('k, 'm) world
     \<Rightarrow> ('k, 'm) world res" where
  "xs_ngxe_writer E bufsize c start timeout buffer sub as =
     with_session c (\<lambda>s w.
       let pool = c_pool (conns w c) in
       rbind (alloc_callback_cleanup E pool w) (\<lambda>(a, w).
       case a of
         None \<Rightarrow> Inr w
       | Some cb \<Rightarrow>
           let old = writer_buffer (sessions w s);
               specs = [Fresh (SvIOK_only (p_newSViv E (int c))), Fresh (SvIOK_only (p_newSViv E 0)),
                        reader_buffer_spec E bufsize (sessions w s),
                        (case old of None \<Rightarrow> Fresh (p_newSVsv E (svs w buffer)) | Some i \<Rightarrow> Shared i)]
                       @ user_args E as w
           in rbind (fill_callback E pool cb sub specs w) (\<lambda>w.
              let w = (case old of None \<Rightarrow> w | Some i \<Rightarrow> w\<lparr>svs := p_sv_setsv E i buffer (svs w)\<rparr>);
                  w = attach_buffers s cb w
              in rbind (deref (writer_buffer (sessions w s))) (\<lambda>b.
                 let w = (if supported_buffer buffer w then w
                          else upd_sv b (sv_pok_update (\<lambda>_. True)) w);
                     w = upd_session s (\<lambda>x. x\<lparr>writer_callback := Some cb, writer_timeout := timeout\<rparr>) w;
                     w = upd_ev (Write_ev c) (ev_handler_update (\<lambda>_. Ngxe_dummy_handler)) w
                 in if start mod 2 = NGXE_START then ngxe_writer_start E c w else Inr w))))"

definition xs_ngxe_writer_buffer_set ::
  "('k, 'm) env \<Rightarrow> slot \<Rightarrow> svid \<Rightarrow> ('k, 'm) world \<Rightarrow> ('k, 'm) world res" where
  "xs_ngxe_writer_buffer_set E c data =
     with_session c (\<lambda>s w.
       case writer_buffer (sessions w s) of
         None \<Rightarrow> Inr w
       | Some b \<Rightarrow>
           let rok = sv_rok (svs w data);
               target = sv_type (svs w (sv_rv (svs w data)));
               set = (\<lambda>w. w\<lparr>svs := p_sv_setsv E b data (svs w)\<rparr>)
           in if rok \<and> target = SVt_PV then
                ngxe_writer_start E c (upd_offset s 0 (set w))
              else if rok \<and> target = SVt_PVAV then
                ngxe_writer_start E c (upd_index s 0 (upd_offset s 0 (set w)))
              else if sv_type (svs w data) = SVt_PV then
                if sv_cur (svs w data) = 0 then Inr w else ngxe_writer_start E c (set w)
              else ngxe_writer_start E c (upd_sv b (sv_pok_update (\<lambda>_. True)) (set w)))"

definition xs_ngxe_reader_start ::
  "('k, 'm) env \<Rightarrow> slot \<Rightarrow> int option \<Rightarrow> ('k, 'm) world \<Rightarrow> ('k, 'm) world res" where
  "xs_ngxe_reader_start E c timeout =
     with_session c (\<lambda>s w. ngxe_reader_start E c
       (case timeout of None \<Rightarrow> w | Some t \<Rightarrow> upd_session s (reader_timeout_update (\<lambda>_. c_int t)) w))"

definition xs_ngxe_writer_start ::
  "('k, 'm) env \<Rightarrow> slot \<Rightarrow> int option \<Rightarrow> ('k, 'm) world \<Rightarrow> ('k, 'm) world res" where
  "xs_ngxe_writer_start E c timeout =
     with_session c (\<lambda>s w. ngxe_writer_start E c
       (case timeout of None \<Rightarrow> w | Some t \<Rightarrow> upd_session s (writer_timeout_update (\<lambda>_. c_int t)) w))"

text \<open>
  \<open>ngxe_reader_timeout\<close> and \<open>ngxe_writer_timeout\<close> return the timeout so far (\<open>None\<close> for
  \<open>undef\<close>) and set the new one if there is a second argument.
\<close>

definition xs_ngxe_reader_timeout ::
  "slot \<Rightarrow> int option \<Rightarrow> ('k, 'm) world \<Rightarrow> (int option \<times> ('k, 'm) world) res" where
  "xs_ngxe_reader_timeout c timeout w =
     (if c_pool (conns w c) = None then Inr (None, w)
      else rbind (session_of c w) (\<lambda>sp. case sp of
          None \<Rightarrow> Inr (None, w)
        | Some s \<Rightarrow> Inr (Some (reader_timeout (sessions w s)),
            case timeout of None \<Rightarrow> w | Some t \<Rightarrow> upd_session s (reader_timeout_update (\<lambda>_. c_int t)) w)))"

definition xs_ngxe_writer_timeout ::
  "slot \<Rightarrow> int option \<Rightarrow> ('k, 'm) world \<Rightarrow> (int option \<times> ('k, 'm) world) res" where
  "xs_ngxe_writer_timeout c timeout w =
     (if c_pool (conns w c) = None then Inr (None, w)
      else rbind (session_of c w) (\<lambda>sp. case sp of
          None \<Rightarrow> Inr (None, w)
        | Some s \<Rightarrow> Inr (Some (writer_timeout (sessions w s)),
            case timeout of None \<Rightarrow> w | Some t \<Rightarrow> upd_session s (writer_timeout_update (\<lambda>_. c_int t)) w)))"

text \<open>These two have no check of the session: both start functions dereference it.\<close>

definition xs_ngxe_reader_stop_writer_start ::
  "('k, 'm) env \<Rightarrow> slot \<Rightarrow> ('k, 'm) world \<Rightarrow> ('k, 'm) world res" where
  "xs_ngxe_reader_stop_writer_start E c w = rbind (ngxe_reader_stop c w) (ngxe_writer_start E c)"

definition xs_ngxe_writer_stop_reader_start ::
  "('k, 'm) env \<Rightarrow> slot \<Rightarrow> ('k, 'm) world \<Rightarrow> ('k, 'm) world res" where
  "xs_ngxe_writer_stop_reader_start E c w = rbind (ngxe_writer_stop c w) (ngxe_reader_start E c)"

section \<open>Clients for Perl code\<close>

text \<open>
  A local address as text: an empty text and one that begins with \<open>*\<close> stand for any address.
  \<open>None\<close> is the case in which the operations warn and return \<open>undef\<close>.
\<close>

definition local_address :: "string \<Rightarrow> in_addr option" where
  "local_address text =
     (if text = [] \<or> hd text = CHR ''*'' then Some INADDR_ANY
      else
        let a = ngx_inet_addr text in
        if a = INADDR_NONE then None else Some a)"

text \<open>
  \<open>client_open\<close> is \<open>ngxe_client\<close> after the addresses are parsed. The result is the slot of the
  new connection, or \<open>None\<close> for \<open>undef\<close>; \<open>namelen\<close> is the length of the address as text.
\<close>

definition client_failed ::
  "('k, 'm) env \<Rightarrow> addr option \<Rightarrow> addr \<Rightarrow> slot option \<Rightarrow> string \<Rightarrow> ('k, 'm) world
     \<Rightarrow> (slot option \<times> ('k, 'm) world) res" where
  "client_failed E pool cb conn msg w =
     rbind (set_error E cb (- 1) msg w) (\<lambda>w.
     rbind (ngxe_callback E cb True w) (\<lambda>w.
     rbind (case conn of None \<Rightarrow> Inr w | Some c \<Rightarrow> ngx_close_connection E c w) (\<lambda>w.
     rbind (destroy_pool E pool w) (\<lambda>w. Inr (None, w)))))"

definition client_connected ::
  "('k, 'm) env \<Rightarrow> addr option \<Rightarrow> addr \<Rightarrow> slot \<Rightarrow> bool \<Rightarrow> int \<Rightarrow> ('k, 'm) world
     \<Rightarrow> (slot option \<times> ('k, 'm) world) res" where
  "client_connected E pool cb c connected timeout w =
     (let w = upd_conn c (c_pool_update (\<lambda>_. pool)) w in
      rbind (nth_arg cb 0 w) (\<lambda>a0.
      let w = upd_sv a0 (p_sv_setiv E (int c)) w in
      rbind (pool_alloc E pool ngx_palloc sizeof_ngxe_session_t w) (\<lambda>(sp, w).
      case sp of
        None \<Rightarrow>
          rbind (fail_connection E c cb (- 1) ''Cannot allocate memory for session'' w)
            (\<lambda>w. Inr (None, w))
      | Some s \<Rightarrow>
          let w = upd_session s (\<lambda>_. zero_session\<lparr>writer_callback := Some cb, writer_timeout := timeout\<rparr>) w;
              w = upd_conn c (c_data_update (\<lambda>_. Data_session s)) w;
              w = upd_ev (Write_ev c) (ev_handler_update (\<lambda>_. Ngxe_client_init_handler)) w;
              w = upd_ev (Read_ev c) (ev_handler_update (\<lambda>_. Ngxe_client_init_handler)) w
          in rbind (if connected then ngxe_client_init_handler E (Write_ev c) w
                    else ngx_event_add_timer (Write_ev c) (word_of_int timeout) w) (\<lambda>w.
               Inr (Some c, w)))))"

definition client_open ::
  "('k, 'm) env \<Rightarrow> in_addr \<Rightarrow> in_addr \<Rightarrow> nat \<Rightarrow> 16 word \<Rightarrow> int \<Rightarrow> svid \<Rightarrow> svid list \<Rightarrow> ('k, 'm) world
     \<Rightarrow> (slot option \<times> ('k, 'm) world) res" where
  "client_open E bindaddr a namelen port timeout sub as w =
     (case create_pool E 1024 w of
        (None, w) \<Rightarrow> Inr (None, w)
      | (Some p, w) \<Rightarrow>
          let give_up = (\<lambda>w. rbind (destroy_pool E (Some p) w) (\<lambda>w. Inr (None, w))) in
          rbind (ngxe_create_peer E (Some p) bindaddr a port w) (\<lambda>(pr, w).
          case pr of
            None \<Rightarrow> give_up w
          | Some pc \<Rightarrow>
              rbind (alloc_callback_cleanup E (Some p) w) (\<lambda>(cbp, w).
              case cbp of
                None \<Rightarrow> give_up w
              | Some cb \<Rightarrow>
                  rbind (fill_callback E (Some p) cb sub
                    ([Fresh (SvIOK_only (p_newSViv E 0)), Fresh (SvIOK_only (p_newSViv E 0))] @ user_args E as w) w) (\<lambda>w.
                  rbind (pool_alloc E (Some p) ngx_pnalloc (of_nat namelen) w) (\<lambda>(nm, w).
                  if nm = None then
                    client_failed E (Some p) cb None ''Failed to allocate memory for peer->name->data'' w
                  else
                    case ngx_event_connect_peer E pc w of (rc, pc, w) \<Rightarrow>
                    if rc \<in> {NGX_ERROR, NGX_BUSY, NGX_DECLINED} then
                      client_failed E (Some p) cb (pr_connection pc) ''Connection failed'' w
                    else
                      case pr_connection pc of
                        None \<Rightarrow> client_failed E (Some p) cb None ''Connection error'' w
                      | Some c \<Rightarrow> client_connected E (Some p) cb c (rc = NGX_OK) timeout w)))))"

definition xs_ngxe_client ::
  "('k, 'm) env \<Rightarrow> string \<Rightarrow> string \<Rightarrow> int \<Rightarrow> int \<Rightarrow> svid \<Rightarrow> svid list \<Rightarrow> ('k, 'm) world
     \<Rightarrow> (slot option \<times> ('k, 'm) world) res" where
  "xs_ngxe_client E bind_address address port timeout sub as w =
     (case local_address bind_address of
        None \<Rightarrow> Inr (None, w)
      | Some bind_inaddr \<Rightarrow>
          let inaddr = ngx_inet_addr address in
          if inaddr = INADDR_NONE then Inr (None, w)
          else client_open E bind_inaddr inaddr (length address) (word_of_int port) timeout sub as w)"

section \<open>Servers for Perl code\<close>

text \<open>\<open>server_callback\<close> is the second half of \<open>ngxe_server\<close>, \<open>server_open\<close> all of it after the
  address is parsed.\<close>

definition server_callback ::
  "('k, 'm) env \<Rightarrow> slot \<Rightarrow> svid \<Rightarrow> svid list \<Rightarrow> ('k, 'm) world \<Rightarrow> (slot option \<times> ('k, 'm) world) res" where
  "server_callback E c sub as w =
     (let pool = c_pool (conns w c) in
      rbind (alloc_callback_cleanup E pool w) (\<lambda>(cbp, w).
      case cbp of
        None \<Rightarrow> Inr (None, w)
      | Some cb \<Rightarrow>
          rbind (fill_callback E pool cb sub
            ([Fresh (SvIOK_only (p_newSViv E (int c))), Fresh (SvPOK_only (p_newSV E 56))]
               @ user_args E as w) w) (\<lambda>w.
            Inr (Some c, upd_conn c (c_data_update (\<lambda>_. Data_callback cb)) w))))"

definition server_open ::
  "('k, 'm) env \<Rightarrow> in_addr \<Rightarrow> 16 word \<Rightarrow> svid \<Rightarrow> svid list \<Rightarrow> ('k, 'm) world
     \<Rightarrow> (slot option \<times> ('k, 'm) world) res" where
  "server_open E a port sub as w =
     rbind (ngxe_server_create E a port w) (\<lambda>(l, w).
     case l of
       None \<Rightarrow> Inr (None, w)
     | Some l \<Rightarrow>
         (case ls_connection (listenings w l) of
            None \<Rightarrow> Inr (None, w)
          | Some c \<Rightarrow> server_callback E c sub as w))"

definition xs_ngxe_server ::
  "('k, 'm) env \<Rightarrow> string \<Rightarrow> int \<Rightarrow> svid \<Rightarrow> svid list \<Rightarrow> ('k, 'm) world
     \<Rightarrow> (slot option \<times> ('k, 'm) world) res" where
  "xs_ngxe_server E address port sub as w =
     (case local_address address of
        None \<Rightarrow> Inr (None, w)
      | Some inaddr \<Rightarrow> server_open E inaddr (word_of_int port) sub as w)"

section \<open>Scripts\<close>

datatype action =
    Act_close slot
  | Act_reader_start slot "int option"
  | Act_reader_stop slot
  | Act_writer_start slot "int option"
  | Act_writer_stop slot
  | Act_reader_timeout slot "int option"
  | Act_writer_timeout slot "int option"
  | Act_reader_stop_writer_start slot
  | Act_writer_stop_reader_start slot
  | Act_reader slot int int svid "svid list"
  | Act_writer slot int int svid svid "svid list"
  | Act_writer_put slot svid
  | Act_timeout_set int svid "svid list"
  | Act_interval_set int svid "svid list"
  | Act_timer_clear addr
  | Act_client string string int int svid "svid list"
  | Act_server string int svid "svid list"
  | Act_assign svid sv     \<comment> \<open>Perl code stores a value in one of its variables\<close>

definition assign_sv :: "svid \<Rightarrow> sv \<Rightarrow> ('k, 'm) world \<Rightarrow> ('k, 'm) world" where
  "assign_sv i v = upd_sv i (\<lambda>old. v\<lparr>sv_refcnt := sv_refcnt old\<rparr>)"

text \<open>
  A connection that Perl code was given is one with a session, or one that has been
  closed since and whose slot no timer or listening socket has taken; any other pointer is
  outside the contract of the operations.
\<close>

definition valid_handle :: "slot \<Rightarrow> ('k, 'm) world \<Rightarrow> bool" where
  "valid_handle c w \<longleftrightarrow> c < connection_n w \<and>
     (case c_data (conns w c) of
        Data_session s \<Rightarrow> True
      | Data_interval a \<Rightarrow> False
      | Data_callback a \<Rightarrow> False
      | _ \<Rightarrow> c_destroyed (conns w c))"

definition on_handle ::
  "slot \<Rightarrow> (('k, 'm) world \<Rightarrow> ('k, 'm) world res) \<Rightarrow> ('k, 'm) world \<Rightarrow> ('k, 'm) world res" where
  "on_handle c f w = (if valid_handle c w then f w else Inl Bad_handle)"

definition perl_action :: "('k, 'm) env \<Rightarrow> action \<Rightarrow> ('k, 'm) world \<Rightarrow> ('k, 'm) world res" where
  "perl_action E a =
     (case a of
        Act_close c \<Rightarrow> on_handle c (ngxe_close E c)
      | Act_reader_start c t \<Rightarrow> on_handle c (xs_ngxe_reader_start E c t)
      | Act_reader_stop c \<Rightarrow> on_handle c (ngxe_reader_stop c)
      | Act_writer_start c t \<Rightarrow> on_handle c (xs_ngxe_writer_start E c t)
      | Act_writer_stop c \<Rightarrow> on_handle c (ngxe_writer_stop c)
      | Act_reader_timeout c t \<Rightarrow>
          on_handle c (\<lambda>w. rbind (xs_ngxe_reader_timeout c t w) (\<lambda>(r, w). Inr w))
      | Act_writer_timeout c t \<Rightarrow>
          on_handle c (\<lambda>w. rbind (xs_ngxe_writer_timeout c t w) (\<lambda>(r, w). Inr w))
      | Act_reader_stop_writer_start c \<Rightarrow> on_handle c (xs_ngxe_reader_stop_writer_start E c)
      | Act_writer_stop_reader_start c \<Rightarrow> on_handle c (xs_ngxe_writer_stop_reader_start E c)
      | Act_reader c start t sub as \<Rightarrow> on_handle c (xs_ngxe_reader E 4080 c start t sub as)
      | Act_writer c start t b sub as \<Rightarrow> on_handle c (xs_ngxe_writer E 4080 c start t b sub as)
      | Act_writer_put c d \<Rightarrow> on_handle c (xs_ngxe_writer_buffer_set E c d)
      | Act_timeout_set t sub as \<Rightarrow>
          (\<lambda>w. rbind (ngxe_timer_set E Ngxe_timeout_callback t sub as w) (\<lambda>(r, w). Inr w))
      | Act_interval_set t sub as \<Rightarrow>
          (\<lambda>w. rbind (ngxe_timer_set E Ngxe_interval_callback t sub as w) (\<lambda>(r, w). Inr w))
      | Act_timer_clear iv \<Rightarrow> ngxe_timer_clear E iv
      | Act_client b a port t sub as \<Rightarrow>
          (\<lambda>w. rbind (xs_ngxe_client E b a port t sub as w) (\<lambda>(r, w). Inr w))
      | Act_server a port sub as \<Rightarrow>
          (\<lambda>w. rbind (xs_ngxe_server E a port sub as w) (\<lambda>(r, w). Inr w))
      | Act_assign i v \<Rightarrow> (\<lambda>w. Inr (assign_sv i v w)))"

fun perl_run :: "('k, 'm) env \<Rightarrow> action list \<Rightarrow> ('k, 'm) world \<Rightarrow> ('k, 'm) world res" where
  "perl_run E [] w = Inr w"
| "perl_run E (a # as) w = rbind (perl_action E a w) (perl_run E as)"

text \<open>
  \<open>script h args w\<close> is what the Perl function \<open>h\<close> does when it is called with \<open>args\<close> in the
  world \<open>w\<close>. An action of a script may call back into Perl; \<open>script_call\<close> bounds the depth of
  such calls.
\<close>

type_synonym ('k, 'm) script = "svid \<Rightarrow> svid list \<Rightarrow> ('k, 'm) world \<Rightarrow> action list"

fun script_call ::
  "nat \<Rightarrow> ('k, 'm) env \<Rightarrow> ('k, 'm) script \<Rightarrow> svid \<Rightarrow> svid list \<Rightarrow> ('k, 'm) world \<Rightarrow> ('k, 'm) world res" where
  "script_call 0 E sc h args w = Inl Out_of_fuel"
| "script_call (Suc n) E sc h args w =
     perl_run (E\<lparr>p_call_sv := script_call n E sc, native_call := (\<lambda>h c w. Inr w)\<rparr>) (sc h args w) w"

text \<open>No source sets \<open>native_handler\<close>, so a native call does nothing here.\<close>

definition script_env :: "nat \<Rightarrow> ('k, 'm) env \<Rightarrow> ('k, 'm) script \<Rightarrow> ('k, 'm) env" where
  "script_env n E sc = E\<lparr>p_call_sv := script_call n E sc, native_call := (\<lambda>h c w. Inr w)\<rparr>"

end
