(* ===== verification/Ngx_Loop.thy ===== *)
theory Ngx_Loop
  imports Ngxe_Api
begin

text \<open>
  The event loop: \<open>ngx_epoll_process_events\<close> of \<open>ngx_epoll_module.c\<close>,
  \<open>ngx_process_events_and_timers\<close> of \<open>ngx_event.c\<close> and \<open>ngxe_loop\<close> of \<open>Engine.xs\<close>. The engine
  runs a single process, so there is no accept mutex, and \<open>ngx_timer_resolution\<close> is 0.
\<close>

definition run_handler :: "('k, 'm) env \<Rightarrow> evref \<Rightarrow> ('k, 'm) world \<Rightarrow> ('k, 'm) world res" where
  "run_handler E e w =
     (case ev_handler (get_ev e w) of
        No_handler \<Rightarrow> Inl Null_deref
      | Ngxe_dummy_handler \<Rightarrow> Inr w
      | Ngxe_reader_handler \<Rightarrow> ngxe_reader_handler E e w
      | Ngxe_writer_handler \<Rightarrow> ngxe_writer_handler E e w
      | Ngxe_client_init_handler \<Rightarrow> ngxe_client_init_handler E e w
      | Ngxe_interval_callback \<Rightarrow> ngxe_interval_callback E e w
      | Ngxe_timeout_callback \<Rightarrow> ngxe_timeout_callback E e w
      | Ngx_event_accept \<Rightarrow> ngx_event_accept E e w)"

text \<open>One entry of \<open>event_list\<close>; \<open>post\<close> is the flag \<open>NGX_POST_EVENTS\<close>.\<close>

definition deliver :: "('k, 'm) env \<Rightarrow> bool \<Rightarrow> evref \<Rightarrow> ('k, 'm) world \<Rightarrow> ('k, 'm) world res" where
  "deliver E post_events e w =
     (let w = upd_ev e (ev_ready_update (\<lambda>_. True)) w in
      if post_events then
        Inr (ngx_locked_post_event (case e of Read_ev c \<Rightarrow> ev_accept (get_ev e w) | _ \<Rightarrow> False) e w)
      else run_handler E e w)"

definition process_event ::
  "('k, 'm) env \<Rightarrow> bool \<Rightarrow> epoll_mask \<times> slot \<times> bool \<Rightarrow> ('k, 'm) world \<Rightarrow> ('k, 'm) world res" where
  "process_event E post_events = (\<lambda>(events, c, inst) w.
     if c_fd (conns w c) = - 1 \<or> ev_instance (c_read (conns w c)) \<noteq> inst then Inr w
     else
       let revents = (if events AND (EPOLLERR OR EPOLLHUP) \<noteq> 0 \<and> events AND (EPOLLIN OR EPOLLOUT) = 0
                      then events OR EPOLLIN OR EPOLLOUT else events)
       in rbind (if revents AND EPOLLIN \<noteq> 0 \<and> ev_active (c_read (conns w c))
                 then deliver E post_events (Read_ev c) w else Inr w) (\<lambda>w.
          if revents AND EPOLLOUT \<noteq> 0 \<and> ev_active (c_write (conns w c))
          then deliver E post_events (Write_ev c) w else Inr w))"

fun process_event_list ::
  "('k, 'm) env \<Rightarrow> bool \<Rightarrow> (epoll_mask \<times> slot \<times> bool) list \<Rightarrow> ('k, 'm) world \<Rightarrow> ('k, 'm) world res" where
  "process_event_list E post_events [] w = Inr w"
| "process_event_list E post_events (e # es) w =
     rbind (process_event E post_events e w) (process_event_list E post_events es)"

text \<open>The parameter of \<open>epoll_wait\<close> is an \<open>int\<close>. \<open>os_epoll_wait\<close> also gives the time that \<open>ngx_time_update\<close> reads afterwards.\<close>

definition ngx_epoll_process_events ::
  "('k, 'm) env \<Rightarrow> msec \<Rightarrow> bool \<Rightarrow> ('k, 'm) world \<Rightarrow> (ngx_rc \<times> ('k, 'm) world) res" where
  "ngx_epoll_process_events E timer post_events w =
     (case os_epoll_wait E (c_int (uint timer)) (kernel w) of (r, now, k) \<Rightarrow>
      let w = w\<lparr>kernel := k, current_msec := now\<rparr> in
      case r of
        Inl err \<Rightarrow> Inr (NGX_ERROR, w)
      | Inr [] \<Rightarrow> Inr (if timer \<noteq> NGX_TIMER_INFINITE then NGX_OK else NGX_ERROR, w)
      | Inr es \<Rightarrow> rbind (process_event_list E post_events es w) (\<lambda>w. Inr (NGX_OK, w)))"

definition ngx_process_events_and_timers ::
  "('k, 'm) env \<Rightarrow> ('k, 'm) world \<Rightarrow> ('k, 'm) world res" where
  "ngx_process_events_and_timers E w =
     (let timer = ngx_event_find_timer w;
          before = current_msec w
      in rbind (ngx_epoll_process_events E timer False w) (\<lambda>(rc, w).
         let delta = current_msec w - before in
         rbind (if posted_accept_events w \<noteq> []
                then ngx_event_process_posted (loop_fuel E) True (run_handler E) w else Inr w) (\<lambda>w.
         rbind (if delta \<noteq> 0
                then ngx_event_expire_timers (loop_fuel E) (run_handler E) w else Inr w) (\<lambda>w.
         if posted_events w \<noteq> []
         then ngx_event_process_posted (loop_fuel E) False (run_handler E) w else Inr w))))"

text \<open>\<open>n\<close> turns of the loop of \<open>ngxe_loop\<close>\<close>

fun ngxe_loop :: "nat \<Rightarrow> ('k, 'm) env \<Rightarrow> ('k, 'm) world \<Rightarrow> ('k, 'm) world res" where
  "ngxe_loop 0 E w = Inr w"
| "ngxe_loop (Suc n) E w = rbind (ngx_process_events_and_timers E w) (ngxe_loop n E)"

end
