(* ===== verification/Ngxe_Invariant.thy ===== *)
theory Ngxe_Invariant
  imports Ngx_Loop
begin

text \<open>
  The invariant of the connection slots and of the timers, and that the handlers keep it,
  whatever the Perl callbacks do.
\<close>

section \<open>The part of the world the invariant depends on\<close>

definition skel :: "('k, 'm) world \<Rightarrow> (slot \<Rightarrow> cdata \<times> bool \<times> bool \<times> msec \<times> bool \<times> msec) \<times>
    nat \<times> slot option \<times> int \<times> (evref \<times> msec) list" where
  "skel w = (\<lambda>c. (c_data (conns w c), c_destroyed (conns w c),
       ev_timer_set (c_read (conns w c)), ev_timer_key (c_read (conns w c)),
       ev_timer_set (c_write (conns w c)), ev_timer_key (c_write (conns w c))),
     connection_n w, free_connections w, free_connection_n w, timers w)"

lemma skel_eqD:
  assumes "skel w' = skel w"
  shows "c_data (conns w' c) = c_data (conns w c)" "c_destroyed (conns w' c) = c_destroyed (conns w c)"
    "ev_timer_set (get_ev e w') = ev_timer_set (get_ev e w)"
    "ev_timer_key (get_ev e w') = ev_timer_key (get_ev e w)"
    "connection_n w' = connection_n w" "free_connections w' = free_connections w"
    "free_connection_n w' = free_connection_n w" "timers w' = timers w"
  using assms by (cases e; auto simp: skel_def fun_eq_iff)+

lemma skel_upd_conn:
  assumes "c_data (f (conns w c)) = c_data (conns w c)"
    "c_destroyed (f (conns w c)) = c_destroyed (conns w c)"
    "ev_timer_set (c_read (f (conns w c))) = ev_timer_set (c_read (conns w c))"
    "ev_timer_key (c_read (f (conns w c))) = ev_timer_key (c_read (conns w c))"
    "ev_timer_set (c_write (f (conns w c))) = ev_timer_set (c_write (conns w c))"
    "ev_timer_key (c_write (f (conns w c))) = ev_timer_key (c_write (conns w c))"
  shows "skel (upd_conn c f w) = skel w"
  using assms by (simp add: skel_def upd_conn_def fun_eq_iff)

lemma skel_upd_ev:
  assumes "ev_timer_set (f (get_ev e w)) = ev_timer_set (get_ev e w)"
    "ev_timer_key (f (get_ev e w)) = ev_timer_key (get_ev e w)"
  shows "skel (upd_ev e f w) = skel w"
  using assms by (cases e) (auto intro: skel_upd_conn)

lemma skel_frame [simp]:
  "skel (w\<lparr>kernel := k\<rparr>) = skel w" "skel (w\<lparr>mst := m\<rparr>) = skel w" "skel (w\<lparr>svs := x\<rparr>) = skel w"
  "skel (w\<lparr>sv_next := y\<rparr>) = skel w" "skel (w\<lparr>tmps := z\<rparr>) = skel w"
  "skel (w\<lparr>callbacks := b\<rparr>) = skel w" "skel (w\<lparr>sessions := s\<rparr>) = skel w"
  "skel (w\<lparr>intervals := i\<rparr>) = skel w" "skel (w\<lparr>listenings := l\<rparr>) = skel w"
  "skel (w\<lparr>pools := p\<rparr>) = skel w" "skel (w\<lparr>received := r\<rparr>) = skel w"
  "skel (w\<lparr>transmitted := t\<rparr>) = skel w" "skel (w\<lparr>stale_reads := a\<rparr>) = skel w"
  "skel (w\<lparr>posted_events := q\<rparr>) = skel w" "skel (w\<lparr>posted_accept_events := q\<rparr>) = skel w"
  "skel (w\<lparr>current_msec := t'\<rparr>) = skel w"
  by (simp_all add: skel_def)

lemma skel_upd_frame [simp]:
  "skel (upd_sv j f w) = skel w" "skel (upd_cb b g w) = skel w" "skel (upd_session s h w) = skel w"
  "skel (upd_listening l k w) = skel w" "skel (upd_offset s n w) = skel w" "skel (upd_index s n w) = skel w"
  "skel (SvREFCNT_inc j w) = skel w" "skel (SvREFCNT_dec j w) = skel w"
  "skel (sv_2mortal j w) = skel w" "skel (dec_option o' w) = skel w" "skel (note_stale b w) = skel w"
  by (simp_all add: upd_sv_def upd_cb_def upd_session_def upd_listening_def upd_offset_def upd_index_def
      SvREFCNT_inc_def SvREFCNT_dec_def sv_2mortal_def dec_option_def note_stale_def split: option.split)

lemma skel_ev_frame [simp]:
  "skel (upd_ev e (ev_handler_update f) w) = skel w"
  "skel (upd_ev e (ev_ready_update b1) w) = skel w"
  "skel (upd_ev e (ev_active_update b1) w) = skel w"
  "skel (upd_ev e (ev_posted_update b1) w) = skel w"
  "skel (upd_conn c (c_pool_update g) w) = skel w"
  "skel (upd_conn c (c_fd_update g') w) = skel w"
  "skel (upd_conn c (c_timedout_update g'') w) = skel w"
  "skel (upd_conn c (c_listening_update l) w) = skel w"
  "skel (upd_conn c (c_addr_text_update t) w) = skel w"
  "skel (upd_conn c (c_log_error_update t') w) = skel w"
  by (auto intro!: skel_upd_ev skel_upd_conn)

lemma skel_fold [simp]:
  "skel (fold SvREFCNT_inc xs w) = skel w" "skel (fold SvREFCNT_dec xs w) = skel w"
  by (induction xs arbitrary: w) simp_all

lemma skel_perl [simp]:
  "skel (free_tmps k w) = skel w" "skel (ngxe_callback_dec cb w) = skel w"
  "skel (ngxe_callback_cleanup cb w) = skel w" "skel (ngxe_buffree i w) = skel w"
  "skel (run_cleanup h d w) = skel w" "skel (assign_sv i v w) = skel w"
  "skel (snd (new_sv v w)) = skel w"
  by (simp_all add: free_tmps_def ngxe_callback_dec_def ngxe_callback_cleanup_def ngxe_buffree_def
      run_cleanup_def ngxe_buf_cleanup_def assign_sv_def new_sv_def Let_def split: cleanup.split)

lemma skel_run_cleanups [simp]: "skel (run_cleanups run_cleanup cs w) = skel w"
  by (induction cs arbitrary: w) (simp_all split: option.split)

lemma same_destroy_pool: "post (\<lambda>w'. skel w' = skel w) (destroy_pool E p w)"
  by (auto simp: destroy_pool_def ngx_destroy_pool_def split: option.split)

lemma same_pool_alloc: "post (\<lambda>(a, w'). skel w' = skel w) (pool_alloc E p f sz w)"
  by (auto simp: pool_alloc_def split: option.split)

lemma skel_create_pool [simp]: "skel (snd (create_pool E sz w)) = skel w"
  by (auto simp: create_pool_def Let_def split: option.split prod.split)

lemma same_set_error: "post (\<lambda>w'. skel w' = skel w) (set_error E cb n msg w)"
  by (auto simp: set_error_def nth_arg_def Let_def)

lemma skel_epoll_ctl: "epoll_ctl E op c m p w = (r, w') \<Longrightarrow> skel w' = skel w"
  by (auto simp: epoll_ctl_def split: option.splits prod.splits)

lemma skel_epoll_add_event: "ngx_epoll_add_event E e fl w = (r, w') \<Longrightarrow> skel w' = skel w"
  by (auto simp: ngx_epoll_add_event_def Let_def dest!: skel_epoll_ctl
      split: prod.splits ngx_rc.splits if_splits)

lemma skel_handle_event:
  "ngx_handle_read_event E e w = (r, w') \<Longrightarrow> skel w' = skel w"
  "ngx_handle_write_event E e w = (r, w') \<Longrightarrow> skel w' = skel w"
  by (auto simp: ngx_handle_read_event_def ngx_handle_write_event_def dest: skel_epoll_add_event
      split: if_splits)

lemma same_unix_recv: "post (\<lambda>(n, bs, w'). skel w' = skel w) (ngx_unix_recv f E c sz w)"
proof (induction f E c sz w rule: ngx_unix_recv.induct)
  case (1 f E c sz w)
  then show ?case
    by (subst ngx_unix_recv.simps)
       (auto simp: Let_def skel_upd_conn split: prod.split sum.split nat.split)
qed

lemma same_unix_send: "post (\<lambda>(n, w'). skel w' = skel w) (ngx_unix_send f E c buf w)"
proof (induction f E c buf w rule: ngx_unix_send.induct)
  case (1 f E c buf w)
  then show ?case
    by (subst ngx_unix_send.simps)
       (auto simp: Let_def skel_upd_conn split: prod.split sum.split nat.split)
qed

section \<open>The invariant\<close>

text \<open>
  \<open>slots_inv fs w\<close>: the free list consists of the different slots \<open>fs\<close> and
  \<open>free_connection_n\<close> is their number; a timer in the queue belongs to a slot in use, has its
  \<open>timer_set\<close> flag and its key, and an event of a slot in use whose flag is set is in the queue.
\<close>

definition slots_inv :: "slot list \<Rightarrow> ('k, 'm) world \<Rightarrow> bool" where
  "slots_inv fs w \<longleftrightarrow>
     free_path w (free_connections w) fs \<and> distinct fs \<and> set fs \<subseteq> {..<connection_n w} \<and>
     free_connection_n w = int (length fs) \<and> distinct (map fst (timers w)) \<and>
     (\<forall>(e, k)\<in>set (timers w). ev_conn e < connection_n w \<and> ev_conn e \<notin> set fs \<and>
        ev_timer_set (get_ev e w) \<and> ev_timer_key (get_ev e w) = k) \<and>
     (\<forall>e. ev_conn e < connection_n w \<and> ev_conn e \<notin> set fs \<and> ev_timer_set (get_ev e w) \<longrightarrow>
        e \<in> fst ` set (timers w))"

definition slots_ok :: "('k, 'm) world \<Rightarrow> bool" where
  "slots_ok w \<longleftrightarrow> (\<exists>fs. slots_inv fs w)"

definition is_free :: "slot \<Rightarrow> ('k, 'm) world \<Rightarrow> bool" where
  "is_free c w \<longleftrightarrow> (\<exists>fs. free_path w (free_connections w) fs \<and> c \<in> set fs)"

text \<open>A slot a handler may still refer to: it is in use, or \<open>ngxe_close\<close> has freed it.\<close>

definition safe :: "slot \<Rightarrow> ('k, 'm) world \<Rightarrow> bool" where
  "safe c w \<longleftrightarrow> c < connection_n w \<and> (is_free c w \<longrightarrow> c_destroyed (conns w c))"

definition is_interval :: "slot \<Rightarrow> ('k, 'm) world \<Rightarrow> bool" where
  "is_interval c w \<longleftrightarrow> (\<exists>a. c_data (conns w c) = Data_interval a)"

text \<open>
  \<open>evolve X w w'\<close>: what the operations that Perl code can call do to the slots. The
  slots of timers outside \<open>X\<close> are not touched.
\<close>

definition evolve :: "slot set \<Rightarrow> ('k, 'm) world \<Rightarrow> ('k, 'm) world \<Rightarrow> bool" where
  "evolve X w w' \<longleftrightarrow>
     slots_ok w' \<and> connection_n w' = connection_n w \<and> (\<forall>c. safe c w \<longrightarrow> safe c w') \<and>
     (\<forall>c a. c \<notin> X \<longrightarrow> c < connection_n w \<longrightarrow> c_data (conns w c) = Data_interval a \<longrightarrow>
        c_data (conns w' c) = Data_interval a \<and>
        (\<forall>e. ev_conn e = c \<longrightarrow> ev_timer_set (get_ev e w') = ev_timer_set (get_ev e w)))"

lemma free_path_cong:
  "(\<And>c. c \<in> set fs \<Longrightarrow> c_data (conns w' c) = c_data (conns w c)) \<Longrightarrow> free_path w' s fs = free_path w s fs"
  by (induction fs arbitrary: s) simp_all

lemma free_path_unique: "free_path w s fs \<Longrightarrow> free_path w s gs \<Longrightarrow> fs = gs"
proof (induction fs arbitrary: s gs)
  case Nil
  then show ?case by (cases gs) auto
next
  case (Cons c cs)
  then show ?case by (cases gs) auto
qed

lemma free_path_no_data: "free_path w s fs \<Longrightarrow> c \<in> set fs \<Longrightarrow>
  c_data (conns w c) = Data_null \<or> (\<exists>n. c_data (conns w c) = Data_next n)"
  by (induction fs arbitrary: s) auto

lemma is_free_iff: "slots_inv fs w \<Longrightarrow> is_free c w \<longleftrightarrow> c \<in> set fs"
  unfolding is_free_def slots_inv_def by (blast dest: free_path_unique)

lemma slots_inv_cong:
  assumes "skel w' = skel w"
  shows "slots_inv fs w' \<longleftrightarrow> slots_inv fs w"
proof -
  have "free_path w' s fs = free_path w s fs" for s
    by (rule free_path_cong) (rule skel_eqD(1)[OF assms])
  then show ?thesis by (simp only: slots_inv_def skel_eqD[OF assms])
qed

lemma is_free_cong:
  assumes "skel w' = skel w"
  shows "is_free c w' \<longleftrightarrow> is_free c w"
proof -
  have "free_path w' s fs = free_path w s fs" for s fs
    by (rule free_path_cong) (rule skel_eqD(1)[OF assms])
  then show ?thesis by (simp only: is_free_def skel_eqD[OF assms])
qed

lemma slots_ok_cong:
  assumes "skel w' = skel w"
  shows "slots_ok w' \<longleftrightarrow> slots_ok w"
  by (simp only: slots_ok_def slots_inv_cong[OF assms])

lemma safe_cong:
  assumes "skel w' = skel w"
  shows "safe c w' \<longleftrightarrow> safe c w"
  by (simp only: safe_def is_free_cong[OF assms] skel_eqD[OF assms])

lemma evolve_skel:
  assumes "slots_ok w" "skel w' = skel w"
  shows "evolve X w w'"
  using assms(1) by (simp add: evolve_def slots_ok_cong[OF assms(2)] safe_cong[OF assms(2)] skel_eqD[OF assms(2)])

lemma evolve_refl: "slots_ok w \<Longrightarrow> evolve X w w"
  by (rule evolve_skel) simp_all

lemma evolve_trans: "evolve X w w' \<Longrightarrow> evolve X w' w'' \<Longrightarrow> evolve X w w''"
  by (auto simp: evolve_def)

lemma evolve_mono: "evolve X w w' \<Longrightarrow> X \<subseteq> Y \<Longrightarrow> evolve Y w w'"
  by (auto simp: evolve_def)

lemma evolve_any: "evolve {} w w' \<Longrightarrow> evolve X w w'"
  by (auto simp: evolve_def)

lemma evolve_unless: "evolve (insert c X) w w' \<Longrightarrow> \<not> is_interval c w \<Longrightarrow> evolve X w w'"
  by (auto simp: evolve_def is_interval_def)

lemma evolve_slots_ok: "evolve X w w' \<Longrightarrow> slots_ok w'"
  by (simp add: evolve_def)

lemma evolve_safe: "evolve X w w' \<Longrightarrow> safe c w \<Longrightarrow> safe c w'"
  by (simp add: evolve_def)

text \<open>Sequencing: the rules by which the lemmas below follow the code\<close>

lemma evolve_skel_left:
  assumes "skel w' = skel w"
  shows "evolve X w' = evolve X w"
  by (rule ext) (simp add: evolve_def safe_cong[OF assms] skel_eqD[OF assms])

lemma post_evolve_skel: "post (evolve X w') r \<Longrightarrow> skel w' = skel w \<Longrightarrow> post (evolve X w) r"
  using evolve_skel_left[of w' w X] by simp

lemma seq_skel:
  assumes "post (\<lambda>w'. skel w' = skel w) r" "\<And>w'. skel w' = skel w \<Longrightarrow> post (evolve X w') (f w')"
  shows "post (evolve X w) (rbind r f)"
proof (cases r)
  case (Inr w')
  then have s: "skel w' = skel w" using assms(1) by simp
  from post_evolve_skel[OF assms(2)[OF s] s] Inr show ?thesis by simp
qed simp

lemma seq_evolve:
  assumes "post (evolve X w) r" "\<And>w'. evolve X w w' \<Longrightarrow> post (evolve X w') (f w')"
  shows "post (evolve X w) (rbind r f)"
proof (cases r)
  case (Inr w')
  with assms have "evolve X w w'" "post (evolve X w') (f w')" by auto
  with Inr show ?thesis by (auto intro: post_mono evolve_trans)
qed simp

section \<open>Operations on timers and slots\<close>

lemma get_ev_upd_ev [simp]:
  "get_ev e' (upd_ev e f w) = (if e' = e then f (get_ev e w) else get_ev e' w)"
  by (cases e; cases e') (auto simp: upd_conn_def)

lemma conns_upd_ev [simp]:
  "c_data (conns (upd_ev e f w) c) = c_data (conns w c)"
  "c_destroyed (conns (upd_ev e f w) c) = c_destroyed (conns w c)"
  by (cases e; simp add: upd_conn_def)+

lemma world_upd_ev [simp]:
  "connection_n (upd_ev e f w) = connection_n w" "free_connections (upd_ev e f w) = free_connections w"
  "free_connection_n (upd_ev e f w) = free_connection_n w" "timers (upd_ev e f w) = timers w"
  "current_msec (upd_ev e f w) = current_msec w"
  by (cases e; simp add: upd_conn_def)+

lemma get_ev_frame [simp]:
  "get_ev e (w\<lparr>timers := ts\<rparr>) = get_ev e w" "get_ev e (w\<lparr>free_connections := g\<rparr>) = get_ev e w"
  "get_ev e (w\<lparr>free_connection_n := n\<rparr>) = get_ev e w" "get_ev e (w\<lparr>current_msec := t\<rparr>) = get_ev e w"
  by (cases e; simp)+

text \<open>A change of the timers of the event \<open>e\<close> that keeps the free list\<close>

lemma evolve_timer_change:
  assumes inv: "slots_inv fs w" and inv': "slots_inv fs w'"
    and same: "\<And>c. c_data (conns w' c) = c_data (conns w c)"
      "\<And>c. c_destroyed (conns w' c) = c_destroyed (conns w c)"
      "connection_n w' = connection_n w" "free_connections w' = free_connections w"
    and ev: "\<And>e'. e' \<noteq> e \<Longrightarrow> ev_timer_set (get_ev e' w') = ev_timer_set (get_ev e' w)"
    and X: "ev_conn e \<in> X \<or> \<not> is_interval (ev_conn e) w"
  shows "evolve X w w'"
proof -
  have "safe c w' = safe c w" for c
    by (simp only: safe_def is_free_iff[OF inv] is_free_iff[OF inv'] same)
  moreover have "slots_ok w'" using inv' by (auto simp: slots_ok_def)
  moreover have "ev_timer_set (get_ev e' w') = ev_timer_set (get_ev e' w)"
    if "c_data (conns w (ev_conn e')) = Data_interval a" "ev_conn e' \<notin> X" for e' a
    using that X ev[of e'] by (auto simp: is_interval_def)
  ultimately show ?thesis by (auto simp: evolve_def same)
qed

lemma del_timer_evolve:
  assumes "slots_ok w" "ev_conn e \<in> X \<or> \<not> is_interval (ev_conn e) w"
  shows "post (evolve X w) (ngx_event_del_timer e w)"
proof (cases "e \<in> fst ` set (timers w)")
  case True
  let ?w = "upd_ev e (\<lambda>x. x\<lparr>ev_timer_key := 0, ev_timer_set := False\<rparr>) (w\<lparr>timers := timer_delete e (timers w)\<rparr>)"
  obtain fs where inv: "slots_inv fs w" using assms(1) by (auto simp: slots_ok_def)
  have fp: "free_path ?w s fs = free_path w s fs" for s by (rule free_path_cong) simp
  have "slots_inv fs ?w"
    using inv unfolding slots_inv_def fp
    by (auto simp: timer_delete_def distinct_map_filter)
  then have "evolve X w ?w"
    by (rule evolve_timer_change[OF inv, where e = e]) (use assms(2) in auto)
  then show ?thesis using True by (simp add: ngx_event_del_timer_def)
qed (simp add: ngx_event_del_timer_def)

lemma distinct_timer_insert:
  "distinct (map fst (timer_insert e k ts)) \<longleftrightarrow> e \<notin> fst ` set ts \<and> distinct (map fst ts)"
  by (induction e k ts rule: timer_insert.induct) auto

lemma add_timer_evolve:
  assumes "slots_ok w" "ev_conn e \<in> X \<or> \<not> is_interval (ev_conn e) w"
    and used: "ev_conn e < connection_n w" "\<not> is_free (ev_conn e) w"
  shows "post (evolve X w) (ngx_event_add_timer e t w)"
proof -
  let ?key = "\<lambda>w. current_msec w + t"
  let ?add = "\<lambda>key w. upd_ev e (\<lambda>x. x\<lparr>ev_timer_key := key, ev_timer_set := True\<rparr>)
                   (w\<lparr>timers := timer_insert e key (timers w)\<rparr>)"
  have add: "evolve X w (?add key w)"
    if w: "slots_ok w" "\<not> ev_timer_set (get_ev e w)" "ev_conn e < connection_n w" "\<not> is_free (ev_conn e) w"
      "ev_conn e \<in> X \<or> \<not> is_interval (ev_conn e) w" for key and w :: "('a, 'b) world"
  proof -
    obtain fs where inv: "slots_inv fs w" using w(1) by (auto simp: slots_ok_def)
    have fp: "free_path (?add key w) s fs = free_path w s fs" for s by (rule free_path_cong) simp
    have "e \<notin> fst ` set (timers w)" using inv w(2) by (auto simp: slots_inv_def)
    then have "slots_inv fs (?add key w)"
      using inv w(3,4) is_free_iff[OF inv] unfolding slots_inv_def fp
      by (fastforce simp: distinct_timer_insert)
    then show ?thesis by (rule evolve_timer_change[OF inv, where e = e]) (use w(5) in auto)
  qed
  have del: "post (evolve X w) (rbind (ngx_event_del_timer e w) (\<lambda>w. Inr (?add key w)))" for key
  proof (cases "ngx_event_del_timer e w")
    case (Inr w')
    then have ev: "evolve X w w'" using del_timer_evolve[OF assms(1,2)] by simp
    have w': "w' = upd_ev e (\<lambda>x. x\<lparr>ev_timer_key := 0, ev_timer_set := False\<rparr>) (w\<lparr>timers := timer_delete e (timers w)\<rparr>)"
      using Inr by (auto simp: ngx_event_del_timer_def split: if_splits)
    obtain fs where inv: "slots_inv fs w" using assms(1) by (auto simp: slots_ok_def)
    have "is_free (ev_conn e) w' = is_free (ev_conn e) w"
      unfolding is_free_def w' using free_path_cong[of _ w' w] by (auto simp: w')
    then have "evolve X w' (?add key w')"
      using ev used assms(2) by (intro add) (auto simp: w' evolve_def is_interval_def)
    then show ?thesis using Inr evolve_trans[OF ev] by simp
  qed simp
  show ?thesis
    using add[OF assms(1) _ used assms(2)] del evolve_refl[OF assms(1)]
    by (auto simp: ngx_event_add_timer_def Let_def)
qed

lemma get_connection_evolve:
  assumes "slots_ok w" "ngx_get_connection s w = (Some c, w')"
  shows "evolve X w w'" "c < connection_n w" "\<not> is_free c w'" "c_data (conns w' c) = Data_null"
    "\<not> ev_timer_set (c_read (conns w' c))" "\<not> ev_timer_set (c_write (conns w' c))"
proof -
  obtain fs0 where inv: "slots_inv fs0 w" using assms(1) by (auto simp: slots_ok_def)
  have fc: "free_connections w = Some c"
    and w': "w' = upd_conn c (fresh_connection s) (w\<lparr>free_connections := data_next (c_data (conns w c)),
               free_connection_n := free_connection_n w - 1\<rparr>)"
    using assms(2) by (auto simp: ngx_get_connection_def split: option.splits)
  then obtain fs where fs0: "fs0 = c # fs" using inv by (cases fs0) (auto simp: slots_inv_def)
  have c: "c < connection_n w" "c \<notin> set fs" "distinct fs" "set fs \<subseteq> {..<connection_n w}"
    "free_path w (data_next (c_data (conns w c))) fs" "free_connection_n w = int (length fs) + 1"
    using inv by (auto simp: slots_inv_def fs0)
  have other: "conns w' d = conns w d" if "d \<noteq> c" for d using that by (simp add: w' upd_conn_def)
  have cw: "conns w' c = fresh_connection s (conns w c)" by (simp add: w' upd_conn_def)
  then show data: "c_data (conns w' c) = Data_null"
    and t: "\<not> ev_timer_set (c_read (conns w' c))" "\<not> ev_timer_set (c_write (conns w' c))"
    by (simp_all add: fresh_connection_def Let_def zero_event_def)
  have w'_simps: "connection_n w' = connection_n w" "timers w' = timers w"
    "free_connections w' = data_next (c_data (conns w c))" "free_connection_n w' = int (length fs)"
    using c(6) by (simp_all add: w' upd_conn_def)
  have ev: "ev_conn e \<noteq> c \<Longrightarrow> get_ev e w' = get_ev e w" for e by (cases e) (simp_all add: other)
  have evc: "ev_conn e = c \<Longrightarrow> \<not> ev_timer_set (get_ev e w')" for e using t by (cases e) auto
  have "free_path w' s fs = free_path w s fs" for s
    by (rule free_path_cong) (use c(2) other in metis)
  then have "free_path w' (free_connections w') fs" using c(5) by (simp add: w'_simps)
  moreover have "ev_conn e < connection_n w \<and> ev_conn e \<notin> set fs \<and> ev_timer_set (get_ev e w') \<and>
      ev_timer_key (get_ev e w') = k" if "(e, k) \<in> set (timers w)" for e k
    using inv that ev[of e] by (fastforce simp: slots_inv_def fs0)
  moreover have "e \<in> fst ` set (timers w)"
    if "ev_conn e < connection_n w" "ev_conn e \<notin> set fs" "ev_timer_set (get_ev e w')" for e
  proof -
    have "ev_conn e \<noteq> c" using evc that(3) by blast
    then show ?thesis using inv that ev[of e] by (simp add: slots_inv_def fs0)
  qed
  moreover have "distinct (map fst (timers w))" using inv by (simp add: slots_inv_def)
  ultimately have inv': "slots_inv fs w'" using c(3,4) unfolding slots_inv_def w'_simps by blast
  show "c < connection_n w" by (rule c(1))
  show free: "\<not> is_free c w'" using is_free_iff[OF inv'] c(2) by simp
  have "safe d w \<Longrightarrow> safe d w'" for d
    using is_free_iff[OF inv, of d] is_free_iff[OF inv', of d] c other[of d]
    by (cases "d = c") (auto simp: safe_def w'_simps fs0)
  moreover have "d \<noteq> c" if "c_data (conns w d) = Data_interval a" for d a
    using free_path_no_data[of w "free_connections w" fs0 c] inv that by (auto simp: slots_inv_def fs0)
  ultimately show "evolve X w w'"
    using inv' ev other by (auto simp: evolve_def w'_simps slots_ok_def)
qed

lemma free_connection_evolve:
  assumes "slots_ok w" "c < connection_n w" "\<not> is_free c w"
    and t: "\<not> ev_timer_set (c_read (conns w c))" "\<not> ev_timer_set (c_write (conns w c))"
  shows "slots_ok (ngx_free_connection c w)"
    and "c_destroyed (conns w c) \<Longrightarrow> c \<in> X \<or> \<not> is_interval c w \<Longrightarrow> evolve X w (ngx_free_connection c w)"
proof -
  let ?w = "ngx_free_connection c w"
  obtain fs where inv: "slots_inv fs w" using assms(1) by (auto simp: slots_ok_def)
  have c: "c \<notin> set fs" using assms(3) is_free_iff[OF inv] by simp
  have other: "conns ?w d = conns w d" if "d \<noteq> c" for d
    using that by (simp add: ngx_free_connection_def upd_conn_def)
  have simps: "connection_n ?w = connection_n w" "timers ?w = timers w" "free_connections ?w = Some c"
    "free_connection_n ?w = free_connection_n w + 1" "c_destroyed (conns ?w c) = c_destroyed (conns w c)"
    "data_next (c_data (conns ?w c)) = free_connections w"
    "c_data (conns ?w c) = Data_null \<or> (\<exists>n. c_data (conns ?w c) = Data_next n)"
    by (auto simp: ngx_free_connection_def upd_conn_def data_next_def split: option.split)
  have ev: "ev_timer_set (get_ev e ?w) = ev_timer_set (get_ev e w)"
    "ev_timer_key (get_ev e ?w) = ev_timer_key (get_ev e w)" for e
    by (cases e; simp add: ngx_free_connection_def upd_conn_def)+
  have evc: "ev_conn e = c \<Longrightarrow> \<not> ev_timer_set (get_ev e w)" for e using t by (cases e) auto
  have "free_path ?w s fs = free_path w s fs" for s
    by (rule free_path_cong) (use c other in metis)
  then have "free_path ?w (free_connections w) fs" using inv by (simp add: slots_inv_def)
  then have inv': "slots_inv (c # fs) ?w"
    using inv c assms(2) evc unfolding slots_inv_def simps ev
    by (auto simp: simps)
  then show "slots_ok ?w" by (auto simp: slots_ok_def)
  assume d: "c_destroyed (conns w c)" "c \<in> X \<or> \<not> is_interval c w"
  have "safe d w \<Longrightarrow> safe d ?w" for d
    using is_free_iff[OF inv, of d] is_free_iff[OF inv', of d] other[of d] d(1)
    by (cases "d = c") (auto simp: safe_def simps)
  then show "evolve X w ?w"
    using inv' ev other d(2) unfolding evolve_def simps
    by (auto simp: slots_ok_def is_interval_def) (metis other)+
qed

lemma del_timer_if_set_evolve:
  assumes "slots_ok w" "ev_conn e \<in> X \<or> \<not> is_interval (ev_conn e) w"
  shows "post (\<lambda>w'. evolve X w w' \<and> \<not> ev_timer_set (get_ev e w') \<and>
      (\<forall>e'. e' \<noteq> e \<longrightarrow> ev_timer_set (get_ev e' w') = ev_timer_set (get_ev e' w)) \<and>
      (\<forall>c. is_free c w' = is_free c w \<and> c_data (conns w' c) = c_data (conns w c) \<and>
         c_destroyed (conns w' c) = c_destroyed (conns w c))) (del_timer_if_set e w)"
proof -
  have "is_free c (upd_ev e f (w\<lparr>timers := ts\<rparr>)) = is_free c w" for c f ts
    unfolding is_free_def using free_path_cong[of _ "upd_ev e f (w\<lparr>timers := ts\<rparr>)" w] by auto
  then show ?thesis
    using del_timer_evolve[OF assms] evolve_refl[OF assms(1)]
    by (cases "e \<in> fst ` set (timers w)") (simp_all add: del_timer_if_set_def ngx_event_del_timer_def)
qed

lemma skel_close_steps [simp]:
  "skel (ngx_epoll_del_connection_close c w) = skel w"
  "skel (delete_posted_if e w) = skel w"
  "skel (ngx_close_socket E fd w) = skel w"
  "skel (upd_conn c (\<lambda>x. x\<lparr>c_read := (c_read x)\<lparr>ev_closed := True\<rparr>,
                                   c_write := (c_write x)\<lparr>ev_closed := True\<rparr>\<rparr>) w) = skel w"
  by (simp_all add: ngx_epoll_del_connection_close_def delete_posted_if_def ngx_delete_posted_event_def
      ngx_close_socket_def skel_upd_conn)

lemma set_destroyed_evolve:
  assumes "slots_ok w"
  shows "evolve X w (upd_conn c (c_destroyed_update (\<lambda>_. True)) w)" (is "evolve X w ?w")
proof -
  obtain fs where inv: "slots_inv fs w" using assms by (auto simp: slots_ok_def)
  have d: "c_data (conns ?w d) = c_data (conns w d)" "c_destroyed (conns w d) \<Longrightarrow> c_destroyed (conns ?w d)" for d
    by (simp_all add: upd_conn_def)
  have ev: "get_ev e ?w = get_ev e w" for e by (cases e) (simp_all add: upd_conn_def)
  have w: "connection_n ?w = connection_n w" "free_connections ?w = free_connections w"
    "free_connection_n ?w = free_connection_n w" "timers ?w = timers w" by (simp_all add: upd_conn_def)
  have fp: "free_path ?w s gs = free_path w s gs" for s gs by (rule free_path_cong) (rule d)
  have "slots_inv fs ?w" using inv unfolding slots_inv_def w ev fp .
  moreover have "safe d w \<Longrightarrow> safe d ?w" for d
    using d(2)[of d] unfolding safe_def is_free_def w fp by blast
  ultimately show ?thesis unfolding evolve_def w ev d slots_ok_def by blast
qed

lemma close_connection_evolve:
  assumes ok: "slots_ok w" "c < connection_n w" "\<not> is_free c w" "c_destroyed (conns w c)"
    and X: "c \<in> X \<or> \<not> is_interval c w"
  shows "post (evolve X w) (ngx_close_connection E c w)"
proof (cases "c_fd (conns w c) = - 1")
  case False
  let ?rest = "\<lambda>w. let w = ngx_epoll_del_connection_close c w;
            w = delete_posted_if (Read_ev c) w;
            w = delete_posted_if (Write_ev c) w;
            w = upd_conn c (\<lambda>x. x\<lparr>c_read := (c_read x)\<lparr>ev_closed := True\<rparr>,
                                   c_write := (c_write x)\<lparr>ev_closed := True\<rparr>\<rparr>) w;
            w = ngx_free_connection c w;
            fd = c_fd (conns w c);
            w = upd_conn c (c_fd_update (\<lambda>_. - 1)) w
        in ngx_close_socket E fd w"
  have rest: "evolve X w (?rest w)"
    if w: "slots_ok w" "c < connection_n w" "\<not> is_free c w" "c_destroyed (conns w c)"
      "c \<in> X \<or> \<not> is_interval c w" "\<not> ev_timer_set (get_ev (Read_ev c) w)"
      "\<not> ev_timer_set (get_ev (Write_ev c) w)" for w
  proof -
    define v where "v = upd_conn c (\<lambda>x. x\<lparr>c_read := (c_read x)\<lparr>ev_closed := True\<rparr>,
                                   c_write := (c_write x)\<lparr>ev_closed := True\<rparr>\<rparr>)
      (delete_posted_if (Write_ev c) (delete_posted_if (Read_ev c) (ngx_epoll_del_connection_close c w)))"
    have v: "skel v = skel w" by (simp add: v_def)
    have "evolve X v (ngx_free_connection c v)"
      using w by (intro free_connection_evolve(2))
        (auto simp: slots_ok_cong[OF v] is_free_cong[OF v] is_interval_def skel_eqD[OF v]
           simp flip: get_ev.simps)
    then have e: "evolve X w (ngx_free_connection c v)" by (simp only: evolve_skel_left[OF v])
    moreover have "skel (?rest w) = skel (ngx_free_connection c v)" by (simp add: v_def Let_def)
    ultimately show ?thesis using evolve_trans[OF e evolve_skel[OF evolve_slots_ok[OF e]]] by blast
  qed
  show ?thesis
  proof (cases "del_timer_if_set (Read_ev c) w")
    case (Inr w1)
    have 1: "evolve X w w1" "\<not> ev_timer_set (get_ev (Read_ev c) w1)" "is_free c w1 = is_free c w"
      "c_data (conns w1 c) = c_data (conns w c)" "c_destroyed (conns w1 c) = c_destroyed (conns w c)"
      using del_timer_if_set_evolve[OF ok(1), of "Read_ev c" X] X Inr by auto
    show ?thesis
    proof (cases "del_timer_if_set (Write_ev c) w1")
      case (Inr w2)
      have 2: "evolve X w1 w2" "\<not> ev_timer_set (get_ev (Write_ev c) w2)" "is_free c w2 = is_free c w1"
        "ev_timer_set (get_ev (Read_ev c) w2) = ev_timer_set (get_ev (Read_ev c) w1)"
        "c_data (conns w2 c) = c_data (conns w1 c)" "c_destroyed (conns w2 c) = c_destroyed (conns w1 c)"
        using del_timer_if_set_evolve[OF evolve_slots_ok[OF 1(1)], of "Write_ev c" X] X Inr 1(4)
        by (auto simp: is_interval_def)
      have "evolve X w2 (?rest w2)"
        using 1 2 ok X by (intro rest) (auto simp: evolve_def is_interval_def)
      then have "evolve X w (?rest w2)" using evolve_trans[OF evolve_trans[OF 1(1) 2(1)]] by blast
      then show ?thesis using False \<open>del_timer_if_set (Read_ev c) w = Inr w1\<close> Inr
        by (simp add: ngx_close_connection_def Let_def)
    qed (use False \<open>del_timer_if_set (Read_ev c) w = Inr w1\<close> in \<open>simp add: ngx_close_connection_def\<close>)
  qed (use False in \<open>simp add: ngx_close_connection_def\<close>)
qed (simp add: ngx_close_connection_def evolve_refl[OF ok(1)])

lemma ngxe_close_evolve:
  assumes "slots_ok w" "safe c w" "c \<in> X \<or> \<not> is_interval c w"
  shows "post (evolve X w) (ngxe_close E c w)"
proof (cases "c_destroyed (conns w c)")
  case True
  then show ?thesis using evolve_refl[OF assms(1)] by (simp add: ngxe_close_def)
next
  case False
  let ?w = "upd_conn c (c_destroyed_update (\<lambda>_. True)) w"
  have ev: "evolve X w ?w" by (rule set_destroyed_evolve[OF assms(1)])
  have "is_free c ?w = is_free c w"
    unfolding is_free_def using free_path_cong[of _ ?w w] by (simp add: upd_conn_def)
  then have "post (evolve X ?w) (ngx_close_connection E c ?w)"
    using assms(2,3) False evolve_slots_ok[OF ev]
    by (intro close_connection_evolve) (auto simp: safe_def upd_conn_def is_interval_def)
  then have "post (evolve X ?w) (rbind (ngx_close_connection E c ?w) (destroy_pool E (c_pool (conns ?w c))))"
    by (rule seq_evolve) (auto intro: post_mono[OF same_destroy_pool] evolve_skel evolve_slots_ok)
  then show ?thesis using False evolve_trans[OF ev]
    by (auto simp: ngxe_close_def Let_def intro: post_mono)
qed

section \<open>Handlers\<close>

definition used :: "slot \<Rightarrow> ('k, 'm) world \<Rightarrow> bool" where
  "used c w \<longleftrightarrow> c < connection_n w \<and> \<not> is_free c w"

lemma used_cong: "skel w' = skel w \<Longrightarrow> used c w' \<longleftrightarrow> used c w"
  by (simp add: used_def is_free_cong[of w' w] skel_eqD(5)[of w' w])

lemma used_safe: "used c w \<Longrightarrow> safe c w"
  by (simp add: used_def safe_def)

lemma safe_used: "safe c w \<Longrightarrow> \<not> c_destroyed (conns w c) \<Longrightarrow> used c w"
  by (auto simp: used_def safe_def)

lemma session_used:
  assumes "slots_ok w" "c < connection_n w" "session_of c w = Inr (Some s)"
  shows "used c w" "\<not> is_interval c w"
proof -
  obtain fs where inv: "slots_inv fs w" using assms(1) by (auto simp: slots_ok_def)
  have d: "c_data (conns w c) = Data_session s"
    using assms(3) by (auto simp: session_of_def split: cdata.splits)
  then show "used c w"
    using assms(2) is_free_iff[OF inv, of c] free_path_no_data[of w "free_connections w" fs c] inv
    by (auto simp: used_def slots_inv_def)
  show "\<not> is_interval c w" using d by (simp add: is_interval_def)
qed

lemma interval_used:
  assumes "slots_ok w" "c < connection_n w" "is_interval c w"
  shows "used c w"
proof -
  obtain fs where inv: "slots_inv fs w" using assms(1) by (auto simp: slots_ok_def)
  then show ?thesis
    using assms(2,3) is_free_iff[OF inv, of c] free_path_no_data[of w "free_connections w" fs c]
    by (auto simp: used_def slots_inv_def is_interval_def)
qed

text \<open>\<open>step X c w\<close> is the postcondition of a piece of a handler of the slot \<open>c\<close>.\<close>

definition step :: "slot set \<Rightarrow> ('k, 'm) world \<Rightarrow> ('a \<Rightarrow> ('k, 'm) world \<Rightarrow> bool) \<Rightarrow> 'a \<times> ('k, 'm) world \<Rightarrow> bool" where
  "step X w P = (\<lambda>(a, w'). evolve X w w' \<and> P a w')"

lemma step_simp [simp]: "step X w P (a, w') \<longleftrightarrow> evolve X w w' \<and> P a w'"
  by (simp add: step_def)

lemma step_trans:
  assumes "evolve X w w'" "post (step X w' P) r"
  shows "post (step X w P) r"
  using assms(2) by (rule post_mono) (use evolve_trans[OF assms(1)] in \<open>auto simp: step_def\<close>)

lemma step_skel:
  assumes "skel w' = skel w" "post (step X w' P) r"
  shows "post (step X w P) r"
  using assms(2) by (simp add: step_def evolve_skel_left[OF assms(1)])

lemma seq_step:
  assumes "post (evolve X w) r" "\<And>w'. evolve X w w' \<Longrightarrow> post (step X w' P) (f w')"
  shows "post (step X w P) (rbind r f)"
  using assms by (cases r) (auto intro: step_trans)

lemma seq_step_skel:
  assumes "post (\<lambda>w'. skel w' = skel w) r" "\<And>w'. skel w' = skel w \<Longrightarrow> post (step X w' P) (f w')"
  shows "post (step X w P) (rbind r f)"
  using assms by (cases r) (auto intro: step_skel)

lemma step_seq_step:
  assumes "post (step X w Q) r" "\<And>a w'. evolve X w w' \<Longrightarrow> Q a w' \<Longrightarrow> post (step X w' P) (f (a, w'))"
  shows "post (step X w P) (rbind r f)"
  using assms by (cases r) (auto intro: step_trans)

lemma step_seq_evolve:
  assumes "post (step X w Q) r" "\<And>a w'. evolve X w w' \<Longrightarrow> Q a w' \<Longrightarrow> post (evolve X w') (f (a, w'))"
  shows "post (evolve X w) (rbind r f)"
proof (cases r)
  case (Inr x)
  obtain a w' where x: "x = (a, w')" by (cases x)
  have e: "evolve X w w'" "Q a w'" using assms(1) by (simp_all add: Inr x)
  show ?thesis using assms(2)[OF e] evolve_trans[OF e(1)] by (auto simp: Inr x intro: post_mono)
qed simp

lemma seq_value:
  assumes "\<And>x. r = Inr x \<Longrightarrow> post Q (f x)"
  shows "post Q (rbind r f)"
  using assms by (cases r) auto

lemma del_timer_if_set_used:
  assumes "slots_ok w" "used c w" "ev_conn e \<in> X"
  shows "post (\<lambda>w'. evolve X w w' \<and> used c w' \<and> c_data (conns w' c) = c_data (conns w c)) (del_timer_if_set e w)"
  using del_timer_if_set_evolve[OF assms(1), of e X] assms(2,3)
  by (auto simp: used_def evolve_def intro: post_mono)

lemma add_timer_unless_set_evolve:
  assumes "slots_ok w" "used (ev_conn e) w" "ev_conn e \<in> X"
  shows "post (evolve X w) (add_timer_unless_set e t w)"
  using assms add_timer_evolve[of w e X "word_of_int t"] evolve_refl[OF assms(1)]
  by (auto simp: add_timer_unless_set_def used_def)

text \<open>
  What the handlers need of the Perl callbacks: they change the slots only as the
  operations of the engine do.
\<close>

locale callback_contract =
  fixes E :: "('k, 'm) env"
  assumes call_evolve: "slots_ok w \<Longrightarrow> post (evolve {} w) (p_call_sv E h args w)"
    and native_evolve: "slots_ok w \<Longrightarrow> post (evolve {} w) (native_call E n c w)"
begin

lemma ngxe_callback_evolve:
  assumes "slots_ok w"
  shows "post (evolve X w) (ngxe_callback E cb d w)"
proof (cases "cb_args (callbacks w cb)")
  case (Cons a as)
  let ?after = "\<lambda>n floor w. let w = note_stale cb w;
                        y = callbacks w cb;
                        w = fold SvREFCNT_dec (take n (cb_args y)) w;
                        w = dec_option (cb_handler y) w;
                        w = (if d then ngxe_callback_dec cb w else w)
                    in free_tmps floor w"
  have after: "skel (?after n floor w') = skel w'" for n floor w' by (cases d) (simp_all add: Let_def)
  show ?thesis
  proof (cases "cb_handler (callbacks w cb)")
    case None
    have "post (evolve X w) (native_call E n c w)" for n c
      by (rule post_mono[OF native_evolve[OF assms]]) (rule evolve_any)
    then show ?thesis using None Cons evolve_refl[OF assms]
      by (simp add: ngxe_callback_def split: option.split)
  next
    case (Some h)
    let ?args = "take (cb_args_n (callbacks w cb)) (cb_args (callbacks w cb))"
    let ?w = "fold SvREFCNT_inc ?args (SvREFCNT_inc h w)"
    have s: "skel ?w = skel w" by simp
    have "slots_ok ?w" using assms slots_ok_cong[OF s] by simp
    then have "post (evolve X ?w) (p_call_sv E h ?args ?w)"
      by (rule post_mono[OF call_evolve]) (rule evolve_any)
    then have "post (evolve X ?w) (rbind (p_call_sv E h ?args ?w) (\<lambda>w. Inr (?after n floor w)))" for n floor
      by (rule seq_evolve) (simp only: post_simps, rule evolve_skel[OF evolve_slots_ok after])
    from post_evolve_skel[OF this s] show ?thesis using Cons Some
      by (simp add: ngxe_callback_def Let_def)
  qed
qed (simp add: ngxe_callback_def)

lemma fail_connection_evolve:
  assumes "slots_ok w" "safe c w" "c \<in> X"
  shows "post (evolve X w) (fail_connection E c cb n msg w)"
  unfolding fail_connection_def
proof (rule seq_skel[OF same_set_error])
  fix w1 :: "('k, 'm) world" assume s: "skel w1 = skel w"
  then have ok: "slots_ok w1" "safe c w1" using assms slots_ok_cong[OF s] safe_cong[OF s] by simp_all
  show "post (evolve X w1) (rbind (ngxe_callback E cb True w1) (ngxe_close E c))"
    by (rule seq_evolve[OF ngxe_callback_evolve[OF ok(1)]])
       (rule ngxe_close_evolve, use ok(2) assms(3) in \<open>auto intro: evolve_slots_ok evolve_safe\<close>)
qed

lemma timed_out_evolve:
  assumes "slots_ok w" "safe c w" "c \<in> X"
  shows "post (evolve X w) (timed_out E c cb w)"
proof -
  let ?w = "upd_conn c (c_timedout_update (\<lambda>_. True)) w"
  have s: "skel ?w = skel w" by simp
  have "post (evolve X ?w) (fail_connection E c cb (- 1) ''Operation timed out'' ?w)"
    using assms slots_ok_cong[OF s] safe_cong[OF s] by (intro fail_connection_evolve) auto
  from post_evolve_skel[OF this s] show ?thesis by (simp add: timed_out_def)
qed

lemma ngxe_reader_start_evolve:
  assumes "slots_ok w" "c < connection_n w" "c \<in> X"
  shows "post (evolve X w) (ngxe_reader_start E c w)"
  unfolding ngxe_reader_start_def
proof (rule seq_value)
  fix s assume "rbind (session_of c w) deref = Inr s"
  then have "session_of c w = Inr (Some s)"
    by (elim rbind_InrE) (auto simp: deref_def split: option.splits)
  then have used: "used c w" using session_used[OF assms(1,2)] by blast
  let ?w = "upd_ev (Read_ev c) (ev_handler_update (\<lambda>_. Ngxe_reader_handler)) w"
  have sk: "skel ?w = skel w" by (rule skel_ev_frame)
  have ok: "slots_ok ?w" "used c ?w" using assms(1) used slots_ok_cong[OF sk] used_cong[OF sk] by blast+
  have step: "post (evolve X w1) (case ngx_handle_read_event E (Read_ev c) w1 of
       (NGX_OK, w) \<Rightarrow> add_timer_unless_set (Read_ev c) (reader_timeout (sessions w s)) w
     | (_, w) \<Rightarrow>
         rbind (deref (reader_callback (sessions w s))) (\<lambda>cb.
           fail_connection E c cb (- 2) ''Event error'' w))"
    if w1: "slots_ok w1" "used c w1" for w1
  proof -
    obtain rc w2 where h: "ngx_handle_read_event E (Read_ev c) w1 = (rc, w2)" by fastforce
    have s2: "skel w2 = skel w1" by (rule skel_handle_event(1)[OF h])
    have 2: "slots_ok w2" "used c w2" using w1 slots_ok_cong[OF s2] used_cong[OF s2] by blast+
    have "post (evolve X w2) (rbind (deref (reader_callback (sessions w2 s))) (\<lambda>cb.
           fail_connection E c cb (- 2) ''Event error'' w2))"
      by (rule seq_value) (rule fail_connection_evolve[OF 2(1) used_safe[OF 2(2)] assms(3)])
    moreover have "post (evolve X w2) (add_timer_unless_set (Read_ev c) (reader_timeout (sessions w2 s)) w2)"
      using 2 assms(3) by (intro add_timer_unless_set_evolve) simp_all
    ultimately show ?thesis using post_evolve_skel[OF _ s2] by (cases rc) (simp_all add: h)
  qed
  have "post (\<lambda>w'. evolve X ?w w' \<and> used c w' \<and> c_data (conns w' c) = c_data (conns ?w c))
     (del_timer_if_set (Read_ev c) ?w)"
    using ok assms(3) by (intro del_timer_if_set_used) simp_all
  then have "post (evolve X ?w) (rbind (del_timer_if_set (Read_ev c) ?w) (\<lambda>w1.
     case ngx_handle_read_event E (Read_ev c) w1 of
       (NGX_OK, w) \<Rightarrow> add_timer_unless_set (Read_ev c) (reader_timeout (sessions w s)) w
     | (_, w) \<Rightarrow>
         rbind (deref (reader_callback (sessions w s))) (\<lambda>cb.
           fail_connection E c cb (- 2) ''Event error'' w)))"
    by (cases "del_timer_if_set (Read_ev c) ?w")
       (auto intro!: post_mono[OF step] intro: evolve_trans evolve_slots_ok)
  from post_evolve_skel[OF this sk] show "post (evolve X w) (let w = ?w in
     rbind (del_timer_if_set (Read_ev c) w) (\<lambda>w1.
     case ngx_handle_read_event E (Read_ev c) w1 of
       (NGX_OK, w) \<Rightarrow> add_timer_unless_set (Read_ev c) (reader_timeout (sessions w s)) w
     | (_, w) \<Rightarrow>
         rbind (deref (reader_callback (sessions w s))) (\<lambda>cb.
           fail_connection E c cb (- 2) ''Event error'' w)))" by (simp only: Let_def)
qed

end

end
