(* ===== verification/Ngxe_Handlers.thy ===== *)
theory Ngxe_Handlers
  imports Ngxe_Invariant
begin

text \<open>
  The handlers of readers and writers keep the invariant of the slots and timers, whatever
  the Perl callbacks do.
\<close>

section \<open>Slots a handler refers to\<close>

text \<open>\<open>good\<close>: the slot may be closed; \<open>live\<close>: it is in use, so a timer may be set for it.\<close>

definition good :: "slot \<Rightarrow> ('k, 'm) world \<Rightarrow> bool" where
  "good c w \<longleftrightarrow> slots_ok w \<and> safe c w"

definition live :: "slot \<Rightarrow> ('k, 'm) world \<Rightarrow> bool" where
  "live c w \<longleftrightarrow> slots_ok w \<and> used c w"

lemma live_good: "live c w \<Longrightarrow> good c w"
  by (simp add: good_def live_def used_safe)

lemma good_live: "good c w \<Longrightarrow> \<not> c_destroyed (conns w c) \<Longrightarrow> live c w"
  by (simp add: good_def live_def safe_used)

lemma good_ok: "good c w \<Longrightarrow> slots_ok w"
  by (simp add: good_def)

lemma live_ok: "live c w \<Longrightarrow> slots_ok w"
  by (simp add: live_def)

lemma good_evolve: "good c w \<Longrightarrow> evolve X w w' \<Longrightarrow> good c w'"
  by (auto simp: good_def intro: evolve_slots_ok evolve_safe)

lemma good_cong: "skel w' = skel w \<Longrightarrow> good c w' \<longleftrightarrow> good c w"
  using slots_ok_cong[of w' w] safe_cong[of w' w c] by (simp add: good_def)

lemma live_cong: "skel w' = skel w \<Longrightarrow> live c w' \<longleftrightarrow> live c w"
  using slots_ok_cong[of w' w] used_cong[of w' w c] by (simp add: live_def)

lemma live_less: "live c w \<Longrightarrow> c < connection_n w"
  by (simp add: live_def used_def)

lemma good_less: "good c w \<Longrightarrow> c < connection_n w"
  by (simp add: good_def safe_def)

lemma rbind_assoc: "rbind (rbind r f) g = rbind r (\<lambda>x. rbind (f x) g)"
  by (cases r) simp_all

lemma post_step_return:
  assumes "post (evolve X w) r" "\<And>w'. P a w'"
  shows "post (step X w P) (rbind r (\<lambda>w. Inr (a, w)))"
  using assms by (cases r) simp_all

lemma step_same: "slots_ok w \<Longrightarrow> skel w' = skel w \<Longrightarrow> P a w' \<Longrightarrow> post (step X w P) (Inr (a, w'))"
  by (simp add: evolve_skel)

lemma del_timer_if_set_live:
  assumes "live c w" "ev_conn e = c" "c \<in> X"
  shows "post (\<lambda>w'. evolve X w w' \<and> live c w') (del_timer_if_set e w)"
  using del_timer_if_set_used[of w c e X] assms
  by (auto simp: live_def intro: post_mono evolve_slots_ok)

lemma seq_live_evolve:
  assumes "post (\<lambda>w'. evolve X w w' \<and> live c w') r" "\<And>w'. live c w' \<Longrightarrow> post (evolve X w') (f w')"
  shows "post (evolve X w) (rbind r f)"
proof (cases r)
  case (Inr w')
  then have e: "evolve X w w'" "live c w'" using assms(1) by simp_all
  show ?thesis using post_mono[OF assms(2)[OF e(2)] evolve_trans[OF e(1)]] Inr by simp
qed simp

lemma seq_live_step:
  assumes "post (\<lambda>w'. evolve X w w' \<and> live c w') r" "\<And>w'. live c w' \<Longrightarrow> post (step X w' P) (f w')"
  shows "post (step X w P) (rbind r f)"
proof (cases r)
  case (Inr w')
  then have e: "evolve X w w'" "live c w'" using assms(1) by simp_all
  show ?thesis using step_trans[OF e(1) assms(2)[OF e(2)]] Inr by simp
qed simp

lemma is_free_upd_ev [simp]:
  "is_free c (upd_ev e f (w\<lparr>timers := ts\<rparr>)) = is_free c w"
  "is_free c (upd_ev e f w) = is_free c w"
  "is_free c (w\<lparr>timers := ts\<rparr>) = is_free c w"
  unfolding is_free_def using free_path_cong[of _ "upd_ev e f (w\<lparr>timers := ts\<rparr>)" w]
    free_path_cong[of _ "upd_ev e f w" w] free_path_cong[of _ "w\<lparr>timers := ts\<rparr>" w] by simp_all

lemma add_timer_is_free: "post (\<lambda>w'. \<forall>c. is_free c w' = is_free c w) (ngx_event_add_timer e t w)"
  by (simp add: ngx_event_add_timer_def ngx_event_del_timer_def Let_def)

lemma add_timer_unless_set_live:
  assumes "live c w" "ev_conn e = c" "c \<in> X"
  shows "post (\<lambda>w'. evolve X w w' \<and> live c w') (add_timer_unless_set e t w)"
proof (cases "add_timer_unless_set e t w")
  case (Inr w')
  have e: "evolve X w w'"
    using add_timer_unless_set_evolve[of w e X t] assms Inr by (simp add: live_def)
  have "is_free c w' = is_free c w"
    using Inr add_timer_is_free[of w e "word_of_int t"]
    by (auto simp: add_timer_unless_set_def split: if_splits)
  then show ?thesis using assms(1) e Inr evolve_slots_ok[OF e]
    by (simp add: live_def used_def evolve_def)
qed simp

lemma ngxe_stop_evolve:
  assumes "slots_ok w" "c \<in> X"
  shows "post (evolve X w) (ngxe_reader_stop c w)" "post (evolve X w) (ngxe_writer_stop c w)"
proof -
  have *: "post (evolve X w) (rbind (del_timer_if_set e w) (\<lambda>w. Inr (upd_ev e (ev_handler_update f) w)))"
    if "ev_conn e = c" for e f
    by (rule seq_evolve[OF post_mono[OF del_timer_if_set_evolve[OF assms(1), of e X]]])
       (use assms(2) that in \<open>auto intro: evolve_skel evolve_slots_ok\<close>)
  show "post (evolve X w) (ngxe_reader_stop c w)" "post (evolve X w) (ngxe_writer_stop c w)"
    using *[of "Read_ev c"] *[of "Write_ev c"] by (simp_all add: ngxe_reader_stop_def ngxe_writer_stop_def)
qed

section \<open>The writers\<close>

fun writer_needs :: "bool \<Rightarrow> slot \<Rightarrow> writer_next \<Rightarrow> ('k, 'm) world \<Rightarrow> bool" where
  "writer_needs A c (Sendagain b n) w = live c w"
| "writer_needs A c Nextbuf w = live c w"
| "writer_needs A c Aftercallback w = (A \<and> good c w)"
| "writer_needs A c nx w = good c w"

lemma writer_needs_good: "writer_needs A c nx w \<Longrightarrow> good c w"
  by (cases nx) (simp_all add: live_good)

lemma live_writer_needs: "live c w \<Longrightarrow> nx \<noteq> Aftercallback \<Longrightarrow> writer_needs A c nx w"
  by (cases nx) (simp_all add: live_good)

lemma arm_writer_step:
  assumes "live c w" "c \<in> X"
  shows "post (step X w (writer_needs A c)) (arm_writer c s w)"
proof (cases "arm_writer c s w")
  case (Inr x)
  have "post (evolve X w) (add_timer_unless_set (Write_ev c) (writer_timeout (sessions w s)) w)"
    using assms by (intro add_timer_unless_set_evolve) (simp_all add: live_def)
  with Inr show ?thesis using good_evolve[OF live_good[OF assms(1)]]
    by (auto simp: arm_writer_def elim!: rbind_InrE)
qed simp

declare ngx_unix_send.simps [simp del] ngx_unix_recv.simps [simp del]

lemma seq_send:
  assumes "live c w" "\<And>n w'. live c w' \<Longrightarrow> post (step X w' P) (f (n, w'))"
  shows "post (step X w P) (rbind (ngx_unix_send fu E d buf w) f)"
proof (cases "ngx_unix_send fu E d buf w")
  case (Inr x)
  obtain n w' where x: "x = (n, w')" by (cases x)
  have s: "skel w' = skel w" using same_unix_send[of w fu E d buf] by (simp add: Inr x)
  have "live c w'" using assms(1) live_cong[OF s] by simp
  from step_skel[OF s assms(2)[OF this]] show ?thesis by (simp add: Inr x)
qed simp

lemma seq_recv:
  assumes "live c w" "\<And>n bs w'. live c w' \<Longrightarrow> post (step X w' P) (f (n, bs, w'))"
  shows "post (step X w P) (rbind (ngx_unix_recv fu E d sz w) f)"
proof (cases "ngx_unix_recv fu E d sz w")
  case (Inr x)
  obtain n bs w' where x: "x = (n, bs, w')" by (cases x)
  have s: "skel w' = skel w" using same_unix_recv[of w fu E d sz] by (simp add: Inr x)
  have "live c w'" using assms(1) live_cong[OF s] by simp
  from step_skel[OF s assms(2)[OF this]] show ?thesis by (simp add: Inr x)
qed simp

fun reader_needs :: "slot \<Rightarrow> reader_next \<Rightarrow> ('k, 'm) world \<Rightarrow> bool" where
  "reader_needs c Recvagain w = live c w"
| "reader_needs c nx w = good c w"

lemma reader_needs_good: "reader_needs c nx w \<Longrightarrow> good c w"
  by (cases nx) (simp_all add: live_good)

lemma arm_reader_step:
  assumes "live c w" "c \<in> X"
  shows "post (step X w (reader_needs c)) (arm_reader c s w)"
proof (cases "arm_reader c s w")
  case (Inr x)
  have "post (evolve X w) (add_timer_unless_set (Read_ev c) (reader_timeout (sessions w s)) w)"
    using assms by (intro add_timer_unless_set_evolve) (simp_all add: live_def)
  with Inr show ?thesis using good_evolve[OF live_good[OF assms(1)]]
    by (auto simp: arm_reader_def elim!: rbind_InrE)
qed simp

context callback_contract
begin

lemma fail_step:
  assumes "good c w" "c \<in> X" "skel w' = skel w"
  shows "post (step X w (writer_needs A c)) (rbind (fail_connection E c cb n msg w') (\<lambda>w. Inr (Return, w)))"
proof -
  have "good c w'" using assms(1) good_cong[OF assms(3)] by simp
  then have "post (evolve X w') (fail_connection E c cb n msg w')"
    using assms(2) by (intro fail_connection_evolve) (simp_all add: good_def)
  from post_evolve_skel[OF this assms(3)] show ?thesis
    using good_evolve[OF assms(1)] by (cases "fail_connection E c cb n msg w'") simp_all
qed

lemma await_write_step:
  assumes "live c w" "c \<in> X"
  shows "post (step X w (\<lambda>ok w'. if ok then live c w' else good c w')) (await_write E reset c s cb w)"
proof -
  obtain rc w1 where h: "ngx_handle_write_event E (Write_ev c) w = (rc, w1)" by fastforce
  have s: "skel w1 = skel w" by (rule skel_handle_event(2)[OF h])
  let ?w = "if reset then upd_session s (writer_offset_update (\<lambda>_. 0)) w1 else w1"
  have s2: "skel ?w = skel w" using s by simp
  have "post (evolve X ?w) (fail_connection E c cb (- 2) ''Event error'' ?w)"
    using assms live_good[OF assms(1)] good_cong[OF s2, of c]
    by (intro fail_connection_evolve) (simp_all add: good_def)
  from post_evolve_skel[OF this s2]
  have "post (step X w (\<lambda>ok w'. if ok then live c w' else good c w'))
     (rbind (fail_connection E c cb (- 2) ''Event error'' ?w) (\<lambda>w. Inr (False, w)))"
    using good_evolve[OF live_good[OF assms(1)]]
    by (cases "fail_connection E c cb (- 2) ''Event error'' ?w") simp_all
  moreover have "evolve X w w1" "live c w1"
    using assms(1) s live_cong[OF s] by (auto simp: live_def intro: evolve_skel)
  ultimately show ?thesis by (cases rc) (simp_all add: await_write_def h)
qed

lemma partly_sent_step:
  assumes "live c w" "c \<in> X"
  shows "post (step X w (writer_needs A c)) (partly_sent E reset c s cb w)"
proof -
  let ?w = "upd_ev (Write_ev c) (ev_ready_update (\<lambda>_. False)) w"
  have s: "skel ?w = skel w" by (rule skel_ev_frame)
  have l: "live c ?w" using assms(1) live_cong[OF s] by simp
  have "post (step X ?w (writer_needs A c)) (partly_sent E reset c s cb w)"
    unfolding partly_sent_def
    by (rule step_seq_step[OF await_write_step[OF l assms(2)]])
       (auto simp: arm_writer_step assms(2) intro: evolve_refl good_ok split: if_splits)
  then show ?thesis by (rule step_skel[OF s])
qed

lemma not_ready_step:
  assumes "live c w" "c \<in> X" "nx \<noteq> Aftercallback"
  shows "post (step X w (writer_needs A c)) (not_ready E reset c s cb nx w)"
  unfolding not_ready_def
  by (rule step_seq_step[OF await_write_step[OF assms(1,2)]])
     (auto simp: arm_writer_step assms(2) live_writer_needs[OF _ assms(3)] intro: evolve_refl good_ok live_ok split: if_splits)

lemma continue_writer_step:
  assumes "live c w" "c \<in> X" "nx \<noteq> Aftercallback"
  shows "post (step X w (writer_needs A c)) (continue_writer E reset c s cb nx w)"
proof -
  have "post (step X w (writer_needs A c)) (rbind (await_write E reset c s cb w) (\<lambda>(ok, w).
             if ok then arm_writer c s w else Inr (Return, w)))"
    by (rule step_seq_step[OF await_write_step[OF assms(1,2)]])
       (auto simp: arm_writer_step assms(2) intro: evolve_refl good_ok split: if_splits)
  then show ?thesis
    using assms(1) by (simp add: continue_writer_def live_writer_needs[OF _ assms(3)] evolve_refl live_ok)
qed

lemma restart_reader_step:
  assumes "good c w" "c \<in> X"
  shows "post (step X w (writer_needs A c)) (restart_reader E c s w)"
proof -
  have "post (evolve X w) (rbind (ngxe_writer_stop c w) (ngxe_reader_start E c))"
    by (rule seq_evolve[OF ngxe_stop_evolve(2)[OF good_ok[OF assms(1)] assms(2)]])
       (use assms in \<open>auto intro!: ngxe_reader_start_evolve dest: good_evolve simp: good_ok good_less\<close>)
  then have "post (step X w (writer_needs A c))
      (rbind (rbind (ngxe_writer_stop c w) (ngxe_reader_start E c)) (\<lambda>w. Inr (Return, w)))"
    using good_evolve[OF assms(1)]
    by (cases "rbind (ngxe_writer_stop c w) (ngxe_reader_start E c)") simp_all
  then show ?thesis
    using assms(1) by (simp add: rbind_assoc restart_reader_def evolve_refl good_ok)
qed

lemma rvpv_send_step:
  assumes "live c w" "c \<in> X"
  shows "post (step X w (writer_needs A c)) (rvpv_send E c s cb b cur w)"
  unfolding rvpv_send_def
proof (rule seq_value, rule seq_send[OF assms(1)], unfold prod.case)
  fix n and w1 :: "('k, 'm) world" assume l: "live c w1"
  have l2: "live c (upd_offset s k w1)" for k using l live_cong[of "upd_offset s k w1" w1] by simp
  have "post (step X w1 (writer_needs A c)) (partly_sent E True c s cb (upd_offset s k w1))" for k
    by (rule step_skel[OF _ partly_sent_step[OF l2 assms(2)]]) simp
  then show "post (step X w1 (writer_needs A c)) (if n = - 1 \<or> n = 0 then
       rbind (fail_connection E c cb 1 ''Write error'' (upd_offset s 0 w1)) (\<lambda>w. Inr (Return, w))
     else if n = - 2 then not_ready E True c s cb (Sendagain b cur) w1
     else
       let w = upd_offset s (writer_offset (sessions w1 s) + n) w1 in
       if 0 < cur_left s b w then partly_sent E True c s cb w
       else Inr (Done, upd_offset s 0 w))"
    using fail_step[OF live_good[OF l] assms(2)] not_ready_step[OF l assms(2)] live_good[OF l]
      good_cong[of "upd_offset s 0 (upd_offset s (writer_offset (sessions w1 s) + n) w1)" w1 c]
    by (auto simp: Let_def evolve_skel good_ok)
qed

lemma callback_step:
  assumes "good c w" "skel w' = skel w" "\<And>w2. good c w2 \<Longrightarrow> post (step X w2 P) (f w2)"
  shows "post (step X w P) (rbind (ngxe_callback E cb d w') f)"
proof (rule step_skel[OF assms(2)], rule seq_step[OF ngxe_callback_evolve])
  have g: "good c w'" using assms(1) good_cong[OF assms(2)] by simp
  then show "slots_ok w'" by (rule good_ok)
  show "post (step X w2 P) (f w2)" if "evolve X w' w2" for w2
    by (rule assms(3)[OF good_evolve[OF g that]])
qed

lemma same_drop_writer_buffer: "post (\<lambda>w'. skel w' = skel w) (drop_writer_buffer E s w)"
  by (cases "writer_buffer (sessions w s)") (simp_all add: drop_writer_buffer_def deref_def Let_def)

lemma rvpv_done_step:
  assumes "good c w"
  shows "post (step X w (writer_needs True c)) (rvpv_done E s cb w)"
  unfolding rvpv_done_def
proof (rule seq_step_skel[OF same_drop_writer_buffer])
  fix w1 :: "('k, 'm) world" assume s: "skel w1 = skel w"
  then have g: "good c w1" using assms good_cong by blast
  show "post (step X w1 (writer_needs True c)) (rbind (ngxe_callback E cb False w1) (\<lambda>w. Inr (Aftercallback, w)))"
    by (rule callback_step[OF g refl]) (auto intro: evolve_refl good_ok)
qed

lemma rvpv_aftercallback_step:
  assumes "good c w" "c \<in> X"
  shows "post (step X w (writer_needs A c)) (rvpv_aftercallback E c s cb w)"
proof (cases "c_destroyed (conns w c)")
  case False
  then have l: "live c w" by (rule good_live[OF assms(1)])
  have "post (step X w (writer_needs A c)) (rbind (deref (writer_buffer (sessions w s))) (\<lambda>b.
        if sv_ok (svs w b) \<and> sv_rok (svs w b) \<and> 0 < sv_cur (svs w (sv_rv (svs w b))) then
          let svbuf = sv_rv (svs w b) in
          continue_writer E True c s cb (Sendagain svbuf (cur_left s svbuf w)) w
        else restart_reader E c s w))"
    by (rule seq_value) (simp add: Let_def continue_writer_step[OF l assms(2)] restart_reader_step[OF assms])
  then show ?thesis using False assms(1) by (simp add: rvpv_aftercallback_def evolve_refl good_ok)
qed (use assms(1) in \<open>simp add: rvpv_aftercallback_def evolve_refl good_ok\<close>)

lemma rvpv_loop_evolve:
  assumes "c \<in> X"
  shows "writer_needs True c nx w \<Longrightarrow> post (evolve X w) (rvpv_loop n E c s cb (nx, w))"
proof (induction n arbitrary: nx w)
  case 0
  then show ?case using writer_needs_good[OF 0] by (simp add: evolve_refl good_ok)
next
  case (Suc n)
  have g: "good c w" by (rule writer_needs_good[OF Suc.prems])
  have "post (step X w (writer_needs True c)) (case nx of
                     Sendagain svbuf cur \<Rightarrow> rvpv_send E c s cb svbuf cur w
                   | Done \<Rightarrow> rvpv_done E s cb w
                   | _ \<Rightarrow> rvpv_aftercallback E c s cb w)"
    using Suc.prems assms rvpv_done_step[OF g] rvpv_aftercallback_step[OF g assms]
    by (cases nx) (auto intro: rvpv_send_step)
  from step_seq_evolve[OF this] Suc.IH show ?case
    using evolve_refl[OF good_ok[OF g]] by simp
qed

lemma callback_evolve_seq:
  assumes "good c w" "skel w' = skel w" "\<And>w2. good c w2 \<Longrightarrow> post (evolve X w2) (f w2)"
  shows "post (evolve X w) (rbind (ngxe_callback E cb d w') f)"
proof -
  have g: "good c w'" using assms(1) good_cong[OF assms(2)] by simp
  have "post (evolve X w') (rbind (ngxe_callback E cb d w') f)"
    by (rule seq_evolve[OF ngxe_callback_evolve[OF good_ok[OF g]]]) (rule assms(3)[OF good_evolve[OF g]])
  then show ?thesis by (rule post_evolve_skel[OF _ assms(2)])
qed

lemma rvpv_handler_evolve:
  assumes "live (ev_conn ev) w" "ev_conn ev \<in> X"
  shows "post (evolve X w) (ngxe_rvpv_writer_handler E ev s cb b w)"
proof -
  let ?c = "ev_conn ev" and ?w = "upd_sv (sv_rv (svs w b)) (sv_pok_update (\<lambda>_. True)) w"
  have s: "skel ?w = skel w" by simp
  have l: "live ?c ?w" using assms(1) live_cong[OF s] by simp
  have rest: "post (evolve X w1) (let cur = cur_left s b' w1 in
       if cur \<le> 0 then
             rbind (ngxe_callback E cb False (upd_offset s 0 w1)) (\<lambda>w.
               rvpv_loop (loop_fuel E) E ?c s cb (Aftercallback, w))
           else rvpv_loop (loop_fuel E) E ?c s cb (Sendagain b' cur, w1))"
    if "live ?c w1" for w1 b'
    using that rvpv_loop_evolve[OF assms(2)]
    by (auto simp: Let_def simp del: rvpv_loop.simps
        intro!: callback_evolve_seq[OF live_good[OF that]])
  have "post (evolve X ?w) (timed_out E ?c cb ?w)"
    using live_good[OF l] assms(2) by (intro timed_out_evolve) (simp_all add: good_def)
  moreover have "post (evolve X ?w) (rbind (del_timer_if_set (Write_ev ?c) ?w) (\<lambda>w1.
       let cur = cur_left s (sv_rv (svs w b)) w1 in
       if cur \<le> 0 then
             rbind (ngxe_callback E cb False (upd_offset s 0 w1)) (\<lambda>w.
               rvpv_loop (loop_fuel E) E ?c s cb (Aftercallback, w))
           else rvpv_loop (loop_fuel E) E ?c s cb (Sendagain (sv_rv (svs w b)) cur, w1)))"
    by (rule seq_live_evolve[OF del_timer_if_set_live[OF l _ assms(2)]]) (simp_all only: ev_conn.simps rest)
  ultimately have "post (evolve X ?w) (ngxe_rvpv_writer_handler E ev s cb b w)"
    unfolding ngxe_rvpv_writer_handler_def Let_def by (simp only: split: if_split) blast
  then show ?thesis by (rule post_evolve_skel[OF _ s])
qed

lemma rvpvav_nextbuf_step:
  assumes "live c w" "c \<in> X"
  shows "post (step X w (writer_needs A c)) (rvpvav_nextbuf E c s cb w)"
  unfolding rvpvav_nextbuf_def
proof (rule seq_value)
  fix b
  let ?idx = "writer_index (sessions w s)" and ?av = "svs w (sv_rv (svs w b))"
  have same: "post (step X w (writer_needs A c)) (Inr (nx, w'))"
    if "skel w' = skel w" "nx \<noteq> Aftercallback" for nx w'
    using assms(1) that live_cong[OF that(1)] by (simp add: evolve_skel live_ok live_writer_needs)
  have err: "post (step X w (writer_needs A c))
      (rbind (fail_connection E c cb 1 ''Buffer is not a SCALAR REF'' (upd_index s 0 (upd_offset s 0 w)))
              (\<lambda>w. Inr (Return, w)))"
    by (rule fail_step[OF live_good[OF assms(1)] assms(2)]) simp
  show "post (step X w (writer_needs A c)) (let av = ?av;
         avlen = int (length (sv_av av)) - 1;
         idx = ?idx
     in if avlen < idx then Inr (Done, w)
        else
          rbind (av_fetch av idx) (\<lambda>e.
          if \<not> sv_ok (svs w e) \<or> \<not> sv_rok (svs w e) then
            rbind (fail_connection E c cb 1 ''Buffer is not a SCALAR REF'' (upd_index s 0 (upd_offset s 0 w)))
              (\<lambda>w. Inr (Return, w))
          else
            let svbuf = sv_rv (svs w e);
                w = upd_sv svbuf (sv_pok_update (\<lambda>_. True)) w;
                cur = cur_left s svbuf w
            in if cur \<le> 0 then Inr (Nextbuf, upd_index s (idx + 1) (upd_offset s 0 w))
               else Inr (Sendagain svbuf cur, w)))"
    unfolding Let_def by (intro post_if seq_value[where r = "av_fetch av i" for av i])
      (rule err | (rule same; simp))+
qed

lemma rvpvav_send_step:
  assumes "live c w" "c \<in> X"
  shows "post (step X w (writer_needs A c)) (rvpvav_send E c s cb b cur w)"
  unfolding rvpvav_send_def
proof (rule seq_value, rule seq_send[OF assms(1)], unfold prod.case)
  fix n and w1 :: "('k, 'm) world" assume l: "live c w1"
  let ?w = "upd_offset s (writer_offset (sessions w1 s) + n) w1"
  have l2: "live c ?w" using l live_cong[of ?w w1] by simp
  have r: "post (step X ?w (writer_needs A c)) (rbind (del_timer_if_set (Write_ev c) ?w) (\<lambda>w.
            if 0 < left then partly_sent E True c s cb w
            else Inr (Nextbuf, upd_index s (writer_index (sessions w s) + 1) (upd_offset s 0 w))))" for left
  proof (rule seq_live_step[OF del_timer_if_set_live[OF l2 _ assms(2)]])
    fix w2 :: "('k, 'm) world" assume l2: "live c w2"
    have s: "skel (upd_index s (writer_index (sessions w2 s) + 1) (upd_offset s 0 w2)) = skel w2" by simp
    show "post (step X w2 (writer_needs A c)) (if 0 < left then partly_sent E True c s cb w2
            else Inr (Nextbuf, upd_index s (writer_index (sessions w2 s) + 1) (upd_offset s 0 w2)))"
      using partly_sent_step[OF l2 assms(2)] live_cong[OF s] l2 by (simp add: evolve_skel live_ok)
  qed simp
  have "post (step X w1 (writer_needs A c)) (rbind (del_timer_if_set (Write_ev c) ?w) (\<lambda>w.
            if 0 < left then partly_sent E True c s cb w
            else Inr (Nextbuf, upd_index s (writer_index (sessions w s) + 1) (upd_offset s 0 w))))" for left
    by (rule step_skel[OF _ r]) simp
  then show "post (step X w1 (writer_needs A c)) (if n = - 1 \<or> n = 0 then
       rbind (fail_connection E c cb 1 ''Write error'' (upd_index s 0 (upd_offset s 0 w1))) (\<lambda>w. Inr (Return, w))
     else if n = - 2 then not_ready E True c s cb (Sendagain b cur) w1
     else
       let w = upd_offset s (writer_offset (sessions w1 s) + n) w1;
           left = cur_left s b w
       in rbind (del_timer_if_set (Write_ev c) w) (\<lambda>w.
            if 0 < left then partly_sent E True c s cb w
            else Inr (Nextbuf, upd_index s (writer_index (sessions w s) + 1) (upd_offset s 0 w))))"
    using fail_step[OF live_good[OF l] assms(2)] not_ready_step[OF l assms(2)]
    by (auto simp: Let_def)
qed

lemma rvpvav_done_step:
  assumes "good c w" "c \<in> X"
  shows "post (step X w (writer_needs A c)) (rvpvav_done E c s cb w)"
  unfolding rvpvav_done_def
proof (rule seq_step_skel[OF same_drop_writer_buffer], rule callback_step[OF _ refl])
  show "good c w1" if "skel w1 = skel w" for w1 using assms(1) good_cong[OF that] by simp
  fix w2 :: "('k, 'm) world" assume g: "good c w2"
  let ?w = "upd_index s 0 (upd_offset s 0 w2)"
  have "post (step X w2 (writer_needs A c)) (continue_writer E True c s cb Nextbuf ?w)"
    if "\<not> c_destroyed (conns w2 c)"
  proof (rule step_skel)
    show s: "skel ?w = skel w2" by simp
    show "post (step X ?w (writer_needs A c)) (continue_writer E True c s cb Nextbuf ?w)"
      using continue_writer_step[OF _ assms(2)] live_cong[OF s] good_live[OF g that] by blast
  qed
  then show "post (step X w2 (writer_needs A c)) (if c_destroyed (conns w2 c) then Inr (Return, w2)
     else if ev_handler (c_write (conns w2 c)) = Ngxe_dummy_handler then Inr (Return, w2)
     else
       rbind (deref (writer_buffer (sessions w2 s))) (\<lambda>b.
       if sv_ok (svs w2 b) \<and> sv_rok (svs w2 b) then continue_writer E True c s cb Nextbuf ?w
       else restart_reader E c s w2))"
    using restart_reader_step[OF g assms(2)] g
    by (auto simp: evolve_refl good_ok intro!: seq_value)
qed

lemma rvpvav_loop_evolve:
  assumes "c \<in> X"
  shows "writer_needs False c nx w \<Longrightarrow> post (evolve X w) (rvpvav_loop n E c s cb (nx, w))"
proof (induction n arbitrary: nx w)
  case 0
  then show ?case using writer_needs_good[OF 0] by (simp add: evolve_refl good_ok)
next
  case (Suc n)
  have g: "good c w" by (rule writer_needs_good[OF Suc.prems])
  have "post (step X w (writer_needs False c)) (case nx of
                     Sendagain svbuf cur \<Rightarrow> rvpvav_send E c s cb svbuf cur w
                   | Done \<Rightarrow> rvpvav_done E c s cb w
                   | _ \<Rightarrow> rvpvav_nextbuf E c s cb w)" if "nx \<noteq> Return"
    using Suc.prems that assms rvpvav_done_step[OF g assms]
    by (cases nx) (auto intro: rvpvav_send_step rvpvav_nextbuf_step)
  from step_seq_evolve[OF this] Suc.IH show ?case
    using evolve_refl[OF good_ok[OF g]] by simp
qed

lemma rvpvav_handler_evolve:
  assumes "live (ev_conn ev) w" "ev_conn ev \<in> X"
  shows "post (evolve X w) (ngxe_rvpvav_writer_handler E ev s cb w)"
proof -
  let ?c = "ev_conn ev"
  have "post (evolve X w) (timed_out E ?c cb w)"
    using live_good[OF assms(1)] assms(2) by (intro timed_out_evolve) (simp_all add: good_def)
  moreover have "post (evolve X w) (rbind (del_timer_if_set (Write_ev ?c) w) (\<lambda>w.
          rvpvav_loop (loop_fuel E) E ?c s cb (Nextbuf, w)))"
    by (rule seq_live_evolve[OF del_timer_if_set_live[OF assms(1) _ assms(2)]])
       (auto intro!: rvpvav_loop_evolve[OF assms(2)] simp del: rvpvav_loop.simps)
  ultimately show ?thesis
    unfolding ngxe_rvpvav_writer_handler_def Let_def by (simp only: split: if_split) blast
qed

lemma pv_send_step:
  assumes "live c w" "c \<in> X"
  shows "post (step X w (writer_needs True c)) (pv_send E c s cb b cur w)"
  unfolding pv_send_def
proof (rule seq_value, rule seq_send[OF assms(1)], unfold prod.case)
  fix n and w1 :: "('k, 'm) world" assume l: "live c w1"
  let ?w = "upd_sv b (p_sv_chop E (nat n)) w1"
  have s: "skel ?w = skel w1" by simp
  have "post (step X w1 (writer_needs True c)) (partly_sent E False c s cb ?w)"
    using step_skel[OF s partly_sent_step[OF _ assms(2)]] live_cong[OF s] l by blast
  moreover have "post (step X w1 (writer_needs True c))
      (rbind (ngxe_callback E cb False w2) (\<lambda>w. Inr (Aftercallback, w)))" if "skel w2 = skel w1" for w2
    by (rule callback_step[OF live_good[OF l] that]) (auto intro: evolve_refl good_ok)
  ultimately show "post (step X w1 (writer_needs True c)) (if n = - 1 \<or> n = 0 then
       rbind (fail_connection E c cb 1 ''Write error'' w1) (\<lambda>w. Inr (Return, w))
     else if n = - 2 then not_ready E False c s cb (Sendagain b cur) w1
     else
       let w = upd_sv b (p_sv_chop E (nat n)) w1 in
       if 0 < sv_cur (svs w b) then partly_sent E False c s cb w
       else
         let w = upd_sv b (SvOOK_off E) w;
             w = upd_sv b (sv_cur_update (\<lambda>_. 0)) w
         in rbind (ngxe_callback E cb False w) (\<lambda>w. Inr (Aftercallback, w)))"
    using fail_step[OF live_good[OF l] assms(2) refl] not_ready_step[OF l assms(2), of "Sendagain b cur"]
    unfolding Let_def by (simp only: split: if_split) simp
qed

lemma pv_aftercallback_step:
  assumes "good c w" "c \<in> X"
  shows "post (step X w (writer_needs True c)) (pv_aftercallback E c s cb b w)"
proof (cases "c_destroyed (conns w c)")
  case False
  then have l: "live c w" by (rule good_live[OF assms(1)])
  show ?thesis using assms(1) restart_reader_step[OF assms]
      continue_writer_step[OF l assms(2), of "Sendagain b cur" for cur]
    by (simp add: pv_aftercallback_def Let_def evolve_refl good_ok)
qed (use assms(1) in \<open>simp add: pv_aftercallback_def evolve_refl good_ok\<close>)

lemma pv_loop_evolve:
  assumes "c \<in> X"
  shows "writer_needs True c nx w \<Longrightarrow> post (evolve X w) (pv_loop n E c s cb b (nx, w))"
proof (induction n arbitrary: nx w)
  case 0
  then show ?case using writer_needs_good[OF 0] by (simp add: evolve_refl good_ok)
next
  case (Suc n)
  have g: "good c w" by (rule writer_needs_good[OF Suc.prems])
  have "post (step X w (writer_needs True c)) (case nx of
                     Sendagain b' cur \<Rightarrow> pv_send E c s cb b' cur w
                   | _ \<Rightarrow> pv_aftercallback E c s cb b w)"
    using Suc.prems assms pv_aftercallback_step[OF g assms] by (cases nx) (auto intro: pv_send_step)
  from step_seq_evolve[OF this] Suc.IH show ?case
    using evolve_refl[OF good_ok[OF g]] by simp
qed

lemma pv_handler_evolve:
  assumes "live (ev_conn ev) w" "ev_conn ev \<in> X"
  shows "post (evolve X w) (pv_writer_handler E ev s cb b w)"
proof -
  let ?c = "ev_conn ev"
  have to: "post (evolve X w) (timed_out E ?c cb w)"
    using live_good[OF assms(1)] assms(2) by (intro timed_out_evolve) (simp_all add: good_def)
  have rest: "post (evolve X w1) (let cur = int (sv_cur (svs w1 b)) in
        if cur = 0 then
          let w = (if sv_ook (svs w1 b) then upd_sv b (SvOOK_off E) w1 else w1);
              w = upd_sv b (sv_cur_update (\<lambda>_. 0)) w
          in rbind (ngxe_callback E cb False w) (\<lambda>w.
               pv_loop (loop_fuel E) E ?c s cb b (Aftercallback, w))
        else pv_loop (loop_fuel E) E ?c s cb b (Sendagain b cur, w1))" if l: "live ?c w1" for w1
    unfolding Let_def using l
    by (intro post_if callback_evolve_seq[OF live_good[OF l]] pv_loop_evolve[OF assms(2)]) simp_all
  have "post (evolve X w) (rbind (del_timer_if_set (Write_ev ?c) w) (\<lambda>w.
        let cur = int (sv_cur (svs w b)) in
        if cur = 0 then
          let w = (if sv_ook (svs w b) then upd_sv b (SvOOK_off E) w else w);
              w = upd_sv b (sv_cur_update (\<lambda>_. 0)) w
          in rbind (ngxe_callback E cb False w) (\<lambda>w.
               pv_loop (loop_fuel E) E ?c s cb b (Aftercallback, w))
        else pv_loop (loop_fuel E) E ?c s cb b (Sendagain b cur, w)))"
    by (rule seq_live_evolve[OF del_timer_if_set_live[OF assms(1) _ assms(2)]]) (simp, rule rest)
  then show ?thesis
    unfolding pv_writer_handler_def using to by (simp only: Let_def split: if_split) blast
qed

lemma ngxe_writer_handler_evolve:
  assumes "slots_ok w" "ev_conn ev < connection_n w" "ev_conn ev \<in> X"
  shows "post (evolve X w) (ngxe_writer_handler E ev w)"
  unfolding ngxe_writer_handler_def Let_def
proof (rule seq_value)
  fix sp assume sp: "session_of (ev_conn ev) w = Inr sp"
  have fail: "post (evolve X w) (fail_connection E (ev_conn ev) cb n msg w)"
    if "live (ev_conn ev) w" for cb n msg
    using live_good[OF that] assms(3) by (intro fail_connection_evolve) (simp_all add: good_def)
  have "live (ev_conn ev) w" if "sp = Some s" for s
    using session_used(1)[OF assms(1,2)] sp that assms(1) by (simp add: live_def)
  then show "post (evolve X w) (case sp of
        None \<Rightarrow> Inr w
      | Some s \<Rightarrow>
          (case (writer_callback (sessions w s), writer_buffer (sessions w s)) of
             (Some cb, Some b) \<Rightarrow>
               if sv_rok (svs w b) then
                 (case sv_type (svs w (sv_rv (svs w b))) of
                    SVt_PV \<Rightarrow> ngxe_rvpv_writer_handler E ev s cb b w
                  | SVt_PVAV \<Rightarrow> ngxe_rvpvav_writer_handler E ev s cb w
                  | _ \<Rightarrow> fail_connection E (ev_conn ev) cb 1 ''Unsupported buffer type'' w)
               else pv_writer_handler E ev s cb b w
           | _ \<Rightarrow> Inr w))"
    using assms fail
    by (auto simp: evolve_refl split: option.split svtype.split
        intro: rvpv_handler_evolve rvpvav_handler_evolve pv_handler_evolve)
qed

lemma handle_event_live:
  assumes "live c w" "ngx_handle_write_event E e w = (rc, w') \<or> ngx_handle_read_event E e w = (rc, w')"
  shows "live c w'" "evolve X w w'"
proof -
  have s: "skel w' = skel w" using assms(2) skel_handle_event by blast
  show "live c w'" "evolve X w w'"
    using assms(1) live_cong[OF s] s by (auto simp: live_def intro: evolve_skel)
qed

lemma ngxe_writer_start_evolve:
  assumes "slots_ok w" "c < connection_n w" "c \<in> X"
  shows "post (evolve X w) (ngxe_writer_start E c w)"
  unfolding ngxe_writer_start_def
proof (rule seq_value)
  fix s assume "rbind (session_of c w) deref = Inr s"
  then have "session_of c w = Inr (Some s)"
    by (elim rbind_InrE) (auto simp: deref_def split: option.splits)
  then have used: "live c w" using session_used[OF assms(1,2)] assms(1) by (simp add: live_def)
  let ?w = "upd_ev (Write_ev c) (ev_handler_update (\<lambda>_. Ngxe_writer_handler)) w"
  let ?f = "\<lambda>w. case ngx_handle_write_event E (Write_ev c) w of
       (NGX_OK, w) \<Rightarrow>
         rbind (add_timer_unless_set (Write_ev c) (writer_timeout (sessions w s)) w) (\<lambda>w.
         if ev_ready (c_write (conns w c)) then ngxe_writer_handler E (Write_ev c) w else Inr w)
     | (_, w) \<Rightarrow>
         rbind (deref (writer_callback (sessions w s))) (\<lambda>cb.
           fail_connection E c cb (- 2) ''Event error'' w)"
  have sk: "skel ?w = skel w" by (rule skel_ev_frame)
  have l: "live c ?w" using used live_cong[OF sk] by blast
  have "post (evolve X w1) (?f w1)" if l1: "live c w1" for w1
  proof -
    obtain rc w2 where h: "ngx_handle_write_event E (Write_ev c) w1 = (rc, w2)" by fastforce
    have e: "live c w2" "evolve X w1 w2" using handle_event_live[OF l1 disjI1[OF h]] by blast+
    have fail: "post (evolve X w2) (fail_connection E c cb n msg w2)" for cb n msg
      using live_good[OF e(1)] assms(3) by (intro fail_connection_evolve) (simp_all add: good_def)
    have "post (evolve X w2) (rbind (deref (writer_callback (sessions w2 s))) (\<lambda>cb.
           fail_connection E c cb (- 2) ''Event error'' w2))" by (rule seq_value) (rule fail)
    moreover have "post (evolve X w2)
        (rbind (add_timer_unless_set (Write_ev c) (writer_timeout (sessions w2 s)) w2) (\<lambda>w.
         if ev_ready (c_write (conns w c)) then ngxe_writer_handler E (Write_ev c) w else Inr w))"
      by (rule seq_live_evolve[OF add_timer_unless_set_live[OF e(1) _ assms(3)]])
         (use assms(3) in \<open>auto intro!: ngxe_writer_handler_evolve evolve_refl simp: live_ok live_less\<close>)
    ultimately show ?thesis using evolve_trans[OF e(2)] by (cases rc) (auto simp: h intro: post_mono)
  qed
  then have "post (evolve X ?w) (rbind (del_timer_if_set (Write_ev c) ?w) ?f)"
    using seq_live_evolve[OF del_timer_if_set_live[OF l _ assms(3)]] by simp
  from post_evolve_skel[OF this sk] show "post (evolve X w) (let w = ?w in
     rbind (del_timer_if_set (Write_ev c) w) ?f)" by (simp only: Let_def)
qed

lemma fail_reader_step:
  assumes "good c w" "c \<in> X"
  shows "post (step X w (reader_needs c)) (rbind (fail_connection E c cb n msg w) (\<lambda>w. Inr (Reader_return, w)))"
  using fail_connection_evolve[of w c X cb n msg] assms good_evolve[OF assms(1)]
  by (cases "fail_connection E c cb n msg w") (simp_all add: good_def)

lemma await_read_step:
  assumes "live c w" "c \<in> X"
  shows "post (step X w (\<lambda>ok w'. if ok then live c w' else good c w')) (await_read E c cb w)"
proof -
  obtain rc w1 where h: "ngx_handle_read_event E (Read_ev c) w = (rc, w1)" by fastforce
  have e: "live c w1" "evolve X w w1" using handle_event_live[OF assms(1) disjI2[OF h]] by blast+
  have "post (evolve X w1) (fail_connection E c cb (- 2) ''Event error'' w1)"
    using live_good[OF e(1)] assms(2) by (intro fail_connection_evolve) (simp_all add: good_def)
  then have "post (step X w (\<lambda>ok w'. if ok then live c w' else good c w'))
     (rbind (fail_connection E c cb (- 2) ''Event error'' w1) (\<lambda>w. Inr (False, w)))"
    using good_evolve[OF live_good[OF e(1)]] evolve_trans[OF e(2)]
    by (cases "fail_connection E c cb (- 2) ''Event error'' w1") auto
  then show ?thesis using e by (cases rc) (simp_all add: await_read_def h)
qed

lemma wait_readable_step:
  assumes "live c w" "c \<in> X"
  shows "post (step X w (reader_needs c)) (wait_readable E c s cb w)"
  unfolding wait_readable_def
  by (rule step_seq_step[OF await_read_step[OF assms]])
     (auto simp: arm_reader_step assms(2) intro: evolve_refl good_ok live_ok split: if_splits)

lemma reader_got_step:
  assumes "live c w" "c \<in> X"
  shows "post (step X w (reader_needs c)) (reader_got E c s cb b w)"
  unfolding reader_got_def
proof (rule step_seq_step[OF await_read_step[OF assms]], unfold prod.case)
  fix ok and w1 :: "('k, 'm) world" assume l: "if ok then live c w1 else good c w1"
  have "post (step X w1 (reader_needs c))
     (rbind (add_timer_unless_set (Read_ev c) (reader_timeout (sessions w1 s)) w1) (\<lambda>w.
       rbind (nth_arg cb 4 w) (\<lambda>min_len.
       if too_short E b min_len w then wait_readable E c s cb w
       else Inr (Callback, w))))" if "live c w1"
    by (rule seq_live_step[OF add_timer_unless_set_live[OF that _ assms(2)]], simp, rule seq_value)
       (auto intro: wait_readable_step assms(2) evolve_refl live_ok live_good)
  then show "post (step X w1 (reader_needs c)) (if \<not> ok then Inr (Reader_return, w1)
     else
       rbind (add_timer_unless_set (Read_ev c) (reader_timeout (sessions w1 s)) w1) (\<lambda>w.
       rbind (nth_arg cb 4 w) (\<lambda>min_len.
       if too_short E b min_len w then wait_readable E c s cb w
       else Inr (Callback, w))))"
    using l by (simp add: evolve_refl good_ok split: if_splits)
qed

lemma same_sv_store: "post (\<lambda>w'. skel w' = skel w) (sv_store i cur bs w)"
  by (simp add: sv_store_def)

lemma reader_recv_step:
  assumes "live c w" "c \<in> X"
  shows "post (step X w (reader_needs c)) (reader_recv E c s cb b w)"
proof -
  let ?w = "if sv_len (svs w b) = sv_cur (svs w b) + 1
            then upd_sv b (ngxe_buf_svgrow E (sv_len (svs w b) + 16384)) w else w"
  let ?cur = "sv_cur (svs ?w b)" and ?len = "sv_len (svs ?w b)"
  have s: "skel ?w = skel w" by simp
  have l: "live c ?w" using assms(1) live_cong[OF s] by blast
  have "post (step X ?w (reader_needs c)) (rbind (ngx_unix_recv (loop_fuel E) E c (?len - ?cur - 1) ?w) (\<lambda>(n, bs, w).
           rbind (sv_store b ?cur bs w) (\<lambda>w.
           if n = - 1 \<or> n = 0 then
             rbind (fail_connection E c cb 1 ''Read error'' w) (\<lambda>w. Inr (Reader_return, w))
           else if n = - 2 then arm_reader c s w
           else reader_got E c s cb b (upd_sv b (sv_cur_update (\<lambda>_. ?cur + nat n)) w))))"
  proof (rule seq_recv[OF l], unfold prod.case, rule seq_step_skel[OF same_sv_store])
    fix n bs and w1 w2 :: "('k, 'm) world" assume "live c w1" "skel w2 = skel w1"
    then have l2: "live c w2" using live_cong by blast
    let ?w3 = "upd_sv b (sv_cur_update (\<lambda>_. ?cur + nat n)) w2"
    have s3: "skel ?w3 = skel w2" by simp
    have "post (step X w2 (reader_needs c)) (reader_got E c s cb b ?w3)"
      using step_skel[OF s3 reader_got_step[OF _ assms(2)]] live_cong[OF s3] l2 by blast
    then show "post (step X w2 (reader_needs c)) (if n = - 1 \<or> n = 0 then
             rbind (fail_connection E c cb 1 ''Read error'' w2) (\<lambda>w. Inr (Reader_return, w))
           else if n = - 2 then arm_reader c s w2 else reader_got E c s cb b ?w3)"
      using fail_reader_step[OF live_good[OF l2] assms(2)] arm_reader_step[OF l2 assms(2)] by simp
  qed
  moreover have "post (step X ?w (reader_needs c)) (Inr (Callback, ?w))"
    using l by (simp only: post_simps step_simp) (simp add: evolve_refl live_ok live_good)
  ultimately have "post (step X ?w (reader_needs c)) (reader_recv E c s cb b w)"
    unfolding reader_recv_def Let_def by (intro post_if)
  then show ?thesis by (rule step_skel[OF s])
qed

lemma reader_callback_step_step:
  assumes "good c w" "c \<in> X"
  shows "post (step X w (reader_needs c)) (reader_callback_step E c s cb w)"
  unfolding reader_callback_step_def
proof (rule callback_step[OF assms(1) refl])
  fix w1 :: "('k, 'm) world" assume g: "good c w1"
  let ?w = "upd_session s (\<lambda>x. x\<lparr>writer_offset := 0, writer_index := 0\<rparr>) w1"
  have sk: "skel ?w = skel w1" by simp
  have g2: "good c ?w" using g good_cong[OF sk] by blast
  have "post (evolve X ?w) (rbind (ngxe_reader_stop c ?w) (ngxe_writer_start E c))"
    by (rule seq_evolve[OF ngxe_stop_evolve(1)[OF good_ok[OF g2] assms(2)]])
       (use g2 assms(2) in \<open>auto intro!: ngxe_writer_start_evolve dest: good_evolve simp: good_ok good_less\<close>)
  from post_evolve_skel[OF this sk]
  have "post (step X w1 (reader_needs c)) (rbind (rbind (ngxe_reader_stop c ?w) (ngxe_writer_start E c))
       (\<lambda>w. Inr (Reader_return, w)))"
    using good_evolve[OF g] by (cases "rbind (ngxe_reader_stop c ?w) (ngxe_writer_start E c)") simp_all
  moreover have "post (step X w1 (reader_needs c)) (wait_readable E c s cb w1)"
    if "\<not> c_destroyed (conns w1 c)"
    by (rule wait_readable_step[OF good_live[OF g that] assms(2)])
  moreover have "post (step X w1 (reader_needs c)) (Inr (Reader_return, w1))"
    using g by (simp add: evolve_refl good_ok)
  ultimately show "post (step X w1 (reader_needs c)) (if c_destroyed (conns w1 c) then Inr (Reader_return, w1)
     else if ev_handler (c_read (conns w1 c)) = Ngxe_dummy_handler then Inr (Reader_return, w1)
     else if ev_handler (c_write (conns w1 c)) \<noteq> Ngxe_dummy_handler then Inr (Reader_return, w1)
     else if writer_has_data s w1 then
       let w = ?w in
       rbind (ngxe_reader_stop c w) (\<lambda>w.
       rbind (ngxe_writer_start E c w) (\<lambda>w. Inr (Reader_return, w)))
     else wait_readable E c s cb w1)"
    unfolding Let_def rbind_assoc by (intro post_if) assumption+
qed

lemma reader_loop_evolve:
  assumes "c \<in> X"
  shows "reader_needs c nx w \<Longrightarrow> post (evolve X w) (reader_loop n E c s cb b (nx, w))"
proof (induction n arbitrary: nx w)
  case 0
  then show ?case using reader_needs_good[OF 0] by (simp add: evolve_refl good_ok)
next
  case (Suc n)
  have g: "good c w" by (rule reader_needs_good[OF Suc.prems])
  have "post (step X w (reader_needs c)) (if nx = Recvagain then reader_recv E c s cb b w
                   else reader_callback_step E c s cb w)"
    using Suc.prems reader_callback_step_step[OF g assms] reader_recv_step[OF _ assms] by auto
  from step_seq_evolve[OF this] Suc.IH show ?case
    using evolve_refl[OF good_ok[OF g]] by simp
qed

lemma ngxe_reader_handler_evolve:
  assumes "slots_ok w" "ev_conn ev < connection_n w" "ev_conn ev \<in> X"
  shows "post (evolve X w) (ngxe_reader_handler E ev w)"
  unfolding ngxe_reader_handler_def Let_def
proof (rule seq_value)
  fix sp assume sp: "session_of (ev_conn ev) w = Inr sp"
  have l: "live (ev_conn ev) w" if "sp = Some s" for s
    using session_used(1)[OF assms(1,2)] sp that assms(1) by (simp add: live_def)
  have "post (evolve X w) (timed_out E (ev_conn ev) cb w)" if "live (ev_conn ev) w" for cb
    using live_good[OF that] assms(3) by (intro timed_out_evolve) (simp_all add: good_def)
  moreover have "post (evolve X w) (rbind (del_timer_if_set (Read_ev (ev_conn ev)) w) (\<lambda>w.
                   reader_loop (loop_fuel E) E (ev_conn ev) s cb b (Recvagain, w)))"
    if "live (ev_conn ev) w" for s cb b
    by (rule seq_live_evolve[OF del_timer_if_set_live[OF that _ assms(3)]])
       (simp, rule reader_loop_evolve[OF assms(3)], simp)
  ultimately show "post (evolve X w) (case sp of
        None \<Rightarrow> Inr w
      | Some s \<Rightarrow>
          (case (reader_callback (sessions w s), reader_buffer (sessions w s)) of
             (Some cb, Some svbuf) \<Rightarrow>
               if ev_timedout (get_ev ev w) then timed_out E (ev_conn ev) cb w
               else
                 rbind (del_timer_if_set (Read_ev (ev_conn ev)) w) (\<lambda>w.
                   reader_loop (loop_fuel E) E (ev_conn ev) s cb svbuf (Recvagain, w))
           | _ \<Rightarrow> Inr w))"
    using l assms(1) by (simp add: evolve_refl del: reader_loop.simps split: option.split)
qed

lemma ngxe_client_init_handler_evolve:
  assumes "slots_ok w" "ev_conn ev < connection_n w" "ev_conn ev \<in> X"
  shows "post (evolve X w) (ngxe_client_init_handler E ev w)"
proof -
  let ?c = "ev_conn ev"
  let ?w = "upd_ev (Write_ev ?c) (ev_handler_update (\<lambda>_. Ngxe_dummy_handler))
    (upd_ev (Read_ev ?c) (ev_handler_update (\<lambda>_. Ngxe_dummy_handler)) w)"
  have s: "skel ?w = skel w" by (simp only: skel_ev_frame)
  have ok: "slots_ok ?w" "?c < connection_n ?w" using assms slots_ok_cong[OF s] skel_eqD(5)[OF s] by simp_all
  have "post (evolve X ?w) (ngxe_client_init_handler E ev w)"
    unfolding ngxe_client_init_handler_def Let_def
  proof (rule seq_value)
    fix sp assume sp: "session_of ?c ?w = Inr sp"
    have l: "live ?c ?w" if "sp = Some s'" for s'
      using session_used(1)[OF ok] sp that ok(1) by (simp add: live_def)
    have "post (evolve X ?w) (timed_out E ?c cb ?w)" "post (evolve X ?w) (fail_connection E ?c cb n msg ?w)"
      if "live ?c ?w" for cb n msg
      using live_good[OF that] assms(3)
      by (intro timed_out_evolve fail_connection_evolve; simp add: good_def)+
    moreover have "post (evolve X ?w) (rbind (del_timer_if_set (Write_ev ?c) ?w) (ngxe_callback E cb True))"
      if "live ?c ?w" for cb
      by (rule seq_live_evolve[OF del_timer_if_set_live[OF that _ assms(3)]])
         (simp, rule ngxe_callback_evolve, rule live_ok)
    ultimately show "post (evolve X ?w) (case sp of
           None \<Rightarrow> Inr ?w
         | Some s \<Rightarrow>
             (case writer_callback (sessions ?w s) of
                None \<Rightarrow> Inr ?w
              | Some cb \<Rightarrow>
                  if ev_error (get_ev ev ?w) then fail_connection E ?c cb (- 1) ''Connect error'' ?w
                  else if ev_timedout (get_ev ev ?w) then timed_out E ?c cb ?w
                  else
                    rbind (del_timer_if_set (Write_ev ?c) ?w) (\<lambda>w. ngxe_callback E cb True w)))"
      using l evolve_refl[OF ok(1)] by (cases sp) (simp_all only: option.case post_simps split: option.split if_split, blast)
  qed
  then show ?thesis by (rule post_evolve_skel[OF _ s])
qed

end

end
