(* ===== verification/Ngxe_Scripts.thy ===== *)
theory Ngxe_Scripts
  imports Ngxe_Handlers
begin

text \<open>
  The operations that Perl code may call keep the invariant of the slots, so that scripts
  made of them satisfy the contract of the handlers.
\<close>

section \<open>Operations that do not touch slots\<close>

lemma skel_make_args [simp]: "skel (snd (make_args as w)) = skel w"
proof (induction as w rule: make_args.induct)
  case (2 s as w)
  then show ?case by (simp add: case_prod_beta new_sv_def)
qed (simp_all add: case_prod_beta)

lemma same_fill_callback: "post (\<lambda>w'. skel w' = skel w) (fill_callback E p cb sub specs w)"
proof -
  obtain hs w1 where 1: "make_args [Fresh (p_newSVsv E (svs w sub))] w = (hs, w1)" by fastforce
  have s1: "skel w1 = skel w" using skel_make_args[of "[Fresh (p_newSVsv E (svs w sub))]" w] 1 by simp
  let ?w = "upd_cb cb (\<lambda>x. x\<lparr>cb_handler := Some (hd hs), cb_args_n := length specs\<rparr>) w1"
  have "post (\<lambda>w'. skel w' = skel ?w) (rbind (pool_alloc E p ngx_palloc sz ?w) (\<lambda>(a, w).
      case a of
        None \<Rightarrow> Inl Null_deref
      | Some _ \<Rightarrow>
          case make_args specs w of (is, w) \<Rightarrow>
          Inr (upd_cb cb (cb_args_update (\<lambda>_. is)) w)))" for sz
    using same_pool_alloc[of ?w E p ngx_palloc sz] skel_make_args[of specs]
    by (cases "pool_alloc E p ngx_palloc sz ?w") (auto simp: case_prod_beta split: option.split)
  then show ?thesis using s1 by (simp only: fill_callback_def 1 prod.case Let_def skel_upd_frame)
qed

lemma same_alloc_callback: "post (\<lambda>(a, w'). skel w' = skel w) (alloc_callback E p w)"
  using same_pool_alloc[of w E p ngx_palloc sizeof_ngxe_callback_t]
  by (cases "pool_alloc E p ngx_palloc sizeof_ngxe_callback_t w") (auto simp: alloc_callback_def split: option.split)

lemma same_add_cleanup: "post (\<lambda>(ok, w'). skel w' = skel w) (add_cleanup E p h d w)"
  using same_pool_alloc[of w E p ngx_pool_cleanup_add 0]
  by (cases "pool_alloc E p ngx_pool_cleanup_add 0 w") (auto simp: add_cleanup_def split: option.split)

lemma same_seq:
  assumes "post (\<lambda>(a, w'). skel w' = skel w) r" "\<And>a w'. skel w' = skel w \<Longrightarrow> post (\<lambda>(b, w''). skel w'' = skel w') (f (a, w'))"
  shows "post (\<lambda>(b, w''). skel w'' = skel w) (rbind r f)"
proof (cases r)
  case (Inr x)
  then show ?thesis using assms(1) assms(2)[of "snd x" "fst x"] by (cases x) simp
qed simp

lemma same_alloc_callback_cleanup: "post (\<lambda>(a, w'). skel w' = skel w) (alloc_callback_cleanup E p w)"
  unfolding alloc_callback_cleanup_def
proof (rule same_seq[OF same_alloc_callback], unfold prod.case)
  fix a and w1 :: "('a, 'b) world"
  show "post (\<lambda>(b, w''). skel w'' = skel w1) (case a of
       None \<Rightarrow> Inr (None, w1)
     | Some cb \<Rightarrow>
         rbind (add_cleanup E p Ngxe_callback_cleanup cb w1) (\<lambda>(ok, w).
           Inr (if ok then Some cb else None, w)))"
    by (cases a) (auto intro!: same_seq[OF same_add_cleanup])
qed

lemma skel_attach_buffers [simp]: "skel (attach_buffers s cb w) = skel w"
  by (simp add: attach_buffers_def Let_def)

lemma same_alloc_all: "post (\<lambda>(ok, w'). skel w' = skel w) (alloc_all E p szs w)"
proof (induction szs arbitrary: w)
  case (Cons sz szs)
  show ?case unfolding alloc_all.simps
  proof (rule same_seq[OF same_pool_alloc])
    show "post (\<lambda>(b, w''). skel w'' = skel w') ((\<lambda>(a, w). if a = None then Inr (False, w)
        else alloc_all E p szs w) (a, w'))" for a and w' :: "('a, 'b) world"
      using Cons.IH[of w'] by simp
  qed
qed simp

section \<open>Slots that change hands\<close>

lemma set_data_evolve:
  assumes "live c w" "\<not> is_interval c w"
  shows "evolve X w (upd_conn c (c_data_update (\<lambda>_. d)) w)" "live c (upd_conn c (c_data_update (\<lambda>_. d)) w)"
proof -
  let ?w = "upd_conn c (c_data_update (\<lambda>_. d)) w"
  obtain fs where inv: "slots_inv fs w" using assms(1) by (auto simp: live_def slots_ok_def)
  have c: "c \<notin> set fs" using assms(1) is_free_iff[OF inv] by (simp add: live_def used_def)
  have other: "c_data (conns ?w e) = c_data (conns w e)" if "e \<noteq> c" for e using that by (simp add: upd_conn_def)
  have dest: "c_destroyed (conns ?w e) = c_destroyed (conns w e)" for e by (simp add: upd_conn_def)
  have w: "connection_n ?w = connection_n w" "free_connections ?w = free_connections w"
    "free_connection_n ?w = free_connection_n w" "timers ?w = timers w" by (simp_all add: upd_conn_def)
  have ev: "get_ev e ?w = get_ev e w" for e by (cases e) (simp_all add: upd_conn_def)
  have fp: "free_path ?w s fs = free_path w s fs" for s by (rule free_path_cong) (use c other in metis)
  have inv': "slots_inv fs ?w" using inv unfolding slots_inv_def w ev fp .
  then show "live c ?w" using assms(1) is_free_iff[OF inv'] c
    by (auto simp: live_def used_def slots_ok_def w)
  have "safe e ?w = safe e w" for e by (simp only: safe_def is_free_iff[OF inv] is_free_iff[OF inv'] w dest)
  then show "evolve X w ?w" using inv' assms(2) other
    by (auto simp: evolve_def slots_ok_def w ev is_interval_def) metis
qed

lemma get_connection_new:
  assumes "slots_ok w" "ngx_get_connection s w = (Some c, w')"
  shows "evolve X w w'" "live c w'" "\<not> is_interval c w'" "\<not> is_interval c w"
proof -
  note g = get_connection_evolve[OF assms]
  show e: "evolve X w w'" by (rule g(1))
  show "live c w'" using g(2,3) e by (simp add: live_def used_def evolve_def)
  show "\<not> is_interval c w'" using g(4) by (simp add: is_interval_def)
  obtain fs where inv: "slots_inv fs w" using assms(1) by (auto simp: slots_ok_def)
  have "free_connections w = Some c"
    using assms(2) by (auto simp: ngx_get_connection_def split: option.splits)
  then have "c \<in> set fs" using inv by (cases fs) (auto simp: slots_inv_def)
  then show "\<not> is_interval c w"
    using inv free_path_no_data[of w _ fs c] by (auto simp: slots_inv_def is_interval_def)
qed

lemma get_connection_none: "ngx_get_connection s w = (None, w') \<Longrightarrow> w' = w"
  by (auto simp: ngx_get_connection_def split: option.splits)

text \<open>Pieces that return a value and a world with the same slots\<close>

lemma seq_same_step:
  assumes "post (\<lambda>(a, w'). skel w' = skel w) r" "\<And>a w'. skel w' = skel w \<Longrightarrow> post (step X w' P) (f (a, w'))"
  shows "post (step X w P) (rbind r f)"
proof (cases r)
  case (Inr x)
  obtain a w' where x: "x = (a, w')" by (cases x)
  have s: "skel w' = skel w" using assms(1) by (simp add: Inr x)
  from step_skel[OF s assms(2)[OF s]] show ?thesis by (simp add: Inr x)
qed simp

lemma seq_same_evolve:
  assumes "post (\<lambda>(a, w'). skel w' = skel w) r" "\<And>a w'. skel w' = skel w \<Longrightarrow> post (evolve X w') (f (a, w'))"
  shows "post (evolve X w) (rbind r f)"
proof (cases r)
  case (Inr x)
  obtain a w' where x: "x = (a, w')" by (cases x)
  have s: "skel w' = skel w" using assms(1) by (simp add: Inr x)
  from post_evolve_skel[OF assms(2)[OF s] s] show ?thesis by (simp add: Inr x)
qed simp

section \<open>Timers\<close>

lemma timer_start_step:
  assumes "live c w"
  shows "post (step {c} w (\<lambda>_ _. True)) (timer_start E c pool msec sub as iv cb w)"
proof -
  let ?w = "w\<lparr>intervals := (intervals w)(iv := (intervals w iv)\<lparr>iv_callback := Some cb\<rparr>)\<rparr>"
  have "post (step {c} w' (\<lambda>_ _. True))
      (rbind (ngx_event_add_timer (Read_ev c) (word_of_int msec) w') (\<lambda>w. Inr (Some iv, w)))"
    if "skel w' = skel ?w" for w'
  proof -
    have "skel w' = skel w" using that by simp
    then have "live c w'" using assms live_cong by blast
    then show ?thesis using add_timer_evolve[of w' "Read_ev c" "{c}" "word_of_int msec"]
      by (cases "ngx_event_add_timer (Read_ev c) (word_of_int msec) w'") (simp_all add: live_def used_def)
  qed
  then have "post (step {c} ?w (\<lambda>_ _. True)) (timer_start E c pool msec sub as iv cb w)"
    unfolding timer_start_def Let_def by (rule seq_step_skel[OF same_fill_callback])
  from step_skel[OF _ this, of w] show ?thesis by simp
qed

lemma timer_init_step:
  assumes "live c w" "\<not> is_interval c w"
  shows "post (step {c} w (\<lambda>_ _. True)) (timer_init E c pool msec sub as iv w)"
proof -
  let ?w = "w\<lparr>intervals := (intervals w)(iv := \<lparr>iv_msec = msec, iv_callback = None, iv_connection = Some c\<rparr>)\<rparr>"
  let ?w2 = "upd_conn c (c_data_update (\<lambda>_. Data_interval iv)) ?w"
  have sw: "skel ?w = skel w" by simp
  have "live c ?w" using assms(1) live_cong[OF sw] by blast
  moreover have "\<not> is_interval c ?w" using assms(2) by (simp add: is_interval_def)
  ultimately have e: "evolve {c} ?w ?w2" "live c ?w2" by (rule set_data_evolve)+
  have "post (step {c} ?w2 (\<lambda>_ _. True)) (timer_init E c pool msec sub as iv w)"
    unfolding timer_init_def Let_def
  proof (rule seq_same_step[OF same_alloc_callback], unfold prod.case)
    fix a and w' :: "('a, 'b) world" assume "skel w' = skel ?w2"
    then have "live c w'" using e(2) live_cong by blast
    then show "post (step {c} w' (\<lambda>_ _. True)) (case a of
           None \<Rightarrow> Inr (None, w')
         | Some cb \<Rightarrow> timer_start E c pool msec sub as iv cb w')"
      by (cases a) (simp_all add: timer_start_step evolve_refl live_ok)
  qed
  from step_skel[OF sw step_trans[OF e(1) this]] show ?thesis .
qed

lemma ngxe_timer_set_evolve:
  assumes "slots_ok w"
  shows "post (evolve X w) (rbind (ngxe_timer_set E h msec sub as w) (\<lambda>(r, w). Inr w))"
proof (cases "ngx_get_connection 0 w")
  case (Pair r w0)
  show ?thesis
  proof (cases r)
    case None
    then show ?thesis using Pair get_connection_none[of 0 w w0] evolve_refl[OF assms]
      by (simp add: ngxe_timer_set_def)
  next
    case (Some c)
    note g = get_connection_new[OF assms Pair[unfolded Some]]
    define w1 where "w1 = upd_ev (Read_ev c) (\<lambda>x. x\<lparr>ev_handler := h, ev_active := True\<rparr>) w0"
    obtain pool w2 where 2: "create_pool E 128 w1 = (pool, w2)" by fastforce
    define w3 where "w3 = upd_conn c (c_pool_update (\<lambda>_. pool)) w2"
    have "skel w1 = skel w0" unfolding w1_def by (rule skel_upd_ev) simp_all
    then have s3: "skel w3 = skel w0"
      using skel_create_pool[of E 128 w1] 2 by (simp add: w3_def)
    have "post (step {c} w3 (\<lambda>_ _. True)) (rbind (pool_alloc E pool ngx_palloc sizeof_ngxe_interval_t w3)
       (\<lambda>(a, w). case a of
            None \<Rightarrow> Inr (None, w)
          | Some iv \<Rightarrow> timer_init E c pool msec sub as iv w))"
    proof (rule seq_same_step[OF same_pool_alloc], unfold prod.case)
      fix a and w' :: "('a, 'b) world" assume "skel w' = skel w3"
      then have s: "skel w' = skel w0" using s3 by simp
      have l: "live c w'" "\<not> is_interval c w'"
        using g(2,3) live_cong[OF s] skel_eqD(1)[OF s, of c] by (simp_all add: is_interval_def)
      then show "post (step {c} w' (\<lambda>_ _. True)) (case a of
            None \<Rightarrow> Inr (None, w')
          | Some iv \<Rightarrow> timer_init E c pool msec sub as iv w')"
        by (cases a) (simp_all add: timer_init_step evolve_refl live_ok)
    qed
    from step_trans[OF g(1) step_skel[OF s3 this]]
    have "post (step {c} w (\<lambda>_ _. True)) (ngxe_timer_set E h msec sub as w)"
      by (simp only: ngxe_timer_set_def Pair Some prod.case option.case Let_def 2[unfolded w1_def] w3_def)
    then show ?thesis
      by (cases "ngxe_timer_set E h msec sub as w") (use evolve_any[OF evolve_unless[OF _ g(4)]] in \<open>auto simp: step_def\<close>)
  qed
qed

section \<open>Servers\<close>

lemma skel_with_kernel: "with_kernel f w = (r, w') \<Longrightarrow> skel w' = skel w"
  by (auto simp: with_kernel_def split: prod.splits)

lemma skel_open_listening_socket [simp]: "skel (ngx_ngxe_open_listening_socket E l w) = skel w"
  by (auto simp: ngx_ngxe_open_listening_socket_def Let_def dest!: skel_with_kernel split: prod.split)

lemma keep_seq:
  assumes "post (\<lambda>(a, w'). skel w' = k) r" "\<And>a w'. skel w' = k \<Longrightarrow> post (\<lambda>(b, w''). skel w'' = k) (f (a, w'))"
  shows "post (\<lambda>(b, w''). skel w'' = k) (rbind r f)"
  using assms by (cases r) auto

lemma keep_pool_alloc: "skel w = k \<Longrightarrow> post (\<lambda>(a, w'). skel w' = k) (pool_alloc E p f sz w)"
  using same_pool_alloc[of w E p f sz] by simp

lemma same_create_listening: "post (\<lambda>(l, w'). skel w' = skel w) (ngx_ngxe_create_listening E p a port w)"
  unfolding ngx_ngxe_create_listening_def Let_def
  by (intro keep_seq[OF keep_pool_alloc] refl) (auto split: option.split intro!: keep_seq[OF keep_pool_alloc])

lemma skel_epoll_del_event: "skel (snd (ngx_epoll_del_event E e cl fl w)) = skel w"
  by (auto simp: ngx_epoll_del_event_def Let_def dest!: skel_epoll_ctl
      split: prod.splits ngx_rc.splits if_splits)

lemma add_listening_connection_evolve:
  assumes "slots_ok w" "ngx_ngxe_add_listening_connection E l w = (rc, w')"
  shows "evolve X w w' \<and> (rc = NGX_OK \<longrightarrow>
    (\<exists>c. ls_connection (listenings w' l) = Some c \<and> live c w' \<and> \<not> is_interval c w'))"
proof -
  obtain r w0 where 0: "ngx_get_connection (ls_fd (listenings w l)) w = (r, w0)" by fastforce
  show ?thesis
  proof (cases r)
    case None
    then have "w' = w" "rc = NGX_ERROR" using assms(2) 0 get_connection_none[OF 0[unfolded None]]
      by (simp_all add: ngx_ngxe_add_listening_connection_def)
    then show ?thesis using assms(1) by (simp add: evolve_refl)
  next
    case (Some c)
    note g = get_connection_new[OF assms(1) 0[unfolded Some]]
    define w1 where "w1 = upd_listening l (ls_connection_update (\<lambda>_. Some c)) (upd_conn c (c_listening_update (\<lambda>_. Some l)) w0)"
    define w2 where "w2 = upd_ev (Read_ev c) (\<lambda>x. x\<lparr>ev_accept := True,
                    ev_deferred_accept := ls_deferred_accept (listenings w1 l)\<rparr>) w1"
    define w3 where "w3 = (case ls_previous (listenings w2 l) of
                     None \<Rightarrow> w2
                   | Some old \<Rightarrow> upd_conn old (c_fd_update (\<lambda>_. - 1))
                                   (snd (ngx_epoll_del_event E (Read_ev old) True 0 w2)))"
    define w4 where "w4 = upd_ev (Read_ev c) (ev_handler_update (\<lambda>_. Ngx_event_accept)) w3"
    have w': "ngx_epoll_add_event E (Read_ev c) 0 w4 = (rc, w')"
      using assms(2) 0 Some by (simp only: ngx_ngxe_add_listening_connection_def prod.case option.case Let_def w4_def w3_def w2_def w1_def)
    have "skel w2 = skel w1" unfolding w2_def by (rule skel_upd_ev) simp_all
    then have "skel w3 = skel w0"
      using skel_epoll_del_event[of E _ True 0 w2] by (auto simp: w3_def w1_def split: option.split)
    then have s: "skel w' = skel w0" using skel_epoll_add_event[OF w'] by (simp only: w4_def skel_ev_frame)
    have ls: "listenings w' = listenings w4"
      using w' by (auto simp: ngx_epoll_add_event_def epoll_ctl_def upd_conn_def Let_def split: prod.splits option.splits if_splits)
    have "ls_connection (listenings w4 l) = Some c"
      by (auto simp: w4_def w3_def w2_def w1_def upd_conn_def upd_listening_def ngx_epoll_del_event_def split: option.split)
    then show ?thesis
      using ls g live_cong[OF s] skel_eqD(1)[OF s, of c] evolve_trans[OF g(1) evolve_skel[OF live_ok[OF g(2)] s]]
      by (simp add: is_interval_def)
  qed
qed

definition listens :: "addr option \<Rightarrow> ('k, 'm) world \<Rightarrow> bool" where
  "listens l w \<longleftrightarrow> l = None \<or> (\<exists>c. ls_connection (listenings w (the l)) = Some c \<and> live c w \<and> \<not> is_interval c w)"

lemma server_listen_step:
  assumes "slots_ok w"
  shows "post (step X w listens) (server_listen E p l w)"
proof -
  define w1 where "w1 = ngx_ngxe_open_listening_socket E l
       (upd_listening l (\<lambda>x. x\<lparr>ls_pool_size := 256, ls_addr_ntop := True\<rparr>) w)"
  have s1: "skel w1 = skel w" by (simp add: w1_def)
  have ok: "slots_ok w1" using assms slots_ok_cong[OF s1] by simp
  obtain rc w2 where 2: "ngx_ngxe_add_listening_connection E l w1 = (rc, w2)" by fastforce
  note e = add_listening_connection_evolve[OF ok 2, of X]
  have e': "evolve X w w2" using e evolve_skel_left[OF s1] by simp
  have "post (step X w listens) (rbind (deref (ls_connection (listenings w2 l))) (\<lambda>c.
            Inr (Some l, upd_conn c (c_pool_update (\<lambda>_. Some p)) w2)))" if rc: "rc = NGX_OK"
  proof -
    obtain c where c: "ls_connection (listenings w2 l) = Some c" "live c w2" "\<not> is_interval c w2"
      using e rc by auto
    let ?w = "upd_conn c (c_pool_update (\<lambda>_. Some p)) w2"
    have s: "skel ?w = skel w2" by simp
    have "listenings ?w = listenings w2" by (simp add: upd_conn_def)
    then show ?thesis
      using c live_cong[OF s] skel_eqD(1)[OF s, of c] evolve_trans[OF e' evolve_skel[OF live_ok[OF c(2)] s]]
      by (simp add: deref_def is_interval_def listens_def)
  qed
  then show ?thesis using e'
    by (cases rc) (simp_all add: server_listen_def Let_def 2 listens_def flip: w1_def)
qed

lemma ngxe_server_create_step:
  assumes "slots_ok w"
  shows "post (step X w listens) (ngxe_server_create E a port w)"
proof -
  obtain r w0 where 0: "create_pool E 256 w = (r, w0)" by fastforce
  have s0: "skel w0 = skel w" using skel_create_pool[of E 256 w] 0 by simp
  have none: "post (step X w' listens) (Inr (None, w'))" if "slots_ok w'" for w'
    using that by (simp add: evolve_refl listens_def)
  have listen: "post (step X w1 listens) (rbind (ngx_ngxe_create_listening E (Some p) a port w1) (\<lambda>(l, w).
            case l of None \<Rightarrow> Inr (None, w) | Some l \<Rightarrow> server_listen E p l w))" if "slots_ok w1" for w1 p
  proof (rule seq_same_step[OF same_create_listening], unfold prod.case)
    fix l and w2 :: "('a, 'b) world" assume s: "skel w2 = skel w1"
    then have "slots_ok w2" using that slots_ok_cong[OF s] by simp
    then show "post (step X w2 listens) (case l of None \<Rightarrow> Inr (None, w2) | Some l \<Rightarrow> server_listen E p l w2)"
      by (cases l) (simp_all add: none server_listen_step del: post_simps)
  qed
  have "post (step X w0 listens) (ngxe_server_create E a port w)"
  proof (cases r)
    case None
    then show ?thesis using none[of w0] assms slots_ok_cong[OF s0] by (simp add: ngxe_server_create_def 0)
  next
    case (Some p)
    show ?thesis unfolding ngxe_server_create_def 0 Some prod.case option.case
    proof (rule seq_same_step[OF same_pool_alloc], unfold prod.case, intro post_if)
      fix w1 :: "('a, 'b) world" assume s: "skel w1 = skel w0"
      then have ok: "slots_ok w1" using assms s0 slots_ok_cong[of w1 w] by simp
      show "post (step X w1 listens) (Inr (None, w1))" by (rule none[OF ok])
      show "post (step X w1 listens) (rbind (ngx_ngxe_create_listening E (Some p) a port w1) (\<lambda>(l, w).
            case l of None \<Rightarrow> Inr (None, w) | Some l \<Rightarrow> server_listen E p l w))" by (rule listen[OF ok])
    qed
  qed
  then show ?thesis by (rule step_skel[OF s0])
qed

lemma server_callback_step:
  assumes "live c w" "\<not> is_interval c w"
  shows "post (step X w (\<lambda>_ _. True)) (server_callback E c sub as w)"
  unfolding server_callback_def Let_def
proof (rule seq_same_step[OF same_alloc_callback_cleanup], unfold prod.case)
  fix cbp and w1 :: "('a, 'b) world" assume s1: "skel w1 = skel w"
  have "post (step X w1 (\<lambda>_ _. True)) (rbind (fill_callback E pool cb sub specs w1) (\<lambda>w.
            Inr (Some c, upd_conn c (c_data_update (\<lambda>_. Data_callback cb)) w)))" for pool cb specs
  proof (rule seq_step_skel[OF same_fill_callback])
    fix w2 :: "('a, 'b) world" assume "skel w2 = skel w1"
    then have s: "skel w2 = skel w" using s1 by simp
    have "live c w2" "\<not> is_interval c w2"
      using assms live_cong[OF s] skel_eqD(1)[OF s, of c] by (simp_all add: is_interval_def)
    from set_data_evolve(1)[OF this] show "post (step X w2 (\<lambda>_ _. True))
        (Inr (Some c, upd_conn c (c_data_update (\<lambda>_. Data_callback cb)) w2))" by simp
  qed
  moreover have "slots_ok w1" using assms(1) slots_ok_cong[OF s1] by (simp add: live_def)
  ultimately show "post (step X w1 (\<lambda>_ _. True)) (case cbp of
        None \<Rightarrow> Inr (None, w1)
      | Some cb \<Rightarrow>
          rbind (fill_callback E (c_pool (conns w c)) cb sub
            ([Fresh (SvIOK_only (p_newSViv E (int c))), Fresh (SvPOK_only (p_newSV E 56))]
               @ user_args E as w1) w1) (\<lambda>w.
            Inr (Some c, upd_conn c (c_data_update (\<lambda>_. Data_callback cb)) w)))"
    by (cases cbp) (simp_all add: evolve_refl)
qed

lemma server_open_evolve:
  assumes "slots_ok w"
  shows "post (evolve X w) (rbind (server_open E a port sub as w) (\<lambda>(r, w). Inr w))"
proof -
  have "post (step X w (\<lambda>_ _. True)) (server_open E a port sub as w)"
    unfolding server_open_def
  proof (rule step_seq_step[OF ngxe_server_create_step[OF assms]], unfold prod.case)
    fix l and w1 :: "('a, 'b) world" assume e: "evolve X w w1" "listens l w1"
    then show "post (step X w1 (\<lambda>_ _. True)) (case l of
       None \<Rightarrow> Inr (None, w1)
     | Some l \<Rightarrow>
         (case ls_connection (listenings w1 l) of
            None \<Rightarrow> Inr (None, w1)
          | Some c \<Rightarrow> server_callback E c sub as w1))"
      by (auto simp: listens_def server_callback_step evolve_refl evolve_slots_ok split: option.split)
  qed
  then show ?thesis by (cases "server_open E a port sub as w") (auto simp: step_def)
qed

lemma xs_ngxe_server_evolve:
  assumes "slots_ok w"
  shows "post (evolve X w) (rbind (xs_ngxe_server E a port sub as w) (\<lambda>(r, w). Inr w))"
  using server_open_evolve[OF assms] assms
  by (simp add: xs_ngxe_server_def evolve_refl split: option.split)

section \<open>Operations on a connection\<close>

text \<open>An operation that may change only the slot \<open>c\<close>, which is not a timer\<close>

lemma not_interval_evolve: "post (evolve {c} w) r \<Longrightarrow> \<not> is_interval c w \<Longrightarrow> post (evolve X w) r"
  by (erule post_mono) (rule evolve_any, erule evolve_unless, simp)

lemma valid_handle_not_interval: "valid_handle c w \<Longrightarrow> \<not> is_interval c w"
  by (auto simp: valid_handle_def is_interval_def)

lemma on_handle_evolve:
  assumes "\<And>w. slots_ok w \<Longrightarrow> valid_handle c w \<Longrightarrow> post (evolve {c} w) (f w)" "slots_ok w"
  shows "post (evolve X w) (on_handle c f w)"
  using not_interval_evolve[OF assms(1)[OF assms(2)]] valid_handle_not_interval[of c w]
  by (simp add: on_handle_def)

lemma with_session_evolve:
  assumes "\<And>s w. live c w \<Longrightarrow> post (evolve X w) (f s w)" "slots_ok w" "c < connection_n w"
  shows "post (evolve X w) (with_session c f w)"
proof -
  have "post (evolve X w) (rbind (session_of c w) (\<lambda>sp. case sp of None \<Rightarrow> Inr w | Some s \<Rightarrow> f s w))"
  proof (rule seq_value)
    fix sp assume "session_of c w = Inr sp"
    then show "post (evolve X w) (case sp of None \<Rightarrow> Inr w | Some s \<Rightarrow> f s w)"
      using session_used(1)[OF assms(2,3)] assms(1)[of w] assms(2)
      by (cases sp) (simp_all add: evolve_refl live_def)
  qed
  then show ?thesis using assms(2) by (simp add: with_session_def evolve_refl)
qed

lemma close_handle:
  assumes "slots_ok w" "valid_handle c w"
  shows "post (evolve {c} w) (ngxe_close E c w)"
proof (cases "c_destroyed (conns w c)")
  case False
  then obtain s where "c_data (conns w c) = Data_session s"
    using assms(2) by (auto simp: valid_handle_def split: cdata.splits)
  then have "used c w" using session_used(1)[OF assms(1)] assms(2)
    by (auto simp: session_of_def valid_handle_def)
  then show ?thesis using ngxe_close_evolve[OF assms(1) used_safe] by simp
qed (simp add: ngxe_close_def evolve_refl[OF assms(1)])

lemma post_evolve_cong:
  assumes "skel w' = skel w" "live c w" "\<And>w. live c w \<Longrightarrow> post (evolve X w) (f w)"
  shows "post (evolve X w) (f w')"
  using post_evolve_skel[OF assms(3) assms(1)] live_cong[OF assms(1)] assms(2) by simp

context callback_contract
begin

lemma reader_start_live: "live c w \<Longrightarrow> post (evolve {c} w) (ngxe_reader_start E c w)"
  by (rule ngxe_reader_start_evolve) (simp_all add: live_ok live_less)

lemma writer_start_live: "live c w \<Longrightarrow> post (evolve {c} w) (ngxe_writer_start E c w)"
  by (rule ngxe_writer_start_evolve) (simp_all add: live_ok live_less)

lemma xs_start_evolve:
  assumes "slots_ok w" "c < connection_n w"
  shows "post (evolve {c} w) (xs_ngxe_reader_start E c t w)" "post (evolve {c} w) (xs_ngxe_writer_start E c t w)"
proof -
  have *: "post (evolve {c} w) (f (case t of None \<Rightarrow> w | Some t \<Rightarrow> upd_session s (g t) w))"
    if "live c w" "\<And>w. live c w \<Longrightarrow> post (evolve {c} w) (f w)" for w f s g
    by (rule post_evolve_cong[OF _ that(1)]) (simp_all add: that(2) split: option.split)
  show "post (evolve {c} w) (xs_ngxe_reader_start E c t w)"
    unfolding xs_ngxe_reader_start_def
    by (rule with_session_evolve[OF _ assms], rule *, assumption, erule reader_start_live)
  show "post (evolve {c} w) (xs_ngxe_writer_start E c t w)"
    unfolding xs_ngxe_writer_start_def
    by (rule with_session_evolve[OF _ assms], rule *, assumption, erule writer_start_live)
qed

lemma xs_timeout_evolve:
  assumes "slots_ok w"
  shows "post (evolve X w) (rbind (xs_ngxe_reader_timeout c t w) (\<lambda>(r, w). Inr w))"
    "post (evolve X w) (rbind (xs_ngxe_writer_timeout c t w) (\<lambda>(r, w). Inr w))"
  unfolding xs_ngxe_reader_timeout_def xs_ngxe_writer_timeout_def
  by (cases "session_of c w"; simp add: evolve_refl[OF assms] evolve_skel assms split: option.split)+

lemma xs_switch_evolve:
  assumes "slots_ok w" "c < connection_n w"
  shows "post (evolve {c} w) (xs_ngxe_reader_stop_writer_start E c w)"
    "post (evolve {c} w) (xs_ngxe_writer_stop_reader_start E c w)"
  unfolding xs_ngxe_reader_stop_writer_start_def xs_ngxe_writer_stop_reader_start_def
  using assms
  by (auto intro!: seq_evolve[OF ngxe_stop_evolve(1)] seq_evolve[OF ngxe_stop_evolve(2)]
        ngxe_writer_start_evolve ngxe_reader_start_evolve dest: evolve_slots_ok simp: evolve_def)

lemma xs_ngxe_reader_evolve:
  assumes "slots_ok w" "c < connection_n w"
  shows "post (evolve {c} w) (xs_ngxe_reader E bs c start t sub as w)"
  unfolding xs_ngxe_reader_def
proof (rule with_session_evolve[OF _ assms], unfold Let_def, rule seq_same_evolve[OF same_alloc_callback_cleanup], unfold prod.case)
  fix s a and w1 w2 :: "('k, 'm) world" assume "live c w1" "skel w2 = skel w1"
  then have l: "live c w2" using live_cong by blast
  have "post (evolve {c} w3) (if start mod 2 = NGXE_START then ngxe_reader_start E c w4 else Inr w4)"
    if "skel w3 = skel w2" "skel w4 = skel w3" for w3 w4
  proof -
    have "live c w3" using l live_cong[OF that(1)] by simp
    then show ?thesis using post_evolve_cong[OF that(2) _ reader_start_live] that(2)
      by (simp add: evolve_skel live_ok)
  qed
  then show "post (evolve {c} w2) (case a of None \<Rightarrow> Inr w2
       | Some cb \<Rightarrow> rbind (fill_callback E (c_pool (conns w1 c)) cb sub
          ([Fresh (SvIOK_only (p_newSViv E (int c))), Fresh (SvIOK_only (p_newSViv E 0)),
                        reader_buffer_spec E bs (sessions w2 s),
                        (case writer_buffer (sessions w2 s) of
                           None \<Rightarrow> Fresh (SvPOK_only (p_newSV E 1)) | Some i \<Rightarrow> Shared i),
                        Fresh (SvIOK_only (p_newSViv E 0))] @ user_args E as w2) w2) (\<lambda>w.
              if start mod 2 = NGXE_START
              then ngxe_reader_start E c (upd_ev (Read_ev c) (ev_handler_update (\<lambda>_. Ngxe_dummy_handler))
                (upd_session s (\<lambda>x. x\<lparr>reader_flags := start, reader_callback := Some cb,
                        reader_timeout := t\<rparr>) (attach_buffers s cb w)))
              else Inr (upd_ev (Read_ev c) (ev_handler_update (\<lambda>_. Ngxe_dummy_handler))
                (upd_session s (\<lambda>x. x\<lparr>reader_flags := start, reader_callback := Some cb,
                        reader_timeout := t\<rparr>) (attach_buffers s cb w)))))"
    using l by (cases a) (auto intro!: seq_skel[OF same_fill_callback] simp: evolve_refl live_ok simp del: upd_ev.simps)
qed

lemma xs_ngxe_writer_evolve:
  assumes "slots_ok w" "c < connection_n w"
  shows "post (evolve {c} w) (xs_ngxe_writer E bs c start t buffer sub as w)"
  unfolding xs_ngxe_writer_def
proof (rule with_session_evolve[OF _ assms], unfold Let_def, rule seq_same_evolve[OF same_alloc_callback_cleanup], unfold prod.case)
  fix s a and w1 w2 :: "('k, 'm) world" assume "live c w1" "skel w2 = skel w1"
  then have l: "live c w2" using live_cong by blast
  have start: "post (evolve {c} w3) (if start mod 2 = NGXE_START then ngxe_writer_start E c w4 else Inr w4)"
    if "live c w3" "skel w4 = skel w3" for w3 w4
    using post_evolve_cong[OF that(2,1) writer_start_live] that by (simp add: evolve_skel live_ok)
  let ?set = "\<lambda>w. case writer_buffer (sessions w2 s) of None \<Rightarrow> w | Some i \<Rightarrow> w\<lparr>svs := p_sv_setsv E i buffer (svs w)\<rparr>"
  let ?fin = "\<lambda>cb b w. upd_ev (Write_ev c) (ev_handler_update (\<lambda>_. Ngxe_dummy_handler))
      (upd_session s (\<lambda>x. x\<lparr>writer_callback := Some cb, writer_timeout := t\<rparr>)
        (if supported_buffer buffer w then w else upd_sv b (sv_pok_update (\<lambda>_. True)) w))"
  have "post (evolve {c} w3) (rbind (deref (writer_buffer (sessions (attach_buffers s cb (?set w3)) s))) (\<lambda>b.
      if start mod 2 = NGXE_START then ngxe_writer_start E c (?fin cb b (attach_buffers s cb (?set w3)))
      else Inr (?fin cb b (attach_buffers s cb (?set w3)))))" if "live c w3" for w3 cb
    by (rule seq_value, rule start[OF that]) (simp del: upd_ev.simps split: option.split)
  then have "post (evolve {c} w2) (rbind (fill_callback E pool cb sub specs w2) (\<lambda>w3.
     (rbind (deref (writer_buffer (sessions (attach_buffers s cb (?set w3)) s))) (\<lambda>b.
      if start mod 2 = NGXE_START then ngxe_writer_start E c (?fin cb b (attach_buffers s cb (?set w3)))
      else Inr (?fin cb b (attach_buffers s cb (?set w3)))))))" for pool cb specs
    by (rule seq_skel[OF same_fill_callback]) (use l live_cong in blast)
  then show "post (evolve {c} w2) (case a of None \<Rightarrow> Inr w2
       | Some cb \<Rightarrow> rbind (fill_callback E (c_pool (conns w1 c)) cb sub
          ([Fresh (SvIOK_only (p_newSViv E (int c))), Fresh (SvIOK_only (p_newSViv E 0)),
                        reader_buffer_spec E bs (sessions w2 s),
                        (case writer_buffer (sessions w2 s) of
                           None \<Rightarrow> Fresh (p_newSVsv E (svs w2 buffer)) | Some i \<Rightarrow> Shared i)]
              @ user_args E as w2) w2) (\<lambda>w3.
     (rbind (deref (writer_buffer (sessions (attach_buffers s cb (?set w3)) s))) (\<lambda>b.
      if start mod 2 = NGXE_START then ngxe_writer_start E c (?fin cb b (attach_buffers s cb (?set w3)))
      else Inr (?fin cb b (attach_buffers s cb (?set w3)))))))"
    using l by (cases a) (simp_all add: evolve_refl live_ok)
qed

lemma xs_buffer_set_evolve:
  assumes "slots_ok w" "c < connection_n w"
  shows "post (evolve {c} w) (xs_ngxe_writer_buffer_set E c data w)"
  unfolding xs_ngxe_writer_buffer_set_def
proof (rule with_session_evolve[OF _ assms])
  fix s and w1 :: "('k, 'm) world" assume l: "live c w1"
  have st: "post (evolve {c} w1) (ngxe_writer_start E c w2)" if "skel w2 = skel w1" for w2
    by (rule post_evolve_cong[OF that l writer_start_live])
  show "post (evolve {c} w1) (case writer_buffer (sessions w1 s) of
         None \<Rightarrow> Inr w1
       | Some b \<Rightarrow>
           let rok = sv_rok (svs w1 data);
               target = sv_type (svs w1 (sv_rv (svs w1 data)));
               set = (\<lambda>w. w\<lparr>svs := p_sv_setsv E b data (svs w)\<rparr>)
           in if rok \<and> target = SVt_PV then
                ngxe_writer_start E c (upd_offset s 0 (set w1))
              else if rok \<and> target = SVt_PVAV then
                ngxe_writer_start E c (upd_index s 0 (upd_offset s 0 (set w1)))
              else if sv_type (svs w1 data) = SVt_PV then
                if sv_cur (svs w1 data) = 0 then Inr w1 else ngxe_writer_start E c (set w1)
              else ngxe_writer_start E c (upd_sv b (sv_pok_update (\<lambda>_. True)) (set w1)))"
    using l by (auto simp: Let_def evolve_refl live_ok split: option.split intro!: st)
qed

section \<open>Scripts\<close>

text \<open>
  Two operations are left out. \<open>ngxe_client\<close> gives a slot back that it has freed already
  when the connection cannot be registered, and \<open>ngxe_interval_clear\<close> frees the slot of
  a timer without marking it as destroyed, which \<open>ngxe_close\<close> relies on.
\<close>

end

definition plain_action :: "action \<Rightarrow> bool" where
  "plain_action a = (case a of Act_timer_clear iv \<Rightarrow> False | Act_client b ad p t sub as \<Rightarrow> False | _ \<Rightarrow> True)"

context callback_contract
begin

lemma perl_action_evolve:
  assumes "slots_ok w" "plain_action a"
  shows "post (evolve {} w) (perl_action E a w)"
proof (cases a)
  case (Act_close c)
  then show ?thesis using assms(1) by (simp add: perl_action_def on_handle_evolve close_handle)
next
  case (Act_assign i v)
  then show ?thesis using assms(1) by (simp add: perl_action_def evolve_skel)
qed (use assms in \<open>auto simp: perl_action_def plain_action_def valid_handle_def
     intro!: on_handle_evolve xs_start_evolve xs_timeout_evolve xs_switch_evolve ngxe_stop_evolve xs_ngxe_reader_evolve xs_ngxe_writer_evolve
       xs_buffer_set_evolve ngxe_timer_set_evolve xs_ngxe_server_evolve\<close>)

lemma perl_run_evolve: "slots_ok w \<Longrightarrow> list_all plain_action as \<Longrightarrow> post (evolve {} w) (perl_run E as w)"
proof (induction as arbitrary: w)
  case (Cons a as)
  show ?case unfolding perl_run.simps
    by (rule seq_evolve[OF perl_action_evolve]) (use Cons in \<open>auto intro: evolve_slots_ok\<close>)
qed (simp add: evolve_refl)

end

text \<open>A script restricted to plain actions\<close>

definition plain_script :: "('k, 'm) script \<Rightarrow> ('k, 'm) script" where
  "plain_script sc = (\<lambda>h args w. filter plain_action (sc h args w))"

lemma script_call_evolve:
  "slots_ok w \<Longrightarrow> post (evolve {} w) (script_call n E (plain_script sc) h args w)"
proof (induction n arbitrary: h args w)
  case (Suc n)
  let ?E = "E\<lparr>p_call_sv := script_call n E (plain_script sc), native_call := (\<lambda>h c w. Inr w)\<rparr>"
  have "callback_contract ?E"
    by unfold_locales (use Suc.IH in \<open>simp_all add: evolve_refl\<close>)
  from callback_contract.perl_run_evolve[OF this Suc.prems] show ?case
    by (simp add: plain_script_def list_all_iff)
qed simp

interpretation scripts: callback_contract "script_env n E (plain_script sc)"
  by unfold_locales (simp_all add: script_env_def script_call_evolve evolve_refl)

end
