(* ===== verification/Ngxe_Samples.thy ===== *)
theory Ngxe_Samples
  imports Ngx_Loop
begin

text \<open>
  A concrete environment, for the examples: the kernel replays a list of results of \<open>recv\<close>
  and one of results of \<open>send\<close>, the C allocator gives out one 64 kB page after the other, and the functions of the
  Perl API do what their documentation says. It satisfies the contracts \<open>os_ok\<close> and \<open>perl_ok\<close>.
\<close>

type_synonym replay = "(nat + byte list) list \<times> (nat + nat) list"

definition page_allocator :: "addr allocator" where
  "page_allocator = \<lparr>memalign = (\<lambda>al s p. (Some p, p + 65536)), malloc = (\<lambda>s p. (Some p, p + 65536)),
     mfree = (\<lambda>p m. m)\<rparr>"

fun replay_recv :: "nat \<Rightarrow> replay \<Rightarrow> (nat + byte list) \<times> replay" where
  "replay_recv n ([], s) = (Inl NGX_EAGAIN, ([], s))"
| "replay_recv n (Inl e # r, s) = (Inl e, (r, s))"
| "replay_recv n (Inr bs # r, s) = (Inr (take n bs), ((if length bs \<le> n then r else Inr (drop n bs) # r), s))"

fun replay_send :: "byte list \<Rightarrow> replay \<Rightarrow> (nat + nat) \<times> replay" where
  "replay_send bs (r, []) = (Inr (length bs), (r, []))"
| "replay_send bs (r, Inl e # s) = (Inl e, (r, s))"
| "replay_send bs (r, Inr n # s) = (Inr (min n (length bs)), (r, s))"

definition plain_sv :: sv where
  "plain_sv = \<lparr>sv_type = SVt_PV, sv_refcnt = 1, sv_iok = False, sv_pok = False, sv_rok = False, sv_ook = False,
     sv_iv = 0, sv_pvx = [0], sv_cur = 0, sv_rv = 0, sv_av = []\<rparr>"

definition iv_sv :: "int \<Rightarrow> sv" where
  "iv_sv n = plain_sv\<lparr>sv_type := SVt_IV, sv_iok := True, sv_iv := n\<rparr>"

definition pv_sv :: "byte list \<Rightarrow> sv" where
  "pv_sv bs = plain_sv\<lparr>sv_pok := True, sv_pvx := bs @ [0], sv_cur := length bs\<rparr>"

definition rv_sv :: "svid \<Rightarrow> sv" where
  "rv_sv i = plain_sv\<lparr>sv_type := SVt_IV, sv_rok := True, sv_rv := i\<rparr>"

definition sample_env :: "(replay, addr) env" where
  "sample_env = \<lparr>
     os_recv = (\<lambda>fd. replay_recv), os_send = (\<lambda>fd. replay_send),
     os_epoll_ctl = (\<lambda>op fd m p k. (None, k)),
     os_epoll_wait = (\<lambda>t k. (Inr [], word_of_int t, k)),
     os_socket = (\<lambda>k. (7, k)), os_setsockopt = (\<lambda>fd k. (True, k)), os_nonblocking = (\<lambda>fd k. (True, k)),
     os_bind = (\<lambda>fd a p k. (True, k)), os_listen = (\<lambda>fd n k. (True, k)),
     os_connect = (\<lambda>fd a p k. (Some NGX_EINPROGRESS, k)),
     os_accept = (\<lambda>fd k. (Inl NGX_EAGAIN, k)), os_close = (\<lambda>fd k. (True, k)),
     alloc = page_allocator, pagesize = 4096,
     p_sv_setiv = (\<lambda>n s. s\<lparr>sv_iok := True, sv_pok := False, sv_rok := False, sv_iv := n\<rparr>),
     p_sv_setpv = (\<lambda>b s. s\<lparr>sv_iok := False, sv_pok := True, sv_rok := False, sv_pvx := b @ [0], sv_cur := length b\<rparr>),
     p_sv_grow = (\<lambda>n s. s\<lparr>sv_pvx := sv_pvx s @ replicate (n - sv_len s) 0\<rparr>),
     p_sv_chop = (\<lambda>n s. s\<lparr>sv_ook := True, sv_pvx := drop n (sv_pvx s), sv_cur := sv_cur s - n\<rparr>),
     p_sv_backoff = (\<lambda>s. s\<lparr>sv_ook := False\<rparr>),
     p_sv_setsv = (\<lambda>d i m. m(d := (m i)\<lparr>sv_refcnt := sv_refcnt (m d)\<rparr>)),
     p_SvIV = sv_iv, p_undef = 0,
     p_newSV = (\<lambda>n. plain_sv\<lparr>sv_pvx := replicate (Suc n) 0\<rparr>),
     p_newSVsv = (\<lambda>s. s\<lparr>sv_refcnt := 1\<rparr>), p_newSViv = iv_sv,
     p_call_sv = (\<lambda>h args w. Inr w), native_call = (\<lambda>h c w. Inr w),
     ngxe_pagesize = 4096, multi_accept = False, loop_fuel = 20\<rparr>"

lemma sample_os_ok: "os_ok sample_env"
proof -
  have "length bs \<le> n" if "replay_recv n k = (Inr bs, k')" for n k bs k'
    using that by (induction n k rule: replay_recv.induct) auto
  moreover have "n \<le> length bs" if "replay_send bs k = (Inr n, k')" for bs k n k'
    using that by (induction bs k rule: replay_send.induct) auto
  ultimately show ?thesis by (auto simp: os_ok_def sample_env_def)
qed

lemma sample_perl_ok: "perl_ok sample_env"
  by (auto simp: perl_ok_def sample_env_def sv_string_def sv_wf_def sv_len_def take_drop)

definition blank_connection :: connection where
  "blank_connection = \<lparr>c_data = Data_null, c_read = zero_event, c_write = zero_event, c_fd = - 1,
     c_listening = None, c_sent = 0, c_pool = None, c_addr_text = [], c_log_error = NGX_ERROR_ALERT,
     c_timedout = False, c_destroyed = False\<rparr>"

definition blank_listening :: listening where
  "blank_listening = \<lparr>ls_fd = - 1, ls_addr = 0, ls_port = 0, ls_addr_text = [], ls_pool_size = 0,
     ls_addr_ntop = False, ls_addr_text_max_len = 15, ls_ignore = False, ls_inherited = False,
     ls_listen = False, ls_backlog = 511, ls_connection = None, ls_deferred_accept = False, ls_previous = None\<rparr>"

definition blank_world :: "(replay, addr) world" where
  "blank_world = \<lparr>conns = (\<lambda>_. blank_connection), connection_n = 0, free_connections = None,
     free_connection_n = 0, timers = [], current_msec = 0, sessions = (\<lambda>_. zero_session),
     callbacks = (\<lambda>_. zero_callback 0), intervals = (\<lambda>_. zero_interval), listenings = (\<lambda>_. blank_listening),
     svs = (\<lambda>_. plain_sv), sv_next = 100, tmps = [], pools = (\<lambda>_. None), mst = 65536, kernel = ([], []),
     posted_events = [], posted_accept_events = [], received = [], transmitted = [], stale_reads = []\<rparr>"

text \<open>The world after the start of the engine with \<open>n\<close> slots\<close>

definition started :: "nat \<Rightarrow> (replay, addr) world" where
  "started n = init_slots (\<lambda>_. blank_connection) n (ngx_event_timer_init blank_world)"

text \<open>\<open>returns P r\<close>: the operation returned, with a result that satisfies \<open>P\<close>\<close>

definition returns :: "('a \<Rightarrow> bool) \<Rightarrow> 'a res \<Rightarrow> bool" where
  "returns P r = (case r of Inl e \<Rightarrow> False | Inr x \<Rightarrow> P x)"

lemma returnsE:
  assumes "returns P r"
  obtains x where "r = Inr x" "P x"
  using assms by (cases r) (auto simp: returns_def)

text \<open>A callback that does nothing, for the examples\<close>

lemma refcnt_world [simp]:
  "timers (fold SvREFCNT_inc xs w) = timers w" "intervals (fold SvREFCNT_inc xs w) = intervals w"
  "current_msec (fold SvREFCNT_inc xs w) = current_msec w" "conns (fold SvREFCNT_inc xs w) = conns w"
  "callbacks (fold SvREFCNT_inc xs w) = callbacks w" "pools (fold SvREFCNT_inc xs w) = pools w"
  "free_connections (fold SvREFCNT_inc xs w) = free_connections w"
  "timers (fold SvREFCNT_dec xs w) = timers w" "intervals (fold SvREFCNT_dec xs w) = intervals w"
  "current_msec (fold SvREFCNT_dec xs w) = current_msec w" "conns (fold SvREFCNT_dec xs w) = conns w"
  "callbacks (fold SvREFCNT_dec xs w) = callbacks w" "pools (fold SvREFCNT_dec xs w) = pools w"
  "free_connections (fold SvREFCNT_dec xs w) = free_connections w"
  by (induction xs arbitrary: w) (simp_all add: SvREFCNT_inc_def SvREFCNT_dec_def upd_sv_def)

lemma idle_callback:
  assumes "p_call_sv E = (\<lambda>h args. Inr)" "cb_args (callbacks w cb) \<noteq> []" "cb_handler (callbacks w cb) = Some h"
  shows "\<exists>w'. ngxe_callback E cb d w = Inr w' \<and> timers w' = timers w \<and> intervals w' = intervals w \<and>
    current_msec w' = current_msec w \<and> conns w' = conns w \<and> pools w' = pools w \<and>
    free_connections w' = free_connections w \<and> (\<not> d \<longrightarrow> callbacks w' = callbacks w)"
  using assms
  by (simp add: ngxe_callback_def Let_def free_tmps_def dec_option_def note_stale_def ngxe_callback_dec_def
      SvREFCNT_inc_def SvREFCNT_dec_def upd_sv_def upd_cb_def split: list.split)

end
