(* ===== verification/Ngx_Reach.thy ===== *)
theory Ngx_Reach
  imports Ngxe_Scripts Ngxe_Samples
begin

text \<open>
  All handlers, the accepting of connections and the timers included, keep the invariant
  of the slots; it holds in every world the engine reaches.
\<close>

section \<open>Accepting\<close>

text \<open>A slot that \<open>ngx_get_connection\<close> has handed out and that nothing refers to yet\<close>

definition fresh :: "slot \<Rightarrow> ('k, 'm) world \<Rightarrow> bool" where
  "fresh c w \<longleftrightarrow> live c w \<and> \<not> is_interval c w \<and>
     \<not> ev_timer_set (get_ev (Read_ev c) w) \<and> \<not> ev_timer_set (get_ev (Write_ev c) w)"

lemma fresh_cong:
  assumes "skel w' = skel w"
  shows "fresh c w' \<longleftrightarrow> fresh c w"
  unfolding fresh_def is_interval_def
  by (simp only: live_cong[OF assms] skel_eqD[OF assms])

lemma get_connection_fresh:
  assumes "slots_ok w" "ngx_get_connection s w = (Some c, w')"
  shows "fresh c w'"
  using get_connection_new[OF assms] get_connection_evolve(5,6)[OF assms] by (simp add: fresh_def)

lemma close_accepted_connection_ok:
  assumes "fresh c w"
  shows "post slots_ok (ngx_close_accepted_connection E c w)"
proof -
  define w1 where "w1 = ngx_close_socket E (c_fd (conns (ngx_free_connection c w) c))
    (upd_conn c (c_fd_update (\<lambda>_. - 1)) (ngx_free_connection c w))"
  have s: "skel w1 = skel (ngx_free_connection c w)" by (simp add: w1_def)
  have "slots_ok (ngx_free_connection c w)"
    using assms by (intro free_connection_evolve(1)) (simp_all add: fresh_def live_def used_def)
  then have ok: "slots_ok w1" using slots_ok_cong[OF s] by simp
  have "post slots_ok (destroy_pool E p w1)" for p
    by (rule post_mono[OF same_destroy_pool]) (use ok slots_ok_cong in blast)
  then show ?thesis using ok
    by (simp add: ngx_close_accepted_connection_def Let_def split: option.split flip: w1_def)
qed

text \<open>The result of \<open>accept_socket\<close>: the slot is given back or ready for the connection handler\<close>

definition accepted :: "slot \<Rightarrow> bool \<times> ('k, 'm) world \<Rightarrow> bool" where
  "accepted c = (\<lambda>(ok, w). if ok then fresh c w else slots_ok w)"

lemma seq_fresh:
  assumes "post (\<lambda>(a, w'). skel w' = skel w) r" "fresh c w"
    "\<And>a w'. fresh c w' \<Longrightarrow> post Q (f (a, w'))"
  shows "post Q (rbind r f)"
proof (cases r)
  case (Inr x)
  obtain a w' where x: "x = (a, w')" by (cases x)
  have s: "skel w' = skel w" using assms(1) by (simp add: Inr x)
  show ?thesis using assms(3)[of w' a] assms(2) fresh_cong[OF s] by (simp add: Inr x)
qed simp

lemma give_up_accepted:
  "fresh c w \<Longrightarrow> post (accepted c) (accept_give_up E c w)"
  using close_accepted_connection_ok[of c w E]
  by (cases "ngx_close_accepted_connection E c w") (simp_all add: accept_give_up_def accepted_def)

lemma fresh_frame [simp]:
  "fresh c (upd_conn c (c_pool_update p) w) = fresh c w"
  "fresh c (upd_conn c (c_listening_update l) w) = fresh c w"
  "fresh c (upd_conn c (c_addr_text_update t) w) = fresh c w"
  "fresh c (upd_ev e (ev_ready_update b) w) = fresh c w"
  by (auto intro!: fresh_cong)

lemma fresh_kernel: "with_kernel f w = (r, w') \<Longrightarrow> fresh c w' = fresh c w"
  by (rule fresh_cong) (rule skel_with_kernel)

lemma accept_name_accepted:
  assumes "fresh c w"
  shows "post (accepted c) (accept_name E ls a p c w)"
proof -
  have "post (accepted c) (rbind (pool_alloc E (Some p) ngx_pnalloc (of_nat (ls_addr_text_max_len ls)) w) (\<lambda>(t, w).
        if t = None then accept_give_up E c w
        else
          let text = ngx_sock_ntop a 0 (ls_addr_text_max_len ls) False;
              w = upd_conn c (c_addr_text_update (\<lambda>_. text)) w
          in if text = [] then accept_give_up E c w else Inr (True, w)))"
    by (rule seq_fresh[OF same_pool_alloc assms]) (simp add: Let_def give_up_accepted, simp add: accepted_def)
  then show ?thesis using assms by (simp add: accept_name_def accepted_def)
qed

lemma accept_socket_accepted:
  assumes "fresh c w"
  shows "post (accepted c) (accept_socket E ev l s a c w)"
proof (cases "create_pool E (ls_pool_size (listenings w l)) w")
  case (Pair r w1)
  let ?ls = "listenings w l"
  have "skel w1 = skel w" using skel_create_pool[of E "ls_pool_size (listenings w l)" w] Pair by simp
  then have f1: "fresh c w1" using assms fresh_cong by blast
  have ready: "fresh c (if b then upd_ev (Read_ev c) (ev_ready_update g) w' else w') = fresh c w'" for b g w'
    by (cases b) (simp_all only: fresh_frame if_True if_False)
  show ?thesis
  proof (cases r)
    case (Some p)
    show ?thesis unfolding accept_socket_def Let_def Pair Some prod.case option.case
    proof (rule seq_fresh[OF same_alloc_all, of c], simp add: f1, unfold prod.case, intro post_if give_up_accepted)
      fix w2 :: "('a, 'b) world" assume f2: "fresh c w2"
      obtain ok w3 where 3: "with_kernel (os_nonblocking E s) w2 = (ok, w3)" by fastforce
      have f3: "fresh c w3" using f2 fresh_kernel[OF 3] by simp
      show "post (accepted c) (case with_kernel (os_nonblocking E s) w2 of (ok, w) \<Rightarrow>
            if \<not> ok then accept_give_up E c w
            else accept_name E ?ls a p c
                (if ev_deferred_accept (get_ev ev (upd_ev (Write_ev c) (ev_ready_update (\<lambda>_. True))
                     (upd_conn c (c_listening_update (\<lambda>_. Some l)) w)))
                 then upd_ev (Read_ev c) (ev_ready_update (\<lambda>_. True))
                    (upd_ev (Write_ev c) (ev_ready_update (\<lambda>_. True)) (upd_conn c (c_listening_update (\<lambda>_. Some l)) w))
                 else upd_ev (Write_ev c) (ev_ready_update (\<lambda>_. True)) (upd_conn c (c_listening_update (\<lambda>_. Some l)) w)))"
        unfolding 3 prod.case
        by (intro post_if give_up_accepted accept_name_accepted) (simp_all only: f3 ready fresh_frame)
    qed
  qed (use f1 in \<open>simp add: accept_socket_def Pair Let_def give_up_accepted\<close>)
qed

section \<open>The event loop\<close>

lemma post_slots_ok: "post (evolve X w) r \<Longrightarrow> post slots_ok r"
  by (erule post_mono) (rule evolve_slots_ok)

lemma evolve_interval:
  assumes "evolve X w w'" "c_data (conns w c) = Data_interval a" "c < connection_n w" "c \<notin> X"
  shows "c_data (conns w' c) = Data_interval a" "ev_timer_set (get_ev (Read_ev c) w') = ev_timer_set (get_ev (Read_ev c) w)"
    "ev_timer_set (get_ev (Write_ev c) w') = ev_timer_set (get_ev (Write_ev c) w)"
  using assms unfolding evolve_def by (metis ev_conn.simps)+

context callback_contract
begin

lemma server_init_connection_ok:
  assumes "fresh c w"
  shows "post slots_ok (ngxe_server_init_connection E c w)"
  unfolding ngxe_server_init_connection_def
proof (rule seq_fresh[OF same_pool_alloc assms], unfold prod.case)
  fix sp and w1 :: "('k, 'm) world" assume f: "fresh c w1"
  then have l: "live c w1" "\<not> is_interval c w1" by (simp_all add: fresh_def)
  show "post slots_ok (case sp of None \<Rightarrow> ngxe_close E c w1
     | Some s \<Rightarrow>
         let w = upd_session s (\<lambda>_. zero_session) w1;
             w = upd_conn c (c_data_update (\<lambda>_. Data_session s)) w;
             w = upd_ev (Read_ev c) (ev_handler_update (\<lambda>_. Ngxe_dummy_handler)) w;
             w = upd_ev (Write_ev c) (ev_handler_update (\<lambda>_. Ngxe_dummy_handler)) w
         in rbind (deref (c_listening (conns w c))) (\<lambda>l.
            rbind (deref (ls_connection (listenings w l))) (\<lambda>lc.
            case c_data (conns w lc) of
              Data_callback cb \<Rightarrow>
                rbind (nth_arg cb 0 w) (\<lambda>a0.
                rbind (nth_arg cb 1 w) (\<lambda>a1.
                let w = upd_sv a0 (p_sv_setiv E (int c)) w;
                    w = upd_sv a1 (p_sv_setpv E (str_bytes (c_addr_text (conns w c)))) w
                in ngxe_callback E cb False w))
            | Data_null \<Rightarrow> Inl Null_deref
            | _ \<Rightarrow> Inl Wrong_type)))"
  proof (cases sp)
    case None
    then show ?thesis using post_mono[OF ngxe_close_evolve[of w1 c "{c}"] evolve_slots_ok] live_good[OF l(1)]
      by (simp add: good_def)
  next
    case (Some s)
    let ?w0 = "upd_session s (\<lambda>_. zero_session) w1"
    define w2 where "w2 = upd_ev (Write_ev c) (ev_handler_update (\<lambda>_. Ngxe_dummy_handler))
       (upd_ev (Read_ev c) (ev_handler_update (\<lambda>_. Ngxe_dummy_handler))
         (upd_conn c (c_data_update (\<lambda>_. Data_session s)) ?w0))"
    have s0: "skel ?w0 = skel w1" by simp
    have "live c ?w0" "\<not> is_interval c ?w0"
      using l live_cong[OF s0] skel_eqD(1)[OF s0, of c] by (simp_all add: is_interval_def)
    from set_data_evolve(2)[OF this] have "slots_ok (upd_conn c (c_data_update (\<lambda>_. Data_session s)) ?w0)"
      by (rule live_ok)
    moreover have "skel w2 = skel (upd_conn c (c_data_update (\<lambda>_. Data_session s)) ?w0)"
      by (simp only: w2_def skel_ev_frame)
    ultimately have ok: "slots_ok w2" using slots_ok_cong by blast
    have cb: "post slots_ok (ngxe_callback E cb False w3)" if "skel w3 = skel w2" for cb w3
      by (rule post_mono[OF ngxe_callback_evolve evolve_slots_ok]) (use ok slots_ok_cong[OF that] in simp)
    show ?thesis unfolding Some option.case Let_def
      by (intro seq_value) (auto split: cdata.split intro!: seq_value cb simp: w2_def simp del: upd_ev.simps)
  qed
qed

lemma accept_loop_ok: "slots_ok w \<Longrightarrow> post slots_ok (accept_loop n E ev l w)"
proof (induction n arbitrary: w)
  case (Suc n)
  obtain r w1 where 1: "with_kernel (os_accept E (c_fd (conns w (ev_conn ev)))) w = (r, w1)" by fastforce
  have ok: "slots_ok w1" using Suc.prems slots_ok_cong[OF skel_with_kernel[OF 1]] by simp
  show ?case
  proof (cases r)
    case (Inl err)
    then show ?thesis using ok Suc.IH 1 by (simp split: if_split)
  next
    case (Inr x)
    obtain s a port where x: "x = (s, a, port)" by (cases x)
    obtain c' w2 where 2: "ngx_get_connection s w1 = (c', w2)" by fastforce
    show ?thesis
    proof (cases c')
      case None
      have "slots_ok (ngx_close_socket E s w2)"
        using ok get_connection_none[OF 2[unfolded None]] slots_ok_cong[of "ngx_close_socket E s w2" w2] by simp
      then show ?thesis using Inr x 1 2 None by simp
    next
      case (Some c)
      have f: "fresh c w2" by (rule get_connection_fresh[OF ok 2[unfolded Some]])
      have more: "post slots_ok (rbind (ngxe_server_init_connection E c w3) (\<lambda>w.
                        if ev_available (get_ev ev w) then accept_loop n E ev l w else Inr w))" if "fresh c w3" for w3
        using server_init_connection_ok[OF that] Suc.IH
        by (cases "ngxe_server_init_connection E c w3") simp_all
      have "post slots_ok (rbind (accept_socket E ev l s a c w2) (\<lambda>(ok, w).
                    if \<not> ok then Inr w
                    else
                      rbind (ngxe_server_init_connection E c w) (\<lambda>w.
                        if ev_available (get_ev ev w) then accept_loop n E ev l w else Inr w)))"
        using accept_socket_accepted[OF f, of E ev l s a] more
        by (cases "accept_socket E ev l s a c w2") (auto simp: accepted_def split: if_splits)
      then show ?thesis using Inr x 1 2 Some by simp
    qed
  qed
qed simp

lemma ngx_event_accept_ok: "slots_ok w \<Longrightarrow> post slots_ok (ngx_event_accept E ev w)"
proof -
  assume ok: "slots_ok w"
  let ?w = "upd_ev ev (\<lambda>x. x\<lparr>ev_available := multi_accept E, ev_ready := False\<rparr>) w"
  have s: "skel ?w = skel w" by (rule skel_upd_ev) simp_all
  show ?thesis unfolding ngx_event_accept_def
    by (rule seq_value, rule accept_loop_ok) (use ok slots_ok_cong[OF s] in simp)
qed

lemma interval_callback_ok:
  assumes "slots_ok w" "ev_conn ev < connection_n w"
  shows "post slots_ok (ngxe_interval_callback E ev w)"
  unfolding ngxe_interval_callback_def
proof (rule seq_value)
  fix a assume "interval_of (ev_conn ev) w = Inr a"
  then have "is_interval (ev_conn ev) w" by (auto simp: interval_of_def is_interval_def split: cdata.splits)
  then have u: "used (ev_conn ev) w" by (rule interval_used[OF assms])
  have "post (evolve {ev_conn ev} w) (ngx_event_add_timer ev t w)" for t
    using add_timer_evolve[of w ev "{ev_conn ev}" t] assms(1) u by (simp add: used_def)
  then have "post (evolve {ev_conn ev} w) (rbind (ngx_event_add_timer ev (word_of_int (iv_msec (intervals w a))) w) (\<lambda>w.
     rbind (deref (iv_callback (intervals w a))) (\<lambda>cb. ngxe_callback E cb False w)))"
    by (rule seq_evolve) (intro seq_value ngxe_callback_evolve, rule evolve_slots_ok)
  then show "post slots_ok (rbind (ngx_event_add_timer ev (word_of_int (iv_msec (intervals w a))) w) (\<lambda>w.
     rbind (deref (iv_callback (intervals w a))) (\<lambda>cb. ngxe_callback E cb False w)))"
    by (rule post_mono) (rule evolve_slots_ok)
qed

end

text \<open>
  A timeout handler runs after \<open>ngx_event_expire_timers\<close> has cleared the flag of its event;
  the timer of the write event of such a slot is never used.
\<close>

definition expired :: "slot \<Rightarrow> ('k, 'm) world \<Rightarrow> bool" where
  "expired c w \<longleftrightarrow> \<not> ev_timer_set (get_ev (Read_ev c) w) \<and> \<not> ev_timer_set (get_ev (Write_ev c) w)"

context callback_contract
begin

lemma timeout_callback_ok:
  assumes "slots_ok w" "ev_conn ev < connection_n w" "expired (ev_conn ev) w"
  shows "post slots_ok (ngxe_timeout_callback E ev w)"
  unfolding ngxe_timeout_callback_def Let_def
proof (intro seq_value)
  let ?c = "ev_conn ev"
  fix a cb w1 w2
  assume a: "interval_of ?c w = Inr a" and w1: "ngxe_callback E cb True w = Inr w1"
    and w2: "destroy_pool E (c_pool (conns w1 ?c)) w1 = Inr w2"
  have d: "c_data (conns w ?c) = Data_interval a" using a by (auto simp: interval_of_def split: cdata.splits)
  have e: "evolve {} w w1" using ngxe_callback_evolve[OF assms(1), of "{}" cb True] w1 by simp
  then have 1: "c_data (conns w1 ?c) = Data_interval a" "expired ?c w1" "?c < connection_n w1" "slots_ok w1"
    using evolve_interval[OF e d assms(2)] e assms(2,3)
    by (simp_all only: expired_def evolve_def) simp_all
  have u: "used ?c w1" using interval_used[OF 1(4,3)] 1(1) by (simp add: is_interval_def)
  have s: "skel w2 = skel w1" using same_destroy_pool[of w1 E "c_pool (conns w1 ?c)"] w2 by simp
  have "slots_ok (ngx_free_connection ?c w2)"
    using 1(2) u 1(4) used_cong[OF s, of ?c] slots_ok_cong[OF s] skel_eqD(3)[OF s, of "Read_ev ?c"] skel_eqD(3)[OF s, of "Write_ev ?c"]
    by (intro free_connection_evolve(1)) (simp_all add: used_def expired_def)
  then show "post slots_ok (Inr (ngx_free_connection ?c w2))" by simp
qed

lemma run_handler_ok:
  assumes "slots_ok w" "ev_conn e < connection_n w"
    "ev_handler (get_ev e w) = Ngxe_timeout_callback \<Longrightarrow> expired (ev_conn e) w"
  shows "post slots_ok (run_handler E e w)"
  using post_slots_ok[OF ngxe_reader_handler_evolve[OF assms(1,2) singletonI]]
    post_slots_ok[OF ngxe_writer_handler_evolve[OF assms(1,2) singletonI]]
    post_slots_ok[OF ngxe_client_init_handler_evolve[OF assms(1,2) singletonI]]
    interval_callback_ok[OF assms(1,2)] timeout_callback_ok[OF assms(1,2)] ngx_event_accept_ok[OF assms(1), of e]
    assms(1,3)
  by (simp add: run_handler_def split: handler.split)

end

section \<open>Operations of the main program\<close>

lemma timer_clear_ok:
  assumes "slots_ok w" "c < connection_n w" "c_data (conns w c) = Data_interval iv"
    "iv_connection (intervals w iv) = Some c" "\<not> ev_timer_set (get_ev (Write_ev c) w)"
  shows "post slots_ok (ngxe_timer_clear E iv w)"
  unfolding ngxe_timer_clear_def assms(4) deref_def option.case rbind_simps
proof (intro seq_value)
  fix cb w1 w2
  assume w1: "ngx_event_del_timer (Read_ev c) (ngxe_callback_dec cb w) = Inr w1"
    and w2: "destroy_pool E (c_pool (conns w1 c)) w1 = Inr w2"
  let ?w = "ngxe_callback_dec cb w"
  have s0: "skel ?w = skel w" by simp
  have ok: "slots_ok ?w" using assms(1) slots_ok_cong[OF s0] by simp
  have e: "evolve UNIV ?w w1" using del_timer_evolve[OF ok, of "Read_ev c" UNIV] w1 by simp
  have w1_def: "w1 = upd_ev (Read_ev c) (\<lambda>x. x\<lparr>ev_timer_key := 0, ev_timer_set := False\<rparr>)
      (?w\<lparr>timers := timer_delete (Read_ev c) (timers ?w)\<rparr>)"
    using w1 by (auto simp: ngx_event_del_timer_def split: if_splits)
  have d: "c_data (conns w1 c) = Data_interval iv" using assms(3) skel_eqD(1)[OF s0] by (simp add: w1_def upd_conn_def)
  have n: "c < connection_n w1" using assms(2) skel_eqD(5)[OF s0] by (simp add: w1_def upd_conn_def)
  have t: "\<not> ev_timer_set (get_ev (Read_ev c) w1)" "\<not> ev_timer_set (get_ev (Write_ev c) w1)"
    using assms(5) skel_eqD(3)[OF s0, of "Write_ev c"] by (simp_all add: w1_def upd_conn_def)
  have u: "used c w1" using interval_used[OF evolve_slots_ok[OF e] n] d by (simp add: is_interval_def)
  have s: "skel w2 = skel w1" using same_destroy_pool[of w1 E "c_pool (conns w1 c)"] w2 by simp
  have "slots_ok (ngx_free_connection c w2)"
    using t u evolve_slots_ok[OF e] used_cong[OF s, of c] slots_ok_cong[OF s] skel_eqD(3)[OF s, of "Read_ev c"]
      skel_eqD(3)[OF s, of "Write_ev c"]
    by (intro free_connection_evolve(1)) (simp_all add: used_def)
  then show "post slots_ok (Inr (ngx_free_connection c w2))" by simp
qed

lemma same_create_peer: "post (\<lambda>(pr, w'). skel w' = skel w) (ngxe_create_peer E p b a port w)"
  unfolding ngxe_create_peer_def by (rule same_seq[OF same_alloc_all]) simp

lemma skel_epoll_add_connection: "ngx_epoll_add_connection E c w = (r, w') \<Longrightarrow> skel w' = skel w"
  by (auto simp: ngx_epoll_add_connection_def skel_upd_conn dest!: skel_epoll_ctl split: prod.splits ngx_rc.splits)

text \<open>A peer that is connected or being connected has a slot of its own.\<close>

lemma connect_peer_fresh:
  assumes "slots_ok w" "ngx_event_connect_peer E pc w = (rc, pc', w')" "rc \<notin> {NGX_ERROR, NGX_BUSY, NGX_DECLINED}"
    "pr_connection pc' = Some c"
  shows "fresh c w'"
proof -
  note def = assms(2)[unfolded ngx_event_connect_peer_def]
  obtain s wa where a: "with_kernel (os_socket E) w = (s, wa)" by fastforce
  have s: "s \<noteq> - 1" using def assms(3) by (auto simp: a)
  obtain r wb where "ngx_get_connection s wa = (r, wb)" by fastforce
  then obtain d where b: "ngx_get_connection s wa = (Some d, wb)"
    using def assms(3) s by (cases r) (auto simp: a)
  have fb: "fresh d wb"
    using get_connection_fresh[OF _ b] assms(1) slots_ok_cong[OF skel_with_kernel[OF a]] by blast
  obtain ok wc where c: "(if pr_rcvbuf pc \<noteq> 0 then with_kernel (os_setsockopt E s) wb else (True, wb)) = (ok, wc)"
    by fastforce
  obtain ok1 wd where d: "with_kernel (os_nonblocking E s) wc = (ok1, wd)" by fastforce
  obtain ok2 we where e: "(case pr_local pc of None \<Rightarrow> (True, wd) | Some a \<Rightarrow> with_kernel (os_bind E s a 0) wd) = (ok2, we)"
    by fastforce
  have ok: ok ok1 ok2 using def assms(3) s by (auto simp: a b c d e connect_failed_def split: if_splits)
  have "skel wc = skel wb" using c skel_with_kernel by (auto split: if_splits)
  moreover have "skel wd = skel wc" by (rule skel_with_kernel[OF d])
  moreover have "skel we = skel wd" using e skel_with_kernel by (auto split: option.splits)
  ultimately have se: "skel we = skel wb" by simp
  define wf where "wf = upd_conn d (c_log_error_update (\<lambda>_. pr_log_error pc)) we"
  have sf: "skel wf = skel we" by (simp add: wf_def)
  obtain rc' wg where g: "ngx_epoll_add_connection E d wf = (rc', wg)" by fastforce
  have sg: "skel wg = skel wf" by (rule skel_epoll_add_connection[OF g])
  have rc': "rc' \<noteq> NGX_ERROR" using def s ok assms(3)
    by (auto simp: a b c d e g Let_def connect_failed_def simp flip: wf_def split: ngx_rc.splits)
  obtain cr wh where h: "with_kernel (os_connect E s (pr_addr pc) (pr_port pc)) wg = (cr, wh)" by fastforce
  have sh: "skel wh = skel wg" using skel_with_kernel[OF h] .
  have res: "d = c \<and> (w' = wh \<or> w' = upd_ev (Write_ev d) (ev_ready_update (\<lambda>_. True)) wh)"
    using def s ok assms(3,4) rc'
    by (cases rc'; cases cr) (auto simp: a b c d e g h Let_def simp flip: wf_def split: if_splits)
  then have "skel w' = skel wb" using se sf sg sh by (auto simp del: upd_ev.simps)
  then show ?thesis using fresh_cong[of w' wb c] fb res by simp
qed

context callback_contract
begin

lemma client_connected_ok:
  assumes "fresh c w" "client_connected E pool cb c connected t w = Inr (Some d, w')"
  shows "slots_ok w'"
proof -
  let ?w0 = "\<lambda>a0. upd_sv a0 (p_sv_setiv E (int c)) (upd_conn c (c_pool_update (\<lambda>_. pool)) w)"
  let ?w2 = "\<lambda>s w. upd_ev (Read_ev c) (ev_handler_update (\<lambda>_. Ngxe_client_init_handler))
               (upd_ev (Write_ev c) (ev_handler_update (\<lambda>_. Ngxe_client_init_handler))
                 (upd_conn c (c_data_update (\<lambda>_. Data_session s))
                   (upd_session s (\<lambda>_. zero_session\<lparr>writer_callback := Some cb, writer_timeout := t\<rparr>) w)))"
  obtain a0 sp w1 where w1: "pool_alloc E pool ngx_palloc sizeof_ngxe_session_t (?w0 a0) = Inr (sp, w1)"
    and rest: "(case sp of
        None \<Rightarrow> rbind (fail_connection E c cb (- 1) ''Cannot allocate memory for session'' w1) (\<lambda>w. Inr (None, w))
      | Some s \<Rightarrow> rbind (if connected then ngxe_client_init_handler E (Write_ev c) (?w2 s w1)
            else ngx_event_add_timer (Write_ev c) (word_of_int t) (?w2 s w1)) (\<lambda>w. Inr (Some c, w))) = Inr (Some d, w')"
    using assms(2) unfolding client_connected_def Let_def by (elim rbind_InrE) (auto simp del: upd_ev.simps)
  obtain s where sp: "sp = Some s" using rest by (cases sp) (auto elim: rbind_InrE)
  have "skel w1 = skel (?w0 a0)" using same_pool_alloc[of "?w0 a0" E pool ngx_palloc sizeof_ngxe_session_t] w1 by simp
  then have s1: "skel (upd_session s (\<lambda>_. zero_session\<lparr>writer_callback := Some cb, writer_timeout := t\<rparr>) w1) = skel w" by simp
  have f: "fresh c (upd_session s (\<lambda>_. zero_session\<lparr>writer_callback := Some cb, writer_timeout := t\<rparr>) w1)"
    using assms(1) fresh_cong[OF s1] by simp
  then have "live c (upd_conn c (c_data_update (\<lambda>_. Data_session s))
                   (upd_session s (\<lambda>_. zero_session\<lparr>writer_callback := Some cb, writer_timeout := t\<rparr>) w1))" (is "live c ?w3")
    by (intro set_data_evolve(2)) (simp_all add: fresh_def)
  moreover have s2: "skel (?w2 s w1) = skel ?w3" by (simp only: skel_ev_frame)
  ultimately have l: "live c (?w2 s w1)" using live_cong[OF s2] by simp
  have ni: "\<not> is_interval c (?w2 s w1)" using skel_eqD(1)[OF s2, of c] by (simp add: is_interval_def upd_conn_def)
  have "post (evolve {c} (?w2 s w1)) (ngxe_client_init_handler E (Write_ev c) (?w2 s w1))"
    "post (evolve {c} (?w2 s w1)) (ngx_event_add_timer (Write_ev c) (word_of_int t) (?w2 s w1))"
    using l ni
    by (intro ngxe_client_init_handler_evolve add_timer_evolve; simp add: live_def used_def del: upd_ev.simps)+
  then show ?thesis using rest sp
    by (auto elim!: rbind_InrE simp del: upd_ev.simps split: if_splits dest: evolve_slots_ok)
qed

lemma client_ok:
  assumes "slots_ok w" "xs_ngxe_client E b a port t sub as w = Inr (Some c, w')"
  shows "slots_ok w'"
proof -
  obtain ba where "client_open E ba (ngx_inet_addr a) (length a) (word_of_int port) t sub as w = Inr (Some c, w')"
    using assms(2) by (auto simp: xs_ngxe_client_def Let_def split: option.splits if_splits)
  note opn = this[unfolded client_open_def]
  obtain p w1 where 1: "create_pool E 1024 w = (Some p, w1)"
    using opn by (cases "create_pool E 1024 w"; cases "fst (create_pool E 1024 w)") auto
  obtain pr w2 where 2: "ngxe_create_peer E (Some p) ba (ngx_inet_addr a) (word_of_int port) w1 = Inr (pr, w2)"
    using opn by (auto simp: 1 Let_def elim: rbind_InrE)
  obtain pc where pc: "pr = Some pc" using opn by (cases pr) (auto simp: 1 2 Let_def elim: rbind_InrE)
  obtain cbp w3 where 3: "alloc_callback_cleanup E (Some p) w2 = Inr (cbp, w3)"
    using opn by (auto simp: 1 2 pc Let_def elim: rbind_InrE)
  obtain cb where cb: "cbp = Some cb" using opn by (cases cbp) (auto simp: 1 2 pc 3 Let_def elim: rbind_InrE)
  let ?specs = "[Fresh (SvIOK_only (p_newSViv E 0)), Fresh (SvIOK_only (p_newSViv E 0))] @ user_args E as w3"
  obtain w4 where 4: "fill_callback E (Some p) cb sub ?specs w3 = Inr w4"
    using opn by (auto simp: 1 2 pc 3 cb Let_def elim: rbind_InrE)
  obtain nm w5 where 5: "pool_alloc E (Some p) ngx_pnalloc (of_nat (length a)) w4 = Inr (nm, w5)"
    using opn 4 by (auto simp: 1 2 pc 3 cb Let_def elim: rbind_InrE)
  have failed: "client_failed E q cb k m w \<noteq> Inr (Some c, w')" for q k m w
    by (auto simp: client_failed_def elim!: rbind_InrE)
  obtain rc pc' w6 where 6: "ngx_event_connect_peer E pc w5 = (rc, pc', w6)" by (metis prod.collapse)
  have fin: "rc \<notin> {NGX_ERROR, NGX_BUSY, NGX_DECLINED} \<and> (\<exists>d. pr_connection pc' = Some d \<and>
      client_connected E (Some p) cb d (rc = NGX_OK) t w6 = Inr (Some c, w'))"
    using opn 4 5 6 failed by (auto simp: 1 2 pc 3 cb Let_def split: if_splits option.splits)
  have "skel w1 = skel w" using skel_create_pool[of E 1024 w] 1 by simp
  moreover have "skel w2 = skel w1" using same_create_peer[of w1 E "Some p"] 2 by (auto dest: postD)
  moreover have "skel w3 = skel w2" using same_alloc_callback_cleanup[of w2 E "Some p"] 3 by simp
  moreover have "skel w4 = skel w3" using same_fill_callback[of w3 E "Some p" cb sub ?specs] 4 by simp
  moreover have "skel w5 = skel w4" using same_pool_alloc[of w4 E "Some p" ngx_pnalloc] 5 by (auto dest: postD)
  ultimately have "skel w5 = skel w" by simp
  then have "slots_ok w5" using assms(1) slots_ok_cong by blast
  then show ?thesis using fin connect_peer_fresh[OF _ 6] client_connected_ok by blast
qed

end

section \<open>Reachable worlds\<close>

lemma free_path_init:
  assumes "k \<le> n"
  shows "free_path (init_slots raw n w) (if k < n then Some k else None) [k..<n]"
  using assms
proof (induction k rule: inc_induct)
  case (step k)
  have d: "c_data (conns (init_slots raw n w) k) = (if Suc k < n then Data_next (Suc k) else Data_null)"
    by (simp add: init_slots_def init_connection_def)
  have "[k..<n] = k # [Suc k..<n]" using step(2) by (rule upt_conv_Cons)
  then show ?case using step(2,3) d by (auto simp: data_next_def)
qed simp

lemma slots_ok_init: "slots_ok (init_slots raw n (ngx_event_timer_init w))"
proof -
  let ?w = "init_slots raw n (ngx_event_timer_init w)"
  have "slots_inv [0..<n] ?w"
    unfolding slots_inv_def using free_path_init[of 0 n raw "ngx_event_timer_init w"]
    by (simp add: init_slots_def ngx_event_timer_init_def atLeast0LessThan)
  then show ?thesis by (auto simp: slots_ok_def)
qed

text \<open>
  The steps of the engine: the main program calls an operation, the kernel reports an event,
  the clock moves, or the first timer expires. Three restrictions keep out the defects
  of the code: \<open>ngxe_client\<close> is a step only when it succeeds, and only of the main
  program; a timer is cleared by the main program, while it is set; and a timer structure
  is given back, when it is cleared or its timeout fires, only when the write event
  of its slot has no timer.
\<close>

inductive engine_step :: "('k, 'm) env \<Rightarrow> ('k, 'm) world \<Rightarrow> ('k, 'm) world \<Rightarrow> bool" for E where
  main: "plain_action a \<Longrightarrow> perl_action E a w = Inr w' \<Longrightarrow> engine_step E w w'"
| clock: "engine_step E w (w\<lparr>current_msec := t, kernel := k\<rparr>)"
| event: "ev_conn e < connection_n w \<Longrightarrow> ev_handler (get_ev e w) \<noteq> Ngxe_timeout_callback \<Longrightarrow>
    deliver E False e w = Inr w' \<Longrightarrow> engine_step E w w'"
| expire: "timers w = (e, k) # ts \<Longrightarrow> sint (k - current_msec w) \<le> 0 \<Longrightarrow>
    (ev_handler (get_ev e w) = Ngxe_timeout_callback \<Longrightarrow> \<not> ev_timer_set (get_ev (other_ev e) w)) \<Longrightarrow>
    run_handler E e (expire_first e w) = Inr w' \<Longrightarrow> engine_step E w w'"
| connect: "xs_ngxe_client E b a port t sub as w = Inr (Some c, w') \<Longrightarrow> engine_step E w w'"
| clear: "c < connection_n w \<Longrightarrow> c_data (conns w c) = Data_interval iv \<Longrightarrow>
    iv_connection (intervals w iv) = Some c \<Longrightarrow> \<not> ev_timer_set (get_ev (Write_ev c) w) \<Longrightarrow>
    ngxe_timer_clear E iv w = Inr w' \<Longrightarrow> engine_step E w w'"

inductive engine_reach :: "('k, 'm) env \<Rightarrow> ('k, 'm) world \<Rightarrow> bool" for E where
  init: "engine_reach E (init_slots raw n (ngx_event_timer_init w))"
| step: "engine_reach E w \<Longrightarrow> engine_step E w w' \<Longrightarrow> engine_reach E w'"

lemma expire_first_ok:
  assumes "slots_ok w" "timers w = (e, k) # ts"
  shows "slots_ok (expire_first e w)" "ev_conn e < connection_n (expire_first e w)"
    "ev_handler (get_ev e (expire_first e w)) = ev_handler (get_ev e w)"
    "\<not> ev_timer_set (get_ev (other_ev e) w) \<Longrightarrow> expired (ev_conn e) (expire_first e w)"
proof -
  obtain w1 where w1: "ngx_event_del_timer e w = Inr w1"
    "w1 = upd_ev e (\<lambda>x. x\<lparr>ev_timer_key := 0, ev_timer_set := False\<rparr>) (w\<lparr>timers := timer_delete e (timers w)\<rparr>)"
    using assms(2) by (simp add: ngx_event_del_timer_def)
  have "slots_ok w1" using del_timer_evolve[of w e UNIV] assms(1) w1(1) by (simp add: evolve_slots_ok)
  moreover have "expire_first e w = upd_ev e (ev_timedout_update (\<lambda>_. True)) w1"
    by (cases e) (simp_all add: w1(2) expire_first_def upd_conn_def)
  moreover have "skel (upd_ev e (ev_timedout_update (\<lambda>_. True)) w1) = skel w1" by (rule skel_upd_ev) simp_all
  ultimately show "slots_ok (expire_first e w)" using slots_ok_cong by metis
  obtain fs where "slots_inv fs w" using assms(1) by (auto simp: slots_ok_def)
  then show "ev_conn e < connection_n (expire_first e w)"
    using assms(2) by (auto simp: slots_inv_def expire_first_def)
  show "ev_handler (get_ev e (expire_first e w)) = ev_handler (get_ev e w)"
    by (simp add: expire_first_def)
  show "\<not> ev_timer_set (get_ev (other_ev e) w) \<Longrightarrow> expired (ev_conn e) (expire_first e w)"
    by (cases e) (simp_all add: expired_def expire_first_def upd_conn_def)
qed

context callback_contract
begin

lemma engine_step_ok:
  assumes "engine_step E w w'" "slots_ok w"
  shows "slots_ok w'"
  using assms
proof cases
  case (main a)
  then show ?thesis using perl_action_evolve[OF assms(2), of a] by (simp add: evolve_slots_ok)
next
  case (clock t k)
  then show ?thesis using assms(2) slots_ok_cong[of w' w] by simp
next
  case (event e)
  let ?w = "upd_ev e (ev_ready_update (\<lambda>_. True)) w"
  have s: "skel ?w = skel w" by (rule skel_ev_frame)
  have "post slots_ok (run_handler E e ?w)"
    using event assms(2) slots_ok_cong[OF s] by (intro run_handler_ok) simp_all
  then show ?thesis using event by (simp add: deliver_def Let_def)
next
  case (expire e k ts)
  note x = expire_first_ok[OF assms(2) expire(1)]
  have "post slots_ok (run_handler E e (expire_first e w))"
    by (rule run_handler_ok[OF x(1,2)]) (rule x(4), rule expire(3), simp add: x(3))
  then show ?thesis using expire(4) by simp
next
  case (connect b a port t sub as c)
  then show ?thesis using client_ok[OF assms(2)] by blast
next
  case (clear c iv)
  then show ?thesis using timer_clear_ok[OF assms(2), of c iv E] by simp
qed

lemma engine_reach_ok: "engine_reach E w \<Longrightarrow> slots_ok w"
  by (induction rule: engine_reach.induct) (simp_all add: slots_ok_init engine_step_ok)

end

section \<open>Properties\<close>

text \<open>
  (C1) In every world that the engine reaches from its start the free list is a path through
  different slots whose number is \<open>free_connection_n\<close>, every timer in the queue belongs to
  a slot in use and has its flag and key, and every slot in use with the flag set is in the
  queue exactly once. The steps are the operations of the main program, events of the
  kernel, the clock, and expired timers, with Perl callbacks that use every operation, to any
  depth, except \<open>ngxe_client\<close>, \<open>ngxe_interval_clear\<close> and \<open>ngxe_timeout_clear\<close>. The main program may
  use these as well, \<open>ngxe_client\<close> as long as it succeeds and the other two on timers that
  are set. A timeout fires, or a timer is cleared, only while the write event
  of its slot has no timer. The code breaks the invariant without these restrictions.
\<close>

theorem engine_keeps_slots:
  assumes "engine_reach (script_env n E (plain_script sc)) w"
  shows "slots_ok w"
  using assms by (rule scripts.engine_reach_ok)

text \<open>An example: the main program sets a timeout of 5 milliseconds, the clock moves, and the timeout fires.\<close>

definition idle_env :: "(replay, addr) env" where
  "idle_env = script_env 3 sample_env (plain_script (\<lambda>h args w. []))"

lemma idle_env_simps [simp]:
  "alloc idle_env = page_allocator" "pagesize idle_env = 4096" "p_newSViv idle_env = iv_sv"
  "p_newSVsv idle_env = (\<lambda>s. s\<lparr>sv_refcnt := 1\<rparr>)" "p_call_sv idle_env = (\<lambda>h args. Inr)"
  by (simp_all add: idle_env_def script_env_def sample_env_def fun_eq_iff numeral_3_eq_3 plain_script_def)

lemmas timer_set_defs = perl_action_def ngxe_timer_set_def ngx_get_connection_def started_def init_slots_def
  blank_world_def ngx_event_timer_init_def init_connection_def create_pool_def ngx_create_pool_def pool_alloc_def
  ngx_palloc_def ngx_palloc_block_def fuel_2 sizeof_defs ngx_align_ptr_def timer_init_def timer_start_def
  alloc_callback_def fill_callback_def new_sv_def upd_sv_def upd_cb_def upd_conn_def SvREFCNT_inc_def
  sv_2mortal_def user_args_def sizeof_ngxe_interval_t_def sizeof_ngxe_callback_t_def page_allocator_def
  Let_def ngx_event_add_timer_def fresh_connection_def zero_event_def data_next_def zero_callback_def

lemma timeout_set_sample:
  "returns (\<lambda>w. timers w = [(Read_ev 0, 5)] \<and> ev_handler (get_ev (Read_ev 0) w) = Ngxe_timeout_callback \<and>
     \<not> ev_timer_set (get_ev (Write_ev 0) w) \<and> c_data (conns w 0) = Data_interval 65616 \<and>
     c_pool (conns w 0) = Some 65536 \<and> pools w 65536 \<noteq> None \<and>
     (case iv_callback (intervals w 65616) of None \<Rightarrow> False
      | Some cb \<Rightarrow> cb_args (callbacks w cb) \<noteq> [] \<and> cb_handler (callbacks w cb) \<noteq> None))
   (perl_action idle_env (Act_timeout_set 5 1 []) (started 2))"
  by (simp add: returns_def timer_set_defs)

lemma idle_timeout:
  assumes "c_data (conns w c) = Data_interval iv" "iv_callback (intervals w iv) = Some cb" "c_pool (conns w c) = Some p"
    "pools w p \<noteq> None" "cb_args (callbacks w cb) \<noteq> []" "cb_handler (callbacks w cb) = Some h"
  shows "\<exists>w'. ngxe_timeout_callback idle_env (Read_ev c) w = Inr w' \<and> free_connections w' = Some c \<and> timers w' = timers w"
proof -
  obtain w1 where 1: "ngxe_callback idle_env cb True w = Inr w1" "conns w1 = conns w" "pools w1 = pools w" "timers w1 = timers w"
    using idle_callback[of idle_env w cb h True] assms(5,6) by auto
  have "\<exists>w2. destroy_pool idle_env (Some p) w1 = Inr w2"
    using assms(4) 1 by (auto simp: destroy_pool_def ngx_destroy_pool_def)
  then obtain w2 where 2: "destroy_pool idle_env (Some p) w1 = Inr w2" by blast
  have "timers w2 = timers w1" using same_destroy_pool[of w1 idle_env "Some p"] 2 skel_eqD(8) by fastforce
  then have "timers (ngx_free_connection c w2) = timers w" using 1 by (simp add: ngx_free_connection_def upd_conn_def)
  moreover have "free_connections (ngx_free_connection c w2) = Some c" by (simp add: ngx_free_connection_def)
  moreover have "ngxe_timeout_callback idle_env (Read_ev c) w = Inr (ngx_free_connection c w2)"
    using assms(1-3) 1 2 by (simp add: ngxe_timeout_callback_def interval_of_def deref_def)
  ultimately show ?thesis by blast
qed

theorem engine_keeps_slots_witness:
  "\<exists>w. engine_reach (script_env 3 sample_env (plain_script (\<lambda>h args w. []))) w \<and>
     current_msec w = 7 \<and> timers w = [(Read_ev 0, 5)] \<and> slots_ok w \<and>
     (\<exists>w'. engine_reach (script_env 3 sample_env (plain_script (\<lambda>h args w. []))) w' \<and>
        free_connections w' = Some 0 \<and> timers w' = [] \<and> slots_ok w')"
proof -
  have "engine_reach idle_env (started 2)" unfolding started_def by (rule engine_reach.init)
  moreover obtain w1 cb where w1: "perl_action idle_env (Act_timeout_set 5 1 []) (started 2) = Inr w1"
    "timers w1 = [(Read_ev 0, 5)]" "ev_handler (get_ev (Read_ev 0) w1) = Ngxe_timeout_callback"
    "\<not> ev_timer_set (get_ev (Write_ev 0) w1)" "c_data (conns w1 0) = Data_interval 65616"
    "c_pool (conns w1 0) = Some 65536" "pools w1 65536 \<noteq> None" "iv_callback (intervals w1 65616) = Some cb"
    "cb_args (callbacks w1 cb) \<noteq> []" "cb_handler (callbacks w1 cb) \<noteq> None"
    using timeout_set_sample by (auto elim!: returnsE split: option.splits)
  ultimately have "engine_reach idle_env w1"
    using engine_step.main[of "Act_timeout_set 5 1 []" idle_env "started 2" w1] by (auto simp: plain_action_def intro: engine_reach.step)
  define w2 where "w2 = w1\<lparr>current_msec := 7, kernel := ([], [])\<rparr>"
  have r2: "engine_reach idle_env w2"
    unfolding w2_def by (rule engine_reach.step[OF \<open>engine_reach idle_env w1\<close>]) (rule engine_step.clock)
  let ?w = "expire_first (Read_ev 0) w2"
  obtain w3 where w3: "ngxe_timeout_callback idle_env (Read_ev 0) ?w = Inr w3" "free_connections w3 = Some 0"
    "timers w3 = timers ?w"
    using idle_timeout[of ?w 0 65616 cb 65536] w1 by (auto simp: expire_first_def w2_def upd_conn_def)
  have "engine_step idle_env w2 w3"
    by (rule engine_step.expire[of w2 "Read_ev 0" 5 "[]"])
       (use w1 w3(1) in \<open>simp_all add: w2_def run_handler_def expire_first_def upd_conn_def\<close>)
  with r2 have r3: "engine_reach idle_env w3" by (rule engine_reach.step)
  have "timers w3 = []" using w3(3) w1(2) by (simp add: expire_first_def w2_def upd_conn_def timer_delete_def)
  moreover have "current_msec w2 = 7" "timers w2 = [(Read_ev 0, 5)]" using w1(2) by (simp_all add: w2_def)
  ultimately show ?thesis
    using r2 r3 w3(2) engine_keeps_slots[OF r2[unfolded idle_env_def]] engine_keeps_slots[OF r3[unfolded idle_env_def]]
    unfolding idle_env_def by blast
qed

end
