(* ===== verification/Ngx_Rbtree.thy ===== *)
theory Ngx_Rbtree
  imports Ngx_Prelude
begin

text \<open>
  The red-black tree, \<open>src/nginx/src/core/ngx_rbtree.[ch]\<close>, at the level of its pointers:
  \<open>rbtree\<close> holds the fields of all nodes and of the tree; a node is its address and 0 is NULL.
  The loops are partial functions, so that a tree with a cycle gives \<open>None\<close>.
\<close>

section \<open>Nodes\<close>

type_synonym rbnode = nat

record rbtree =
  rb_key :: "rbnode \<Rightarrow> 64 word"
  rb_left :: "rbnode \<Rightarrow> rbnode"
  rb_right :: "rbnode \<Rightarrow> rbnode"
  rb_parent :: "rbnode \<Rightarrow> rbnode"
  rb_red :: "rbnode \<Rightarrow> bool"
  rb_root :: rbnode
  rb_sentinel :: rbnode

definition set_left :: "rbnode \<Rightarrow> rbnode \<Rightarrow> rbtree \<Rightarrow> rbtree" where
  "set_left n x h = h\<lparr>rb_left := (rb_left h)(n := x)\<rparr>"

definition set_right :: "rbnode \<Rightarrow> rbnode \<Rightarrow> rbtree \<Rightarrow> rbtree" where
  "set_right n x h = h\<lparr>rb_right := (rb_right h)(n := x)\<rparr>"

definition set_parent :: "rbnode \<Rightarrow> rbnode \<Rightarrow> rbtree \<Rightarrow> rbtree" where
  "set_parent n x h = h\<lparr>rb_parent := (rb_parent h)(n := x)\<rparr>"

definition set_red :: "rbnode \<Rightarrow> bool \<Rightarrow> rbtree \<Rightarrow> rbtree" where
  "set_red n c h = h\<lparr>rb_red := (rb_red h)(n := c)\<rparr>"

definition set_key :: "rbnode \<Rightarrow> 64 word \<Rightarrow> rbtree \<Rightarrow> rbtree" where
  "set_key n k h = h\<lparr>rb_key := (rb_key h)(n := k)\<rparr>"

definition ngx_rbtree_init :: "rbnode \<Rightarrow> rbtree \<Rightarrow> rbtree" where
  "ngx_rbtree_init s h = (set_red s False h)\<lparr>rb_root := s, rb_sentinel := s\<rparr>"

section \<open>Rotations\<close>

definition ngx_rbtree_left_rotate :: "rbnode \<Rightarrow> rbtree \<Rightarrow> rbtree" where
  "ngx_rbtree_left_rotate node h =
     (let temp = rb_right h node;
          h = set_right node (rb_left h temp) h;
          h = (if rb_left h temp \<noteq> rb_sentinel h then set_parent (rb_left h temp) node h else h);
          h = set_parent temp (rb_parent h node) h;
          h = (if node = rb_root h then h\<lparr>rb_root := temp\<rparr>
               else if node = rb_left h (rb_parent h node) then set_left (rb_parent h node) temp h
               else set_right (rb_parent h node) temp h);
          h = set_left temp node h
      in set_parent node temp h)"

definition ngx_rbtree_right_rotate :: "rbnode \<Rightarrow> rbtree \<Rightarrow> rbtree" where
  "ngx_rbtree_right_rotate node h =
     (let temp = rb_left h node;
          h = set_left node (rb_right h temp) h;
          h = (if rb_right h temp \<noteq> rb_sentinel h then set_parent (rb_right h temp) node h else h);
          h = set_parent temp (rb_parent h node) h;
          h = (if node = rb_root h then h\<lparr>rb_root := temp\<rparr>
               else if node = rb_right h (rb_parent h node) then set_right (rb_parent h node) temp h
               else set_left (rb_parent h node) temp h);
          h = set_right temp node h
      in set_parent node temp h)"

section \<open>Insertion\<close>

text \<open>
  The loop of \<open>ngx_rbtree_insert_value\<close> and \<open>ngx_rbtree_insert_timer_value\<close>, which differ in
  the comparison \<open>lt\<close> only: the result is the last node and whether the new one goes to its
  left.
\<close>

partial_function (option) insert_descend ::
  "(64 word \<Rightarrow> 64 word \<Rightarrow> bool) \<Rightarrow> rbtree \<Rightarrow> rbnode \<Rightarrow> rbnode \<Rightarrow> (rbnode \<times> bool) option" where
  "insert_descend lt h node temp =
     (let go_left = lt (rb_key h node) (rb_key h temp);
          p = (if go_left then rb_left h temp else rb_right h temp)
      in if p = rb_sentinel h then Some (temp, go_left) else insert_descend lt h node p)"

definition insert_link ::
  "(64 word \<Rightarrow> 64 word \<Rightarrow> bool) \<Rightarrow> rbnode \<Rightarrow> rbnode \<Rightarrow> rbtree \<Rightarrow> rbtree option" where
  "insert_link lt temp node h =
     (case insert_descend lt h node temp of
        None \<Rightarrow> None
      | Some (temp, go_left) \<Rightarrow>
          let h = (if go_left then set_left temp node h else set_right temp node h);
              h = set_parent node temp h;
              h = set_left node (rb_sentinel h) h;
              h = set_right node (rb_sentinel h) h
          in Some (set_red node True h))"

definition ngx_rbtree_insert_value :: "rbnode \<Rightarrow> rbnode \<Rightarrow> rbtree \<Rightarrow> rbtree option" where
  "ngx_rbtree_insert_value = insert_link (\<lambda>a b. a < b)"

definition ngx_rbtree_insert_timer_value :: "rbnode \<Rightarrow> rbnode \<Rightarrow> rbtree \<Rightarrow> rbtree option" where
  "ngx_rbtree_insert_timer_value = insert_link (\<lambda>a b. sint (a - b) < 0)"

text \<open>One turn of the loop of \<open>ngx_rbtree_insert\<close>, for each side of the grandparent\<close>

definition insert_fix_left :: "rbnode \<Rightarrow> rbtree \<Rightarrow> rbnode \<times> rbtree" where
  "insert_fix_left node h =
     (let temp = rb_right h (rb_parent h (rb_parent h node)) in
      if rb_red h temp then
        let h = set_red (rb_parent h node) False h;
            h = set_red temp False h;
            h = set_red (rb_parent h (rb_parent h node)) True h
        in (rb_parent h (rb_parent h node), h)
      else
        let (node, h) = (if node = rb_right h (rb_parent h node)
                         then (rb_parent h node, ngx_rbtree_left_rotate (rb_parent h node) h) else (node, h));
            h = set_red (rb_parent h node) False h;
            h = set_red (rb_parent h (rb_parent h node)) True h
        in (node, ngx_rbtree_right_rotate (rb_parent h (rb_parent h node)) h))"

definition insert_fix_right :: "rbnode \<Rightarrow> rbtree \<Rightarrow> rbnode \<times> rbtree" where
  "insert_fix_right node h =
     (let temp = rb_left h (rb_parent h (rb_parent h node)) in
      if rb_red h temp then
        let h = set_red (rb_parent h node) False h;
            h = set_red temp False h;
            h = set_red (rb_parent h (rb_parent h node)) True h
        in (rb_parent h (rb_parent h node), h)
      else
        let (node, h) = (if node = rb_left h (rb_parent h node)
                         then (rb_parent h node, ngx_rbtree_right_rotate (rb_parent h node) h) else (node, h));
            h = set_red (rb_parent h node) False h;
            h = set_red (rb_parent h (rb_parent h node)) True h
        in (node, ngx_rbtree_left_rotate (rb_parent h (rb_parent h node)) h))"

partial_function (option) insert_fixup :: "rbnode \<Rightarrow> rbtree \<Rightarrow> rbtree option" where
  "insert_fixup node h =
     (if node \<noteq> rb_root h \<and> rb_red h (rb_parent h node) then
        let (node, h) = (if rb_parent h node = rb_left h (rb_parent h (rb_parent h node))
                         then insert_fix_left node h else insert_fix_right node h)
        in insert_fixup node h
      else Some (set_red (rb_root h) False h))"

text \<open>\<open>ngx_rbtree_insert\<close>; \<open>ins\<close> is \<open>tree->insert\<close>\<close>

definition ngx_rbtree_insert ::
  "(rbnode \<Rightarrow> rbnode \<Rightarrow> rbtree \<Rightarrow> rbtree option) \<Rightarrow> rbnode \<Rightarrow> rbtree \<Rightarrow> rbtree option" where
  "ngx_rbtree_insert ins node h =
     (if rb_root h = rb_sentinel h then
        let h = set_parent node 0 h;
            h = set_left node (rb_sentinel h) h;
            h = set_right node (rb_sentinel h) h;
            h = set_red node False h
        in Some (h\<lparr>rb_root := node\<rparr>)
      else Option.bind (ins (rb_root h) node h) (insert_fixup node))"

section \<open>Deletion\<close>

partial_function (option) ngx_rbtree_min :: "rbtree \<Rightarrow> rbnode \<Rightarrow> rbnode option" where
  "ngx_rbtree_min h node =
     (if rb_left h node \<noteq> rb_sentinel h then ngx_rbtree_min h (rb_left h node) else Some node)"

text \<open>The choice of \<open>subst\<close> and \<open>temp\<close>\<close>

definition delete_choose :: "rbnode \<Rightarrow> rbtree \<Rightarrow> (rbnode \<times> rbnode) option" where
  "delete_choose node h =
     (if rb_left h node = rb_sentinel h then Some (node, rb_right h node)
      else if rb_right h node = rb_sentinel h then Some (node, rb_left h node)
      else Option.bind (ngx_rbtree_min h (rb_right h node)) (\<lambda>subst.
             Some (subst, if rb_left h subst \<noteq> rb_sentinel h then rb_left h subst else rb_right h subst)))"

definition clear_node :: "rbnode \<Rightarrow> rbtree \<Rightarrow> rbtree" where
  "clear_node node h =
     (let h = set_left node 0 h;
          h = set_right node 0 h;
          h = set_parent node 0 h
      in set_key node 0 h)"

text \<open>The link to \<open>n\<close>, from its parent or from the tree, is set to \<open>x\<close>.\<close>

definition relink_left :: "rbnode \<Rightarrow> rbnode \<Rightarrow> rbtree \<Rightarrow> rbtree" where
  "relink_left n x h = (if n = rb_root h then h\<lparr>rb_root := x\<rparr>
     else if n = rb_left h (rb_parent h n) then set_left (rb_parent h n) x h
     else set_right (rb_parent h n) x h)"

text \<open>\<open>subst\<close> takes the place of \<open>node\<close>.\<close>

definition adopt :: "rbnode \<Rightarrow> rbtree \<Rightarrow> rbtree" where
  "adopt subst h =
     (let h = (if rb_left h subst \<noteq> rb_sentinel h then set_parent (rb_left h subst) subst h else h)
      in (if rb_right h subst \<noteq> rb_sentinel h then set_parent (rb_right h subst) subst h else h))"

definition replace :: "rbnode \<Rightarrow> rbnode \<Rightarrow> rbtree \<Rightarrow> rbtree" where
  "replace node subst h =
     (let h = set_left subst (rb_left h node) h;
          h = set_right subst (rb_right h node) h;
          h = set_parent subst (rb_parent h node) h;
          h = set_red subst (rb_red h node) h
      in adopt subst (relink_left node subst h))"

text \<open>\<open>subst\<close> leaves its place to \<open>temp\<close> and takes the place of \<open>node\<close>.\<close>

definition delete_relink :: "rbnode \<Rightarrow> rbnode \<Rightarrow> rbnode \<Rightarrow> rbtree \<Rightarrow> rbtree" where
  "delete_relink node subst temp h =
     (let h = (if subst = rb_left h (rb_parent h subst) then set_left (rb_parent h subst) temp h
               else set_right (rb_parent h subst) temp h)
      in if subst = node then set_parent temp (rb_parent h subst) h
         else
           let h = (if rb_parent h subst = node then set_parent temp subst h
                    else set_parent temp (rb_parent h subst) h)
           in replace node subst h)"

definition delete_fix_left :: "rbnode \<Rightarrow> rbtree \<Rightarrow> rbnode \<times> rbtree" where
  "delete_fix_left temp h =
     (let w = rb_right h (rb_parent h temp);
          (w, h) = (if rb_red h w then
                      let h = set_red w False h;
                          h = set_red (rb_parent h temp) True h;
                          h = ngx_rbtree_left_rotate (rb_parent h temp) h
                      in (rb_right h (rb_parent h temp), h)
                    else (w, h))
      in if \<not> rb_red h (rb_left h w) \<and> \<not> rb_red h (rb_right h w) then
           let h = set_red w True h in (rb_parent h temp, h)
         else
           let (w, h) = (if \<not> rb_red h (rb_right h w) then
                           let h = set_red (rb_left h w) False h;
                               h = set_red w True h;
                               h = ngx_rbtree_right_rotate w h
                           in (rb_right h (rb_parent h temp), h)
                         else (w, h));
               h = set_red w (rb_red h (rb_parent h temp)) h;
               h = set_red (rb_parent h temp) False h;
               h = set_red (rb_right h w) False h;
               h = ngx_rbtree_left_rotate (rb_parent h temp) h
           in (rb_root h, h))"

definition delete_fix_right :: "rbnode \<Rightarrow> rbtree \<Rightarrow> rbnode \<times> rbtree" where
  "delete_fix_right temp h =
     (let w = rb_left h (rb_parent h temp);
          (w, h) = (if rb_red h w then
                      let h = set_red w False h;
                          h = set_red (rb_parent h temp) True h;
                          h = ngx_rbtree_right_rotate (rb_parent h temp) h
                      in (rb_left h (rb_parent h temp), h)
                    else (w, h))
      in if \<not> rb_red h (rb_left h w) \<and> \<not> rb_red h (rb_right h w) then
           let h = set_red w True h in (rb_parent h temp, h)
         else
           let (w, h) = (if \<not> rb_red h (rb_left h w) then
                           let h = set_red (rb_right h w) False h;
                               h = set_red w True h;
                               h = ngx_rbtree_left_rotate w h
                           in (rb_left h (rb_parent h temp), h)
                         else (w, h));
               h = set_red w (rb_red h (rb_parent h temp)) h;
               h = set_red (rb_parent h temp) False h;
               h = set_red (rb_left h w) False h;
               h = ngx_rbtree_right_rotate (rb_parent h temp) h
           in (rb_root h, h))"

partial_function (option) delete_fixup :: "rbnode \<Rightarrow> rbtree \<Rightarrow> rbtree option" where
  "delete_fixup temp h =
     (if temp \<noteq> rb_root h \<and> \<not> rb_red h temp then
        let (temp, h) = (if temp = rb_left h (rb_parent h temp)
                         then delete_fix_left temp h else delete_fix_right temp h)
        in delete_fixup temp h
      else Some (set_red temp False h))"

definition ngx_rbtree_delete :: "rbnode \<Rightarrow> rbtree \<Rightarrow> rbtree option" where
  "ngx_rbtree_delete node h =
     Option.bind (delete_choose node h) (\<lambda>(subst, temp).
       if subst = rb_root h then Some (clear_node node (set_red temp False (h\<lparr>rb_root := temp\<rparr>)))
       else
         let red = rb_red h subst;
             h = clear_node node (delete_relink node subst temp h)
         in if red then Some h else delete_fixup temp h)"

end
