(* ===== verification/Ngx_Rbtree_Rep.thy ===== *)
theory Ngx_Rbtree_Rep
  imports Ngx_Rbtree
begin

text \<open>
  The trees that the pointers of \<open>ngx_rbtree.c\<close> represent: inductive trees, contexts (a tree
  with a hole, from the hole up to the root), and what the rotations do to them.
\<close>

section \<open>Trees and contexts\<close>

datatype ptree = Tip | Bin bool ptree rbnode ptree

datatype frame = In_left bool rbnode ptree | In_right bool ptree rbnode

fun inorder :: "ptree \<Rightarrow> rbnode list" where
  "inorder Tip = []"
| "inorder (Bin c l n r) = inorder l @ n # inorder r"

fun fnode :: "frame \<Rightarrow> rbnode" where
  "fnode (In_left c n r) = n"
| "fnode (In_right c l n) = n"

fun fred :: "frame \<Rightarrow> bool" where
  "fred (In_left c n r) = c"
| "fred (In_right c l n) = c"

fun plug :: "ptree \<Rightarrow> frame list \<Rightarrow> ptree" where
  "plug t [] = t"
| "plug t (In_left c n r # k) = plug (Bin c t n r) k"
| "plug t (In_right c l n # k) = plug (Bin c l n t) k"

fun before :: "frame list \<Rightarrow> rbnode list" where
  "before [] = []"
| "before (In_left c n r # k) = before k"
| "before (In_right c l n # k) = before k @ inorder l @ [n]"

fun after :: "frame list \<Rightarrow> rbnode list" where
  "after [] = []"
| "after (In_left c n r # k) = n # inorder r @ after k"
| "after (In_right c l n # k) = after k"

lemma inorder_plug: "inorder (plug t k) = before k @ inorder t @ after k"
  by (induction t k rule: plug.induct) simp_all

lemma plug_append: "plug t (k @ k') = plug (plug t k) k'"
  by (induction t k rule: plug.induct) simp_all

definition cnodes :: "frame list \<Rightarrow> rbnode set" where
  "cnodes k = set (before k) \<union> set (after k)"

lemma cnodes_simps [simp]:
  "cnodes [] = {}"
  "cnodes (In_left c n r # k) = insert n (set (inorder r) \<union> cnodes k)"
  "cnodes (In_right c l n # k) = insert n (set (inorder l) \<union> cnodes k)"
  by (auto simp: cnodes_def)

section \<open>Representation\<close>

text \<open>\<open>rep h p x t\<close>: the pointer \<open>x\<close>, whose node has the parent \<open>p\<close>, is the root of \<open>t\<close>.\<close>

fun rep :: "rbtree \<Rightarrow> rbnode \<Rightarrow> rbnode \<Rightarrow> ptree \<Rightarrow> bool" where
  "rep h p x Tip \<longleftrightarrow> x = rb_sentinel h"
| "rep h p x (Bin c l n r) \<longleftrightarrow> x = n \<and> n \<noteq> rb_sentinel h \<and> n \<noteq> 0 \<and> rb_parent h n = p \<and> rb_red h n = c \<and>
     rep h n (rb_left h n) l \<and> rep h n (rb_right h n) r"

text \<open>The pointer that leads to the hole, and the parent of the node there\<close>

fun hole :: "rbtree \<Rightarrow> frame list \<Rightarrow> rbnode" where
  "hole h [] = rb_root h"
| "hole h (In_left c n r # k) = rb_left h n"
| "hole h (In_right c l n # k) = rb_right h n"

fun up :: "rbtree \<Rightarrow> frame list \<Rightarrow> rbnode" where
  "up h [] = rb_parent h (rb_root h)"
| "up h (f # k) = fnode f"

fun repc :: "rbtree \<Rightarrow> frame list \<Rightarrow> bool" where
  "repc h [] \<longleftrightarrow> True"
| "repc h (In_left c n r # k) \<longleftrightarrow> hole h k = n \<and> n \<noteq> rb_sentinel h \<and> n \<noteq> 0 \<and> rb_parent h n = up h k \<and>
     rb_red h n = c \<and> rep h n (rb_right h n) r \<and> repc h k"
| "repc h (In_right c l n # k) \<longleftrightarrow> hole h k = n \<and> n \<noteq> rb_sentinel h \<and> n \<noteq> 0 \<and> rb_parent h n = up h k \<and>
     rb_red h n = c \<and> rep h n (rb_left h n) l \<and> repc h k"

definition at :: "rbtree \<Rightarrow> ptree \<Rightarrow> frame list \<Rightarrow> bool" where
  "at h t k \<longleftrightarrow> rep h (up h k) (hole h k) t \<and> repc h k \<and> distinct (inorder (plug t k)) \<and>
     rb_sentinel h \<noteq> 0 \<and> \<not> rb_red h (rb_sentinel h)"

lemma rep_up:
  "rep h (rb_parent h x) x (Bin c l n r) \<longleftrightarrow> x = n \<and> n \<noteq> rb_sentinel h \<and> n \<noteq> 0 \<and> rb_red h n = c \<and>
     rep h n (rb_left h n) l \<and> rep h n (rb_right h n) r"
  by auto

lemma at_frame:
  "at h t (In_left c n r # k) = at h (Bin c t n r) k"
  "at h t (In_right c l n # k) = at h (Bin c l n t) k"
  by (cases k; auto simp: at_def)+

lemma at_plug: "at h t k \<longleftrightarrow> at h (plug t k) []"
  by (induction t k rule: plug.induct) (simp_all add: at_frame)

lemma rep_not_sentinel: "rep h p x t \<Longrightarrow> n \<in> set (inorder t) \<Longrightarrow> n \<noteq> rb_sentinel h \<and> n \<noteq> 0"
  by (induction h p x t rule: rep.induct) auto

lemma repc_not_sentinel: "repc h k \<Longrightarrow> n \<in> cnodes k \<Longrightarrow> n \<noteq> rb_sentinel h \<and> n \<noteq> 0"
  by (induction h k rule: repc.induct) (auto dest: rep_not_sentinel)

lemma rep_root: "rep h p x t \<Longrightarrow> x \<in> set (inorder t) \<or> t = Tip \<and> x = rb_sentinel h"
  by (cases t) auto

lemma repc_root: "repc h k \<Longrightarrow> k \<noteq> [] \<Longrightarrow> rb_root h \<in> cnodes k"
proof (induction h k rule: repc.induct)
  case (2 h c n r k)
  then show ?case by (cases k) auto
next
  case (3 h c l n k)
  then show ?case by (cases k) auto
qed simp

section \<open>What a change keeps\<close>

text \<open>\<open>agree S h h'\<close>: the links and colours of the nodes of \<open>S\<close> are the same.\<close>

definition agree :: "rbnode set \<Rightarrow> rbtree \<Rightarrow> rbtree \<Rightarrow> bool" where
  "agree S h h' \<longleftrightarrow> rb_sentinel h' = rb_sentinel h \<and> (\<forall>n\<in>S. rb_left h' n = rb_left h n \<and>
     rb_right h' n = rb_right h n \<and> rb_parent h' n = rb_parent h n \<and> rb_red h' n = rb_red h n)"

lemma rep_agree: "rep h p x t \<Longrightarrow> agree (set (inorder t)) h h' \<Longrightarrow> rep h' p x t"
  by (induction h p x t rule: rep.induct) (auto simp: agree_def)

lemma rep_reparent: "rep h p x t \<Longrightarrow> distinct (inorder t) \<Longrightarrow> agree (set (inorder t)) (set_parent x q h) h' \<Longrightarrow> rep h' q x t"
proof (cases t)
  case (Bin c l n r)
  assume a: "rep h p x t" "distinct (inorder t)" "agree (set (inorder t)) (set_parent x q h) h'"
  have "rep h' n (rb_left h n) l" "rep h' n (rb_right h n) r"
    using a by (auto simp: Bin agree_def set_parent_def intro!: rep_agree[of h] split: if_splits)
  then show ?thesis using a by (simp add: Bin agree_def set_parent_def)
qed (simp add: agree_def set_parent_def)

lemma repc_agree:
  assumes "repc h k" "agree (cnodes k) h h'" "rb_root h' = rb_root h"
    "rb_parent h' (rb_root h) = rb_parent h (rb_root h)"
  shows "repc h' k" "hole h' k = hole h k" "up h' k = up h k"
proof -
  have s: "rb_sentinel h' = rb_sentinel h" using assms(2) by (simp add: agree_def)
  show up: "up h' k = up h k" for k using assms(3,4) by (cases k) simp_all
  have hole: "hole h' k = hole h k" if "agree (cnodes k) h h'" for k
    using that assms(3) by (cases k rule: before.cases) (simp_all add: agree_def)
  then show "hole h' k = hole h k" using assms(2) by blast
  have "agree (cnodes k) h h' \<Longrightarrow> repc h k \<Longrightarrow> repc h' k" for k
  proof (induction k rule: before.induct)
    case (2 c n r k)
    have k: "agree (cnodes k) h h'" "agree (set (inorder r)) h h'" and n: "agree {n} h h'"
      using 2(2) by (simp_all add: agree_def)
    have "rep h' n (rb_right h n) r" by (rule rep_agree[OF _ k(2)]) (use 2(3) in simp)
    then show ?case using 2(3) 2(1)[OF k(1)] n hole[OF k(1)] up[of k] s by (simp add: agree_def)
  next
    case (3 c l n k)
    have k: "agree (cnodes k) h h'" "agree (set (inorder l)) h h'" and n: "agree {n} h h'"
      using 3(2) by (simp_all add: agree_def)
    have "rep h' n (rb_left h n) l" by (rule rep_agree[OF _ k(2)]) (use 3(3) in simp)
    then show ?case using 3(3) 3(1)[OF k(1)] n hole[OF k(1)] up[of k] s by (simp add: agree_def)
  qed simp
  then show "repc h' k" using assms(1,2) by blast
qed

text \<open>The link to the hole\<close>

fun link :: "frame list \<Rightarrow> rbnode \<Rightarrow> rbtree \<Rightarrow> rbtree" where
  "link [] x h = h\<lparr>rb_root := x\<rparr>"
| "link (In_left c n r # k) x h = set_left n x h"
| "link (In_right c l n # k) x h = set_right n x h"

lemma link_simps [simp]:
  "rb_parent (link k x h) = rb_parent h" "rb_red (link k x h) = rb_red h" "rb_key (link k x h) = rb_key h"
  "rb_sentinel (link k x h) = rb_sentinel h" "hole (link k x h) k = x"
  by (cases k rule: before.cases; simp add: set_left_def set_right_def)+

lemma repc_link_only:
  assumes "repc h k" "distinct (before k @ after k)"
  shows "repc (link k x h) k"
proof (cases k rule: before.cases)
  case (2 c n r k')
  have k: "agree (cnodes k') h (link k x h)" "agree (set (inorder r)) h (link k x h)"
    using assms(2) by (auto simp: 2 agree_def set_left_def cnodes_def)
  have r: "rb_root (link k x h) = rb_root h" by (simp add: 2 set_left_def)
  have "rep (link k x h) n (rb_right h n) r" by (rule rep_agree[OF _ k(2)]) (use assms(1) in \<open>simp add: 2\<close>)
  then show ?thesis using assms(1) repc_agree[OF _ k(1) r] by (simp add: 2 set_left_def)
next
  case (3 c l n k')
  have k: "agree (cnodes k') h (link k x h)" "agree (set (inorder l)) h (link k x h)"
    using assms(2) by (auto simp: 3 agree_def set_right_def cnodes_def)
  have r: "rb_root (link k x h) = rb_root h" by (simp add: 3 set_right_def)
  have "rep (link k x h) n (rb_left h n) l" by (rule rep_agree[OF _ k(2)]) (use assms(1) in \<open>simp add: 3\<close>)
  then show ?thesis using assms(1) repc_agree[OF _ k(1) r] by (simp add: 3 set_right_def)
qed simp

lemma repc_link:
  assumes "repc h k" "distinct (before k @ after k)" "agree (cnodes k) (link k x h) h'"
    "rb_root h' = rb_root (link k x h)"
  shows "repc h' k" "hole h' k = x"
proof -
  show "hole h' k = x" using assms(3,4)
    by (cases k rule: before.cases) (simp_all add: agree_def set_left_def set_right_def)
  show "repc h' k"
  proof (cases "k = []")
    case False
    have "rb_root (link k x h) \<in> cnodes k" using repc_root[OF repc_link_only[OF assms(1,2)] False] .
    then show ?thesis
      using repc_agree(1)[OF repc_link_only[OF assms(1,2)] assms(3,4)] assms(3) by (simp add: agree_def)
  qed simp
qed

text \<open>
  The rule for all changes: the subtree in the hole is exchanged, the link to the hole is set,
  and the nodes of the context stay the same otherwise.
\<close>

lemma at_update:
  assumes "at h t k" "agree (cnodes k) (link k x h) h'" "rb_root h' = rb_root (link k x h)"
    "rep h' (up h' k) x t'" "inorder t' = inorder t" "\<not> rb_red h' (rb_sentinel h')"
  shows "at h' t' k"
proof -
  have d: "distinct (before k @ after k)" using assms(1) by (auto simp: at_def inorder_plug)
  have s: "rb_sentinel h' = rb_sentinel h" using assms(2) by (simp add: agree_def)
  show ?thesis
    using assms(1,4,5,6) repc_link[OF _ d assms(2,3)] s by (simp add: at_def inorder_plug)
qed

lemma link_other:
  assumes "y \<notin> cnodes k"
  shows "rb_left (link k x h) y = rb_left h y" "rb_right (link k x h) y = rb_right h y"
  using assms by (cases k rule: before.cases; simp add: set_left_def set_right_def)+

lemma link_root: "k \<noteq> [] \<Longrightarrow> rb_root (link k x h) = rb_root h"
  by (cases k rule: before.cases) (simp_all add: set_left_def set_right_def)

lemma set_simps [simp]:
  "rb_left (set_left n x h) = (rb_left h)(n := x)" "rb_right (set_left n x h) = rb_right h"
  "rb_parent (set_left n x h) = rb_parent h" "rb_red (set_left n x h) = rb_red h"
  "rb_key (set_left n x h) = rb_key h" "rb_root (set_left n x h) = rb_root h" "rb_sentinel (set_left n x h) = rb_sentinel h"
  "rb_left (set_right n x h) = rb_left h" "rb_right (set_right n x h) = (rb_right h)(n := x)"
  "rb_parent (set_right n x h) = rb_parent h" "rb_red (set_right n x h) = rb_red h"
  "rb_key (set_right n x h) = rb_key h" "rb_root (set_right n x h) = rb_root h" "rb_sentinel (set_right n x h) = rb_sentinel h"
  "rb_left (set_parent n x h) = rb_left h" "rb_right (set_parent n x h) = rb_right h"
  "rb_parent (set_parent n x h) = (rb_parent h)(n := x)" "rb_red (set_parent n x h) = rb_red h"
  "rb_key (set_parent n x h) = rb_key h" "rb_root (set_parent n x h) = rb_root h" "rb_sentinel (set_parent n x h) = rb_sentinel h"
  "rb_left (set_red n c h) = rb_left h" "rb_right (set_red n c h) = rb_right h"
  "rb_parent (set_red n c h) = rb_parent h" "rb_red (set_red n c h) = (rb_red h)(n := c)"
  "rb_key (set_red n c h) = rb_key h" "rb_root (set_red n c h) = rb_root h" "rb_sentinel (set_red n c h) = rb_sentinel h"
  "rb_left (set_key n q h) = rb_left h" "rb_right (set_key n q h) = rb_right h"
  "rb_parent (set_key n q h) = rb_parent h" "rb_red (set_key n q h) = rb_red h"
  "rb_key (set_key n q h) = (rb_key h)(n := q)" "rb_root (set_key n q h) = rb_root h" "rb_sentinel (set_key n q h) = rb_sentinel h"
  by (simp_all add: set_left_def set_right_def set_parent_def set_red_def set_key_def)

text \<open>The three-way link update of the C code\<close>

lemma relink_left_link:
  assumes "at h (Bin c l n r) k" "rb_root g = rb_root h"
    "k \<noteq> [] \<Longrightarrow> rb_parent g n = rb_parent h n"
    "k \<noteq> [] \<Longrightarrow> rb_left g (rb_parent h n) = rb_left h (rb_parent h n)"
  shows "relink_left n x g = link k x g"
proof (cases k rule: before.cases)
  case 1
  then have "n = rb_root h" using assms(1) by (simp add: at_def)
  then show ?thesis using assms(2) by (simp add: 1 relink_left_def)
next
  case (2 d p e k')
  have "n \<notin> cnodes k" using assms(1) by (auto simp: at_def inorder_plug cnodes_def)
  moreover have "rb_root h \<in> cnodes k" using assms(1) 2 by (intro repc_root) (simp_all add: at_def)
  ultimately have r: "n \<noteq> rb_root h" by blast
  have "rb_parent h n = p" "rb_left h p = n" using assms(1) by (simp_all add: 2 at_def)
  then show ?thesis using assms(2-4) r by (simp add: 2 relink_left_def)
next
  case (3 d e p k')
  have n: "n \<notin> cnodes k" using assms(1) by (auto simp: at_def inorder_plug cnodes_def)
  moreover have "rb_root h \<in> cnodes k" using assms(1) 3 by (intro repc_root) (simp_all add: at_def)
  ultimately have r: "n \<noteq> rb_root h" by blast
  have p: "rb_parent h n = p" "rep h p (rb_left h p) e" "n \<noteq> rb_sentinel h"
    using assms(1) by (simp_all add: 3 at_def)
  have "rb_left h p \<noteq> n" using rep_root[OF p(2)] n p(3) by (auto simp: 3)
  then show ?thesis using assms(2-4) r p by (simp add: 3 relink_left_def)
qed

lemma left_rotate_relink:
  "ngx_rbtree_left_rotate n h =
     (let m = rb_right h n; b = rb_left h m; h1 = set_right n b h;
          h2 = (if rb_left h1 m \<noteq> rb_sentinel h then set_parent (rb_left h1 m) n h1 else h1);
          h3 = set_parent m (rb_parent h2 n) h2
      in set_parent n m (set_left m n (relink_left n m h3)))"
  by (simp add: ngx_rbtree_left_rotate_def relink_left_def Let_def)

lemma left_rotate_at:
  assumes at: "at h (Bin c a n (Bin d b m e)) k"
  shows "at (ngx_rbtree_left_rotate n h) (Bin d (Bin c a n b) m e) k"
    and "rb_red (ngx_rbtree_left_rotate n h) = rb_red h" "rb_key (ngx_rbtree_left_rotate n h) = rb_key h"
    "rb_sentinel (ngx_rbtree_left_rotate n h) = rb_sentinel h"
    "rb_parent (ngx_rbtree_left_rotate n h) (rb_sentinel h) = rb_parent h (rb_sentinel h)"
proof -
  let ?x = "rb_left h m" and ?s = "rb_sentinel h" and ?h' = "ngx_rbtree_left_rotate n h"
  have r: "hole h k = n" "n \<noteq> ?s" "n \<noteq> 0" "rb_parent h n = up h k" "rb_red h n = c" "rep h n (rb_left h n) a"
    "rb_right h n = m" "m \<noteq> ?s" "m \<noteq> 0" "rb_parent h m = n" "rb_red h m = d" "rep h m ?x b" "rep h m (rb_right h m) e"
    "?s \<noteq> 0" "\<not> rb_red h ?s" "repc h k"
    using at by (simp_all add: at_def)
  have D: "distinct (before k @ inorder a @ n # inorder b @ m # inorder e @ after k)"
    using at by (simp add: at_def inorder_plug)
  have x: "?x = ?s \<or> ?x \<in> set (inorder b)" using rep_root[OF r(12)] by blast
  have nk: "n \<notin> cnodes k" "m \<notin> cnodes k" "?x \<notin> cnodes k" "?x \<noteq> n" "?x \<noteq> m" "n \<noteq> m"
    using D x r(2,8) repc_not_sentinel[OF r(16), of ?x] by (auto simp: cnodes_def)
  define h3 where "h3 = set_parent m (rb_parent h n)
    ((if ?x \<noteq> ?s then set_parent ?x n (set_right n ?x h) else set_right n ?x h))"
  have link: "relink_left n m h3 = link k m h3"
    by (rule relink_left_link[OF at]) (use nk in \<open>auto simp: h3_def\<close>)
  have "?h' = set_parent n m (set_left m n (relink_left n m h3))"
    using nk by (auto simp: left_rotate_relink Let_def r(7) h3_def)
  then have h': "?h' = set_parent n m (set_left m n (link k m h3))" by (simp only: link)
  have f: "rb_left h3 = rb_left h" "rb_right h3 = (rb_right h)(n := ?x)"
    "rb_parent h3 = (if ?x \<noteq> ?s then (rb_parent h)(?x := n, m := up h k) else (rb_parent h)(m := up h k))"
    "rb_red h3 = rb_red h" "rb_key h3 = rb_key h" "rb_sentinel h3 = ?s" "rb_root h3 = rb_root h"
    using nk by (auto simp: h3_def r(4))
  show eqs: "rb_red ?h' = rb_red h" "rb_key ?h' = rb_key h" "rb_sentinel ?h' = ?s" by (simp_all add: h' f)
  show "rb_parent ?h' ?s = rb_parent h ?s" using r(2,8) by (auto simp: h' f)
  have "rb_left ?h' y = rb_left h y \<and> rb_right ?h' y = rb_right h y \<and> rb_parent ?h' y = rb_parent h y \<and> rb_red ?h' y = rb_red h y"
    if "y \<notin> cnodes k" "y \<noteq> n" "y \<noteq> m" "y \<noteq> ?x" for y
    using that link_other[OF that(1), of m h3] by (simp add: h' f)
  then have ag: "agree S h ?h'" if "S \<inter> cnodes k = {}" "n \<notin> S" "m \<notin> S" "?x \<notin> S" for S
    using that eqs(3) unfolding agree_def by blast
  have "rep ?h' n (rb_left h n) a" by (rule rep_agree[OF r(6) ag]) (use D x in \<open>auto simp: cnodes_def dest: rep_not_sentinel[OF r(6)]\<close>)
  moreover have "rep ?h' m (rb_right h m) e" by (rule rep_agree[OF r(13) ag]) (use D x in \<open>auto simp: cnodes_def dest: rep_not_sentinel[OF r(13)]\<close>)
  moreover have "rep ?h' n ?x b"
  proof (rule rep_reparent[OF r(12)])
    show "distinct (inorder b)" using D by simp
    have "y \<noteq> n \<and> y \<noteq> m \<and> y \<notin> cnodes k \<and> y \<noteq> ?s" if "y \<in> set (inorder b)" for y
      using that D rep_not_sentinel[OF r(12)] by (auto simp: cnodes_def)
    then show "agree (set (inorder b)) (set_parent ?x n h) ?h'"
      using link_other[of _ k m h3] by (auto simp: agree_def h' f)
  qed
  moreover have "up ?h' k = up h k"
  proof (cases k)
    case Nil
    then show ?thesis using nk r(1,4) by (simp add: h' f)
  qed simp
  ultimately have rep: "rep ?h' (up ?h' k) m (Bin d (Bin c a n b) m e)"
    using nk r link_other[of n k m h3] link_other[of m k m h3] by (simp add: h' f)
  have root: "rb_root ?h' = rb_root (link k m h)"
    using f(7) by (cases k rule: before.cases) (simp_all add: h')
  have agk: "agree (cnodes k) (link k m h) ?h'"
    using nk by (cases k rule: before.cases) (auto simp: agree_def h' f)
  show "at ?h' (Bin d (Bin c a n b) m e) k"
    by (rule at_update[OF at agk root rep]) (simp_all add: eqs r(15))
qed

section \<open>Mirror images\<close>

text \<open>
  The second halves of the loops of \<open>ngx_rbtree_insert\<close> and \<open>ngx_rbtree_delete\<close> are the mirror
  images of the first halves.
\<close>

definition mirror :: "rbtree \<Rightarrow> rbtree" where
  "mirror h = h\<lparr>rb_left := rb_right h, rb_right := rb_left h\<rparr>"

fun mtree :: "ptree \<Rightarrow> ptree" where
  "mtree Tip = Tip"
| "mtree (Bin c l n r) = Bin c (mtree r) n (mtree l)"

fun mframe :: "frame \<Rightarrow> frame" where
  "mframe (In_left c n r) = In_right c (mtree r) n"
| "mframe (In_right c l n) = In_left c n (mtree l)"

lemma mirror_simps [simp]:
  "rb_left (mirror h) = rb_right h" "rb_right (mirror h) = rb_left h" "rb_parent (mirror h) = rb_parent h"
  "rb_red (mirror h) = rb_red h" "rb_key (mirror h) = rb_key h" "rb_root (mirror h) = rb_root h"
  "rb_sentinel (mirror h) = rb_sentinel h" "mirror (mirror h) = h"
  by (simp_all add: mirror_def)

lemma mirror_set:
  "mirror (set_left n x h) = set_right n x (mirror h)" "mirror (set_right n x h) = set_left n x (mirror h)"
  "mirror (set_parent n x h) = set_parent n x (mirror h)" "mirror (set_red n c h) = set_red n c (mirror h)"
  "mirror (h\<lparr>rb_root := x\<rparr>) = (mirror h)\<lparr>rb_root := x\<rparr>"
  by (simp_all add: mirror_def set_left_def set_right_def set_parent_def set_red_def)

lemma mtree_mtree [simp]: "mtree (mtree t) = t"
  by (induction t) simp_all

lemma mframe_mframe [simp]: "mframe (mframe f) = f"
  by (cases f) simp_all

lemma map_mframe_map [simp]: "map mframe (map mframe k) = k"
  by (simp add: comp_def)

lemma inorder_mtree [simp]: "inorder (mtree t) = rev (inorder t)"
  by (induction t) simp_all

lemma plug_mirror: "plug (mtree t) (map mframe k) = mtree (plug t k)"
  by (induction t k rule: plug.induct) simp_all

lemma rep_mirror [simp]: "rep (mirror h) p x (mtree t) = rep h p x t"
  by (induction t arbitrary: p x) auto

lemma hole_mirror [simp]: "hole (mirror h) (map mframe k) = hole h k" "up (mirror h) (map mframe k) = up h k"
  by (cases k rule: before.cases; simp)+

lemma repc_mirror [simp]: "repc (mirror h) (map mframe k) = repc h k"
  by (induction h k rule: repc.induct) simp_all

lemma at_mirror: "at (mirror h) (mtree t) (map mframe k) = at h t k"
  by (simp add: at_def plug_mirror)

lemma right_rotate_mirror: "ngx_rbtree_right_rotate n (mirror h) = mirror (ngx_rbtree_left_rotate n h)"
  unfolding ngx_rbtree_right_rotate_def ngx_rbtree_left_rotate_def Let_def
  by (auto simp: mirror_set)

lemma right_rotate_at:
  assumes "at h (Bin c (Bin d e m b) n a) k"
  shows "at (ngx_rbtree_right_rotate n h) (Bin d e m (Bin c b n a)) k"
    and "rb_red (ngx_rbtree_right_rotate n h) = rb_red h" "rb_key (ngx_rbtree_right_rotate n h) = rb_key h"
    "rb_sentinel (ngx_rbtree_right_rotate n h) = rb_sentinel h"
    "rb_parent (ngx_rbtree_right_rotate n h) (rb_sentinel h) = rb_parent h (rb_sentinel h)"
proof -
  have eq: "ngx_rbtree_right_rotate n h = mirror (ngx_rbtree_left_rotate n (mirror h))"
    using right_rotate_mirror[of n "mirror h"] by simp
  have "at (mirror h) (Bin c (mtree a) n (Bin d (mtree b) m (mtree e))) (map mframe k)"
    using assms at_mirror[of h "Bin c (Bin d e m b) n a" k] by simp
  note r = left_rotate_at[OF this]
  show "at (ngx_rbtree_right_rotate n h) (Bin d e m (Bin c b n a)) k"
    using r(1) at_mirror[of "ngx_rbtree_right_rotate n h" "Bin d e m (Bin c b n a)" k] by (simp add: eq)
  show "rb_red (ngx_rbtree_right_rotate n h) = rb_red h" "rb_key (ngx_rbtree_right_rotate n h) = rb_key h"
    "rb_sentinel (ngx_rbtree_right_rotate n h) = rb_sentinel h"
    "rb_parent (ngx_rbtree_right_rotate n h) (rb_sentinel h) = rb_parent h (rb_sentinel h)"
    using r(2-5) by (simp_all add: eq)
qed

section \<open>Colours\<close>

lemma set_red_at:
  assumes "at h (Bin c l n r) k"
  shows "at (set_red n d h) (Bin d l n r) k"
proof -
  have h: "hole h k = n" "n \<noteq> rb_sentinel h" "n \<noteq> 0" "rb_parent h n = up h k"
    "rep h n (rb_left h n) l" "rep h n (rb_right h n) r" "rb_sentinel h \<noteq> 0" "\<not> rb_red h (rb_sentinel h)"
    using assms by (simp_all add: at_def)
  have D: "n \<notin> set (inorder l)" "n \<notin> set (inorder r)" "n \<notin> cnodes k"
    using assms by (auto simp: at_def inorder_plug cnodes_def)
  have "rep (set_red n d h) n (rb_left h n) l" "rep (set_red n d h) n (rb_right h n) r"
    using D by (auto intro!: rep_agree[OF h(5)] rep_agree[OF h(6)] simp: agree_def)
  moreover have "up (set_red n d h) k = up h k" by (cases k) simp_all
  ultimately have rep: "rep (set_red n d h) (up (set_red n d h) k) n (Bin d l n r)" using h by simp
  have "agree (cnodes k) (link k n h) (set_red n d h)" "rb_root (set_red n d h) = rb_root (link k n h)"
    using D(3) h(1) by (cases k rule: before.cases; auto simp: agree_def)+
  from at_update[OF assms this rep] show ?thesis using h by simp
qed

fun red :: "ptree \<Rightarrow> bool" where
  "red Tip = False"
| "red (Bin c l n r) = c"

lemma rep_red: "rep h p x t \<Longrightarrow> \<not> rb_red h (rb_sentinel h) \<Longrightarrow> rb_red h x = red t"
  by (cases t) auto

end
