(* ===== verification/Ngx_Rbtree_Insert.thy ===== *)
theory Ngx_Rbtree_Insert
  imports Ngx_Rbtree_Rep
begin

text \<open>
  \<open>ngx_rbtree_insert\<close> returns, keeps the in-order sequence but for the new node, and keeps the
  colour and height invariants of red-black trees.
\<close>

section \<open>Red-black trees\<close>

fun bh :: "ptree \<Rightarrow> nat" where
  "bh Tip = 0"
| "bh (Bin c l n r) = bh l + (if c then 0 else 1)"

fun ok :: "ptree \<Rightarrow> bool" where
  "ok Tip = True"
| "ok (Bin c l n r) = (ok l \<and> ok r \<and> bh l = bh r \<and> (c \<longrightarrow> \<not> red l \<and> \<not> red r))"

definition rb_ok :: "ptree \<Rightarrow> bool" where
  "rb_ok t \<longleftrightarrow> ok t \<and> \<not> red t"

text \<open>\<open>okc b k\<close>: a tree with the black height \<open>b\<close> fits into the hole.\<close>

fun okc :: "nat \<Rightarrow> frame list \<Rightarrow> bool" where
  "okc b [] = True"
| "okc b (In_left c n r # k) = (ok r \<and> bh r = b \<and> (c \<longrightarrow> \<not> red r \<and> k \<noteq> [] \<and> \<not> fred (hd k)) \<and>
     okc (b + (if c then 0 else 1)) k)"
| "okc b (In_right c l n # k) = (ok l \<and> bh l = b \<and> (c \<longrightarrow> \<not> red l \<and> k \<noteq> [] \<and> \<not> fred (hd k)) \<and>
     okc (b + (if c then 0 else 1)) k)"

lemma ok_plug:
  "ok t \<Longrightarrow> okc (bh t) k \<Longrightarrow> (red t \<Longrightarrow> k \<noteq> [] \<Longrightarrow> \<not> fred (hd k)) \<Longrightarrow> ok (plug t k) \<and> (k \<noteq> [] \<longrightarrow> \<not> red (plug t k))"
proof (induction t k rule: plug.induct)
  case (2 t c n r k)
  then have "ok (Bin c t n r)" "okc (bh (Bin c t n r)) k" "c \<Longrightarrow> k \<noteq> [] \<Longrightarrow> \<not> fred (hd k)" by auto
  from 2(1)[OF this(1,2)] this(3) show ?case using 2(3) by (cases "k = []") auto
next
  case (3 t c l n k)
  then have "ok (Bin c l n t)" "okc (bh (Bin c l n t)) k" "c \<Longrightarrow> k \<noteq> [] \<Longrightarrow> \<not> fred (hd k)" by auto
  from 3(1)[OF this(1,2)] this(3) show ?case using 3(3) by (cases "k = []") auto
qed simp

lemma plug_ok:
  "ok (plug t k) \<Longrightarrow> \<not> red (plug t k) \<Longrightarrow> ok t \<and> okc (bh t) k \<and> (red t \<longrightarrow> k \<noteq> [] \<and> \<not> fred (hd k))"
proof (induction t k rule: plug.induct)
  case (2 t c n r k)
  from 2(1) 2(2,3) show ?case by auto
next
  case (3 t c l n k)
  from 3(1) 3(2,3) show ?case by auto
qed auto

lemma bh_mtree [simp]: "ok t \<Longrightarrow> bh (mtree t) = bh t"
  by (induction t) auto

lemma red_mtree [simp]: "red (mtree t) = red t"
  by (cases t) simp_all

lemma fred_mframe [simp]: "fred (mframe f) = fred f"
  by (cases f) simp_all

lemma left_rotate_mirror: "ngx_rbtree_left_rotate n (mirror h) = mirror (ngx_rbtree_right_rotate n h)"
  using right_rotate_mirror[of n "mirror h"] by simp

lemma ok_mtree [simp]: "ok t \<Longrightarrow> ok (mtree t)"
  by (induction t) auto

lemma okc_mirror: "okc b k \<Longrightarrow> okc b (map mframe k)"
  by (induction b k rule: okc.induct) (auto simp: hd_map)

section \<open>One turn of the loop\<close>

text \<open>The heap fields that no step of the loops changes\<close>

definition keeps :: "rbtree \<Rightarrow> rbtree \<Rightarrow> bool" where
  "keeps h h' \<longleftrightarrow> rb_key h' = rb_key h \<and> rb_sentinel h' = rb_sentinel h \<and>
     rb_parent h' (rb_sentinel h) = rb_parent h (rb_sentinel h)"

lemma keeps_refl [simp]: "keeps h h"
  by (simp add: keeps_def)

lemma keeps_trans [trans]: "keeps h h' \<Longrightarrow> keeps h' h'' \<Longrightarrow> keeps h h''"
  by (simp add: keeps_def)

lemma keeps_set_red [simp]: "keeps h (set_red n c h)" "keeps h (set_red n c h') = keeps h h'"
  by (simp_all add: keeps_def)

lemma keeps_rotate:
  "at h (Bin c a n (Bin d b m e)) k \<Longrightarrow> keeps h (ngx_rbtree_left_rotate n h)"
  "at h (Bin c (Bin d e m b) n a) k \<Longrightarrow> keeps h (ngx_rbtree_right_rotate n h)"
  by (auto simp: keeps_def dest: left_rotate_at right_rotate_at)

lemma set_red_sub:
  assumes "at h (Bin c (Bin d a m b) n r) k"
  shows "at (set_red m e h) (Bin c (Bin e a m b) n r) k"
  using set_red_at[of h d a m b "In_left c n r # k" e] assms by (simp add: at_frame)

lemma set_red_sub_right:
  assumes "at h (Bin c l n (Bin d a m b)) k"
  shows "at (set_red m e h) (Bin c l n (Bin e a m b)) k"
  using set_red_at[of h d a m b "In_right c l n # k" e] assms by (simp add: at_frame)

lemma at_root: "at h (Bin c l n r) k \<Longrightarrow> rb_parent h n = up h k \<and> rb_red h n = c \<and> n \<noteq> rb_sentinel h \<and>
   rep h n (rb_left h n) l \<and> rep h n (rb_right h n) r"
  by (simp add: at_def)

lemma insert_fix_uncle:
  assumes "at h (Bin False (Bin True x p y) g (Bin True ul m ur)) k" "rb_parent h n = p"
  shows "insert_fix_left n h = (g, set_red g True (set_red m False (set_red p False h)))"
    "at (set_red g True (set_red m False (set_red p False h))) (Bin True (Bin False x p y) g (Bin False ul m ur)) k"
proof -
  have h: "rb_parent h p = g" "rb_right h g = m" "rb_red h m"
    using assms(1) by (simp_all add: at_def)
  then show "insert_fix_left n h = (g, set_red g True (set_red m False (set_red p False h)))"
    by (simp add: insert_fix_left_def Let_def assms(2))
  show "at (set_red g True (set_red m False (set_red p False h))) (Bin True (Bin False x p y) g (Bin False ul m ur)) k"
    by (rule set_red_at, rule set_red_sub_right, rule set_red_sub, rule assms(1))
qed

lemma insert_fix_outer:
  assumes "at h (Bin False (Bin True (Bin True a n b) p c) g u) k" "\<not> red u"
  shows "\<exists>h'. insert_fix_left n h = (n, h') \<and> at h' (Bin False (Bin True a n b) p (Bin True c g u)) k \<and> keeps h h'"
proof -
  let ?h = "set_red g True (set_red p False h)"
  have h: "rb_parent h p = g" "rb_parent h n = p" "rb_left h p = n" "rep h p (rb_right h p) c" "rep h g (rb_right h g) u"
    "\<not> rb_red h (rb_sentinel h)" "n \<noteq> rb_sentinel h"
    using assms(1) by (simp_all add: at_def)
  have "\<not> rb_red h (rb_right h g)" using rep_red[OF h(5,6)] assms(2) by simp
  moreover have "n \<noteq> rb_right h p"
    using rep_root[OF h(4)] assms(1) h(7) by (auto simp: at_def inorder_plug)
  ultimately have eq: "insert_fix_left n h = (n, ngx_rbtree_right_rotate g ?h)"
    using h(1-3) by (simp add: insert_fix_left_def Let_def)
  have at: "at ?h (Bin True (Bin False (Bin True a n b) p c) g u) k"
    by (rule set_red_at, rule set_red_sub, rule assms(1))
  show ?thesis using eq right_rotate_at(1)[OF at] keeps_rotate(2)[OF at] keeps_trans[of h ?h] by auto
qed

lemma insert_fix_inner:
  assumes "at h (Bin False (Bin True c p (Bin True a n b)) g u) k" "\<not> red u"
  shows "\<exists>h'. insert_fix_left n h = (p, h') \<and> at h' (Bin False (Bin True c p a) n (Bin True b g u)) k \<and> keeps h h'"
proof -
  have h: "rb_parent h p = g" "rb_parent h n = p" "rb_right h p = n" "rep h g (rb_right h g) u"
    "\<not> rb_red h (rb_sentinel h)" using assms(1) by (simp_all add: at_def)
  have u: "\<not> rb_red h (rb_right h g)" using rep_red[OF h(4,5)] assms(2) by simp
  have at0: "at h (Bin True c p (Bin True a n b)) (In_left False g u # k)"
    using assms(1) by (simp add: at_frame)
  define h1 where "h1 = ngx_rbtree_left_rotate p h"
  have at1: "at h1 (Bin False (Bin True (Bin True c p a) n b) g u) k"
    using left_rotate_at(1)[OF at0] by (simp add: h1_def at_frame)
  have h1: "rb_parent h1 p = n" "rb_parent h1 n = g" using at1 by (simp_all add: at_def)
  let ?h = "set_red g True (set_red n False h1)"
  have eq: "insert_fix_left n h = (p, ngx_rbtree_right_rotate g ?h)"
    using h(1-3) u h1 by (simp add: insert_fix_left_def Let_def flip: h1_def)
  have at: "at ?h (Bin True (Bin False (Bin True c p a) n b) g u) k"
    by (rule set_red_at, rule set_red_sub, rule at1)
  have "keeps h h1" using keeps_rotate(1)[OF at0] by (simp add: h1_def)
  then have "keeps h ?h" by simp
  then show ?thesis using eq right_rotate_at(1)[OF at] keeps_rotate(2)[OF at] keeps_trans by blast
qed

text \<open>
  \<open>red_at h n k\<close>: the loop invariant. The node \<open>n\<close> in the hole is red, the tree is a red-black
  tree but for the colour of the parent of \<open>n\<close>. \<open>settled\<close>: the loop is about to end.
\<close>

definition red_at :: "rbtree \<Rightarrow> rbnode \<Rightarrow> nat \<Rightarrow> rbnode list \<Rightarrow> bool" where
  "red_at h n m xs \<longleftrightarrow> (\<exists>k x y. at h (Bin True x n y) k \<and> ok (Bin True x n y) \<and> okc (bh x) k \<and> length k \<le> m \<and>
     inorder (plug (Bin True x n y) k) = xs)"

definition settled :: "rbtree \<Rightarrow> rbnode \<Rightarrow> rbnode list \<Rightarrow> bool" where
  "settled h n xs \<longleftrightarrow> (\<exists>t. at h t [] \<and> rb_ok t \<and> \<not> rb_red h (rb_parent h n) \<and> inorder t = xs)"

lemma red_at_mirror: "red_at h n m xs \<Longrightarrow> red_at (mirror h) n m (rev xs)"
proof -
  assume "red_at h n m xs"
  then obtain k x y where a: "at h (Bin True x n y) k" "ok (Bin True x n y)" "okc (bh x) k" "length k \<le> m"
    "inorder (plug (Bin True x n y) k) = xs" by (auto simp: red_at_def)
  then show ?thesis
    using okc_mirror[of "bh x" k] at_mirror[of h "Bin True x n y" k] plug_mirror[of "Bin True x n y" k]
    unfolding red_at_def by (intro exI[of _ "map mframe k"] exI[of _ "mtree y"] exI[of _ "mtree x"]) simp
qed

lemma settled_mirror: "settled h n xs \<Longrightarrow> settled (mirror h) n (rev xs)"
proof -
  assume "settled h n xs"
  then obtain t where "at h t []" "rb_ok t" "\<not> rb_red h (rb_parent h n)" "inorder t = xs" by (auto simp: settled_def)
  then show ?thesis using at_mirror[of h t "[]"] unfolding settled_def
    by (intro exI[of _ "mtree t"]) (simp add: rb_ok_def)
qed

lemma settledI:
  assumes "at h t k" "ok t" "\<not> red t" "okc (bh t) k" "\<not> rb_red h (rb_parent h n)"
  shows "settled h n (inorder (plug t k))"
  using assms at_plug[of h t k] ok_plug[of t k] unfolding settled_def
  by (intro exI[of _ "plug t k"]) (cases "k = []"; simp add: rb_ok_def)

lemma insert_turn_left:
  assumes at: "at h (Bin True a n b) (f # In_left False g u # k)" and f: "fred f"
    and inv: "ok (Bin True a n b)" "okc (bh a) (f # In_left False g u # k)"
    and fl: "insert_fix_left n h = (n', h')"
  shows "keeps h h' \<and> (red_at h' n' (length k) (inorder (plug (Bin True a n b) (f # In_left False g u # k))) \<or>
    settled h' n' (inorder (plug (Bin True a n b) (f # In_left False g u # k))))"
proof (cases "red u")
  case True
  then obtain ul m ur where u: "u = Bin True ul m ur" by (cases u) auto
  obtain x p y where fr: "at h (Bin False (Bin True x p y) g u) k" "rb_parent h n = p" "ok (Bin False x p y)"
    "bh (Bin False x p y) = bh u + 1" "ok u \<and> okc (bh u + 1) k"
    "inorder (Bin True x p y) = inorder (plug (Bin True a n b) [f])"
  proof (cases f)
    case (In_left c p r)
    show thesis by (rule that[of "Bin True a n b" p r]) (use at f inv in \<open>auto simp: In_left at_frame at_def\<close>)
  next
    case (In_right c l p)
    show thesis by (rule that[of l p "Bin True a n b"]) (use at f inv in \<open>auto simp: In_right at_frame at_def\<close>)
  qed
  let ?h = "set_red g True (set_red m False (set_red p False h))"
  note s = insert_fix_uncle[OF fr(1)[unfolded u] fr(2)]
  have "red_at ?h g (length k) (inorder (plug (Bin True a n b) (f # In_left False g u # k)))"
    unfolding red_at_def
    by (intro exI conjI, rule s(2))
       (use fr(3-6) True plug_append[of "Bin True a n b" "[f]" "In_left False g u # k"] in \<open>auto simp: u inorder_plug\<close>)
  then show ?thesis using s(1) fl by simp
next
  case False
  show ?thesis
  proof (cases f)
    case (In_left c p r)
    have "at h (Bin False (Bin True (Bin True a n b) p r) g u) k" using at f by (simp add: In_left at_frame)
    from insert_fix_outer[OF this False] fl
    have h': "n' = n" "at h' (Bin False (Bin True a n b) p (Bin True r g u)) k" "keeps h h'" by auto
    have "settled h' n (inorder (plug (Bin False (Bin True a n b) p (Bin True r g u)) k))"
      by (rule settledI[OF h'(2)]) (use inv False f at_root[OF h'(2)] h'(2) in \<open>auto simp: In_left at_def\<close>)
    then show ?thesis using h' f by (simp add: In_left inorder_plug)
  next
    case (In_right c l p)
    have "at h (Bin False (Bin True l p (Bin True a n b)) g u) k" using at f by (simp add: In_right at_frame)
    from insert_fix_inner[OF this False] fl
    have h': "n' = p" "at h' (Bin False (Bin True l p a) n (Bin True b g u)) k" "keeps h h'" by auto
    have "settled h' p (inorder (plug (Bin False (Bin True l p a) n (Bin True b g u)) k))"
      by (rule settledI[OF h'(2)]) (use inv False f at_root[OF h'(2)] h'(2) in \<open>auto simp: In_right at_def\<close>)
    then show ?thesis using h' f by (simp add: In_right inorder_plug)
  qed
qed

lemma insert_fix_mirror: "insert_fix_right n (mirror h) = (fst (insert_fix_left n h), mirror (snd (insert_fix_left n h)))"
  unfolding insert_fix_right_def insert_fix_left_def Let_def
  by (auto simp: right_rotate_mirror left_rotate_mirror simp flip: mirror_set(4))

lemma insert_turn_right:
  assumes "at h (Bin True a n b) (f # In_right False u g # k)" "fred f"
    and "ok (Bin True a n b)" "okc (bh a) (f # In_right False u g # k)"
    and fr: "insert_fix_right n h = (n', h')"
  shows "keeps h h' \<and> (red_at h' n' (length k) (inorder (plug (Bin True a n b) (f # In_right False u g # k))) \<or>
    settled h' n' (inorder (plug (Bin True a n b) (f # In_right False u g # k))))"
proof -
  let ?k = "f # In_right False u g # k"
  have at: "at (mirror h) (Bin True (mtree b) n (mtree a)) (mframe f # In_left False g (mtree u) # map mframe k)"
    using assms(1) at_mirror[of h "Bin True a n b" ?k] by simp
  have ok: "okc (bh (mtree b)) (mframe f # In_left False g (mtree u) # map mframe k)"
    using okc_mirror[OF assms(4)] assms(3,4) by simp
  have fl: "insert_fix_left n (mirror h) = (n', mirror h')"
    using insert_fix_mirror[of n "mirror h"] fr by (cases "insert_fix_left n (mirror h)") auto
  have "keeps (mirror h) (mirror h') \<and>
     (red_at (mirror h') n' (length k) (rev (inorder (plug (Bin True a n b) ?k))) \<or>
      settled (mirror h') n' (rev (inorder (plug (Bin True a n b) ?k))))"
    using insert_turn_left[OF at _ _ ok fl] assms(2,3) plug_mirror[of "Bin True a n b" ?k] inorder_mtree[of "plug (Bin True a n b) ?k"]
    by simp
  then show ?thesis
    using red_at_mirror[of "mirror h'"] settled_mirror[of "mirror h'"] by (fastforce simp: keeps_def)
qed

text \<open>The loop: it ends, and the tree is a red-black tree with the same sequence of nodes.\<close>

definition rebalanced :: "rbtree \<Rightarrow> rbtree option \<Rightarrow> rbnode list \<Rightarrow> bool" where
  "rebalanced h r xs \<longleftrightarrow> (\<exists>h' t. r = Some h' \<and> at h' t [] \<and> rb_ok t \<and> inorder t = xs \<and> keeps h h')"

lemma insert_fixup_stops:
  assumes "at h t []" "ok t" "inorder t = xs" "xs \<noteq> []" "n = rb_root h \<or> \<not> rb_red h (rb_parent h n)"
  shows "rebalanced h (insert_fixup n h) xs"
proof -
  obtain c l r e where t: "t = Bin c l r e" using assms(3,4) by (cases t) auto
  have "rb_root h = r" using assms(1) by (simp add: t at_def)
  then have "insert_fixup n h = Some (set_red r False h)" using assms(5) by (subst insert_fixup.simps) auto
  moreover have "at (set_red r False h) (Bin False l r e) []" using assms(1) by (simp add: t set_red_at)
  ultimately show ?thesis unfolding rebalanced_def using assms(2,3)
    by (intro exI[of _ "set_red r False h"] exI[of _ "Bin False l r e"]) (simp add: t rb_ok_def)
qed

lemma rebalanced_keeps: "keeps h h1 \<Longrightarrow> rebalanced h1 r xs \<Longrightarrow> rebalanced h r xs"
  unfolding rebalanced_def using keeps_trans by blast

lemma insert_fixup_turn:
  assumes at: "at h (Bin True x n y) (f # g # k)" and f: "fred f" "\<not> fred g"
    and inv: "ok (Bin True x n y)" "okc (bh x) (f # g # k)"
  shows "\<exists>n' h'. insert_fixup n h = insert_fixup n' h' \<and> keeps h h' \<and>
    (red_at h' n' (length k) (inorder (plug (Bin True x n y) (f # g # k))) \<or>
     settled h' n' (inorder (plug (Bin True x n y) (f # g # k))))"
proof -
  have p: "rb_parent h n = fnode f" "rb_red h (fnode f)" "rb_parent h (fnode f) = fnode g" "fnode f \<noteq> rb_sentinel h"
    using at f(1) by (cases f; cases g; simp add: at_def)+
  have "n \<notin> cnodes (f # g # k)" using at by (auto simp: at_def inorder_plug cnodes_def)
  moreover have "rb_root h \<in> cnodes (f # g # k)" using at by (intro repc_root) (simp_all add: at_def)
  ultimately have "n \<noteq> rb_root h" by blast
  then have eq: "insert_fixup n h = (case (if fnode f = rb_left h (fnode g) then insert_fix_left n h else insert_fix_right n h)
      of (n, h) \<Rightarrow> insert_fixup n h)"
    using p by (subst insert_fixup.simps) simp
  show ?thesis
  proof (cases g)
    case (In_left c m u)
    have "fnode f = rb_left h m" using at by (cases f) (simp_all add: In_left at_def)
    moreover obtain n' h' where r: "insert_fix_left n h = (n', h')" by fastforce
    ultimately have "insert_fixup n h = insert_fixup n' h'" using eq by (simp add: In_left)
    moreover have g: "g = In_left False m u" using f(2) In_left by simp
    ultimately show ?thesis
      using insert_turn_left[OF at[unfolded g] f(1) inv(1) inv(2)[unfolded g] r] unfolding g by blast
  next
    case (In_right c u m)
    have "rep h m (rb_left h m) u" "fnode f \<notin> set (inorder u)"
      using at by (cases f; simp add: In_right at_def inorder_plug)+
    then have "fnode f \<noteq> rb_left h m" using rep_root[of h m "rb_left h m" u] p(4) by auto
    moreover obtain n' h' where r: "insert_fix_right n h = (n', h')" by fastforce
    ultimately have "insert_fixup n h = insert_fixup n' h'" using eq by (simp add: In_right)
    moreover have g: "g = In_right False u m" using f(2) In_right by simp
    ultimately show ?thesis
      using insert_turn_right[OF at[unfolded g] f(1) inv(1) inv(2)[unfolded g] r] unfolding g by blast
  qed
qed

lemma insert_fixup_returns: "red_at h n m xs \<Longrightarrow> rebalanced h (insert_fixup n h) xs"
proof (induction m arbitrary: h n rule: less_induct)
  case (less m)
  obtain k x y where a: "at h (Bin True x n y) k" "ok (Bin True x n y)" "okc (bh x) k" "length k \<le> m"
    "inorder (plug (Bin True x n y) k) = xs" using less.prems by (auto simp: red_at_def)
  have ne: "xs \<noteq> []" using a(5) by (auto simp: inorder_plug)
  show ?case
  proof (cases "k = [] \<or> \<not> fred (hd k)")
    case True
    have p: "at h (plug (Bin True x n y) k) []" using a(1) at_plug by blast
    have o: "ok (plug (Bin True x n y) k)" using ok_plug[OF a(2)] a(3) True by auto
    have "n = rb_root h \<or> \<not> rb_red h (rb_parent h n)"
    proof (cases k)
      case Nil
      then show ?thesis using a(1) by (simp add: at_def rep_up del: rep.simps)
    next
      case (Cons f k')
      then have "rb_parent h n = fnode f" "\<not> fred f" using at_root[OF a(1)] True by auto
      moreover have "rb_red h (fnode f) = fred f" using a(1) Cons by (cases f) (simp_all add: at_def)
      ultimately show ?thesis by simp
    qed
    then show ?thesis by (rule insert_fixup_stops[OF p o a(5) ne])
  next
    case False
    then obtain f g k' where k: "k = f # g # k'" "fred f" "\<not> fred g"
      using a(3) by (cases k rule: before.cases; cases "tl k") auto
    obtain n' h' where t: "insert_fixup n h = insert_fixup n' h'" "keeps h h'"
      "red_at h' n' (length k') xs \<or> settled h' n' xs"
      using insert_fixup_turn[OF a(1)[unfolded k(1)] k(2,3) a(2) a(3)[unfolded k(1)]] a(5) k(1) by metis
    have "rebalanced h' (insert_fixup n' h') xs"
      using t(3)
    proof
      assume "red_at h' n' (length k') xs"
      then show ?thesis using less.IH[of "length k'"] a(4) k(1) by simp
    next
      assume "settled h' n' xs"
      then show ?thesis using ne by (auto simp: settled_def rb_ok_def intro: insert_fixup_stops)
    qed
    then show ?thesis using rebalanced_keeps[OF t(2)] t(1) by simp
  qed
qed

section \<open>The place of a new node\<close>

lemma at_exchange:
  assumes "at h t k" "agree (cnodes k) (link k x h) h'" "rb_root h' = rb_root (link k x h)"
    "rep h' (up h' k) x t'" "distinct (inorder (plug t' k))" "\<not> rb_red h' (rb_sentinel h')"
  shows "at h' t' k"
proof -
  have d: "distinct (before k @ after k)" using assms(1) by (auto simp: at_def inorder_plug)
  have s: "rb_sentinel h' = rb_sentinel h" using assms(2) by (simp add: agree_def)
  show ?thesis
    using assms(1,4,5,6) repc_link[OF _ d assms(2,3)] s by (simp add: at_def)
qed

text \<open>
  \<open>path P k k'\<close>: \<open>k'\<close> is \<open>k\<close> with frames added at the hole; \<open>P\<close> holds for the nodes where
  the way went to the left and fails for the others.
\<close>

fun went :: "(rbnode \<Rightarrow> bool) \<Rightarrow> frame list \<Rightarrow> bool" where
  "went P [] = True"
| "went P (In_left c n r # k) = (P n \<and> went P k)"
| "went P (In_right c l n # k) = (\<not> P n \<and> went P k)"

lemma insert_descend_returns:
  assumes "at h t k" "t = Bin c l m r" "went (\<lambda>x. lt (rb_key h n) (rb_key h x)) k"
  shows "\<exists>f k'. insert_descend lt h n m = Some (fnode f, \<exists>c n r. f = In_left c n r) \<and>
     plug Tip (f # k') = plug t k \<and> went (\<lambda>x. lt (rb_key h n) (rb_key h x)) (f # k')"
  using assms
proof (induction t arbitrary: c l m r k)
  case (Bin c' l' m' r')
  note eqs = Bin.prems(2)[simplified]
  have h: "rep h m (rb_left h m) l" "rep h m (rb_right h m) r" using at_root[OF Bin.prems(1)] eqs by auto
  show ?case
  proof (cases "lt (rb_key h n) (rb_key h m)")
    case True
    show ?thesis
    proof (cases l)
      case Tip
      then have "insert_descend lt h n m = Some (m, True)"
        using h True by (subst insert_descend.simps) simp
      then show ?thesis using True Bin.prems(3) eqs
        by (intro exI[of _ "In_left c m r"] exI[of _ k]) (simp add: Tip)
    next
      case l: (Bin d a x b)
      have "insert_descend lt h n m = insert_descend lt h n x"
        using h True l by (subst insert_descend.simps) simp
      then show ?thesis
        using Bin.IH(1)[of "In_left c m r # k" d a x b] Bin.prems True l eqs by (simp add: at_frame)
    qed
  next
    case False
    show ?thesis
    proof (cases r)
      case Tip
      then have "insert_descend lt h n m = Some (m, False)"
        using h False by (subst insert_descend.simps) simp
      then show ?thesis using False Bin.prems(3) eqs
        by (intro exI[of _ "In_right c l m"] exI[of _ k]) (simp add: Tip)
    next
      case r: (Bin d a x b)
      have "insert_descend lt h n m = insert_descend lt h n x"
        using h False r by (subst insert_descend.simps) simp
      then show ?thesis
        using Bin.IH(2)[of "In_right c l m # k" d a x b] Bin.prems False r eqs by (simp add: at_frame)
    qed
  qed
qed simp

lemma link_leaf:
  assumes "at h Tip (f # k)" "n \<notin> cnodes (f # k)" "n \<noteq> rb_sentinel h" "n \<noteq> 0"
  defines "s \<equiv> rb_sentinel h"
  shows "at (set_red n True (set_right n s (set_left n s (set_parent n (fnode f) (link (f # k) n h)))))
    (Bin True Tip n Tip) (f # k)"
proof (rule at_exchange[OF assms(1)])
  have "rb_root h \<in> cnodes (f # k)" using assms(1) by (intro repc_root) (simp_all add: at_def)
  show "distinct (inorder (plug (Bin True Tip n Tip) (f # k)))"
    using assms(1,2) by (auto simp: at_def inorder_plug cnodes_def)
qed (use assms in \<open>auto simp: agree_def at_def\<close>)

text \<open>The sequence that results: the new node stands before the first node with a greater key.\<close>

fun place :: "('a \<Rightarrow> bool) \<Rightarrow> 'a \<Rightarrow> 'a list \<Rightarrow> 'a list" where
  "place P n [] = [n]"
| "place P n (x # xs) = (if P x then n # x # xs else x # place P n xs)"

lemma place_append: "\<forall>x\<in>set xs. \<not> P x \<Longrightarrow> \<forall>y\<in>set ys. P y \<Longrightarrow> place P n (xs @ ys) = xs @ n # ys"
proof (induction xs)
  case Nil
  then show ?case by (cases ys) auto
qed auto

lemma went_before_after:
  assumes R: "\<And>x y. R x y \<Longrightarrow> P x \<Longrightarrow> P y"
  shows "went P k \<Longrightarrow> sorted_wrt R (before k @ after k) \<Longrightarrow>
     (\<forall>x\<in>set (before k). \<not> P x) \<and> (\<forall>x\<in>set (after k). P x)"
proof (induction k rule: before.induct)
  case (2 c n r k)
  have s: "sorted_wrt R (before k @ after k)" "\<forall>x\<in>set (inorder r). R n x"
    using 2(3) by (simp_all add: sorted_wrt_append)
  have "P n" "went P k" using 2(2) by simp_all
  moreover have "\<forall>x\<in>set (inorder r). P x" using s(2) R[OF _ \<open>P n\<close>] by blast
  ultimately show ?case using 2(1)[OF \<open>went P k\<close> s(1)] by (simp add: ball_Un)
next
  case (3 c l n k)
  have s: "sorted_wrt R (before k @ after k)" "\<forall>x\<in>set (inorder l). R x n"
    using 3(3) by (simp_all add: sorted_wrt_append)
  have "\<not> P n" "went P k" using 3(2) by simp_all
  moreover have "\<forall>x\<in>set (inorder l). \<not> P x" using s(2) R[of _ n] \<open>\<not> P n\<close> by blast
  ultimately show ?case using 3(1)[OF \<open>went P k\<close> s(1)] by (simp add: ball_Un)
qed simp

section \<open>Insertion\<close>

text \<open>\<open>rb_tree h xs\<close>: the pointers form a red-black tree whose in-order sequence is \<open>xs\<close>.\<close>

definition rb_tree :: "rbtree \<Rightarrow> rbnode list \<Rightarrow> bool" where
  "rb_tree h xs \<longleftrightarrow> (\<exists>t. at h t [] \<and> rb_ok t \<and> inorder t = xs)"

lemma insert_link_returns:
  assumes "at h t []" "rb_ok t" "t \<noteq> Tip" "n \<notin> set (inorder t)" "n \<noteq> rb_sentinel h" "n \<noteq> 0"
    "sorted_wrt (\<lambda>x y. lt (rb_key h n) (rb_key h x) \<longrightarrow> lt (rb_key h n) (rb_key h y)) (inorder t)"
  shows "\<exists>h' m. insert_link lt (rb_root h) n h = Some h' \<and>
    red_at h' n m (place (\<lambda>x. lt (rb_key h n) (rb_key h x)) n (inorder t)) \<and>
    rb_key h' = rb_key h \<and> rb_sentinel h' = rb_sentinel h"
proof -
  let ?P = "\<lambda>x. lt (rb_key h n) (rb_key h x)" and ?s = "rb_sentinel h"
  obtain c l m r where t: "t = Bin c l m r" using assms(3) by (cases t) auto
  have m: "rb_root h = m" using assms(1) by (simp add: t at_def)
  obtain f k where d: "insert_descend lt h n m = Some (fnode f, \<exists>c n r. f = In_left c n r)"
    "plug Tip (f # k) = t" "went ?P (f # k)"
    using insert_descend_returns[OF assms(1) t, of lt n] by auto
  have at: "at h Tip (f # k)" using assms(1) d(2) at_plug by metis
  have io: "inorder t = before (f # k) @ after (f # k)" using inorder_plug[of Tip "f # k"] d(2) by simp
  have nk: "n \<notin> cnodes (f # k)" using assms(4) io by (auto simp: cnodes_def)
  let ?h = "set_red n True (set_right n ?s (set_left n ?s (set_parent n (fnode f) (link (f # k) n h))))"
  have eq: "insert_link lt (rb_root h) n h = Some ?h"
    using d(1) by (cases f) (simp_all add: insert_link_def m Let_def)
  have "ok Tip \<and> okc (bh Tip) (f # k)" using plug_ok[of Tip "f # k"] assms(2) d(2) by (simp add: rb_ok_def)
  moreover have "place ?P n (inorder t) = before (f # k) @ n # after (f # k)"
    using went_before_after[OF _ d(3), of "\<lambda>x y. ?P x \<longrightarrow> ?P y"] assms(7) unfolding io by (intro place_append) blast+
  ultimately have "red_at ?h n (length (f # k)) (place ?P n (inorder t))"
    unfolding red_at_def using link_leaf[OF at nk assms(5,6)]
    by (intro exI[of _ "f # k"] exI[of _ Tip]) (simp add: inorder_plug)
  then show ?thesis using eq by auto
qed

lemma insert_returns:
  assumes "rb_tree h xs" "n \<notin> set xs" "n \<noteq> rb_sentinel h" "n \<noteq> 0"
    "sorted_wrt (\<lambda>x y. lt (rb_key h n) (rb_key h x) \<longrightarrow> lt (rb_key h n) (rb_key h y)) xs"
  shows "\<exists>h'. ngx_rbtree_insert (insert_link lt) n h = Some h' \<and>
    rb_tree h' (place (\<lambda>x. lt (rb_key h n) (rb_key h x)) n xs) \<and>
    rb_key h' = rb_key h \<and> rb_sentinel h' = rb_sentinel h"
proof -
  obtain t where t: "at h t []" "rb_ok t" "inorder t = xs" using assms(1) by (auto simp: rb_tree_def)
  show ?thesis
  proof (cases t)
    case Tip
    then have "rb_root h = rb_sentinel h" using t(1) by (simp add: at_def)
    moreover define g where "g = (set_red n False (set_right n (rb_sentinel h) (set_left n (rb_sentinel h)
      (set_parent n 0 h))))\<lparr>rb_root := n\<rparr>"
    moreover have "at g (Bin False Tip n Tip) []"
      using t(1) assms(3,4) by (simp add: g_def at_def)
    moreover have "rb_key g = rb_key h" "rb_sentinel g = rb_sentinel h" by (simp_all add: g_def)
    ultimately show ?thesis using t(3) unfolding rb_tree_def
      by (intro exI[of _ g] conjI exI[of _ "Bin False Tip n Tip"])
         (simp_all add: ngx_rbtree_insert_def Let_def rb_ok_def Tip)
  next
    case (Bin c l m r)
    then have root: "rb_root h \<noteq> rb_sentinel h" using t(1) by (simp add: at_def)
    obtain h1 i where h1: "insert_link lt (rb_root h) n h = Some h1"
      "red_at h1 n i (place (\<lambda>x. lt (rb_key h n) (rb_key h x)) n xs)"
      "rb_key h1 = rb_key h" "rb_sentinel h1 = rb_sentinel h"
      using insert_link_returns[OF t(1,2) _ _ assms(3,4)] assms(2,5) t(3) Bin by blast
    from insert_fixup_returns[OF h1(2)] show ?thesis
      using root h1 unfolding rebalanced_def rb_tree_def ngx_rbtree_insert_def
      by (auto simp: keeps_def)
  qed
qed

end
