(* ===== verification/Ngx_Rbtree_Delete.thy ===== *)
theory Ngx_Rbtree_Delete
  imports Ngx_Rbtree_Insert
begin

text \<open>
  \<open>ngx_rbtree_delete\<close> returns, takes exactly the given node out of the in-order sequence, and
  keeps the colour and height invariants of red-black trees.
\<close>

section \<open>Taking a node out\<close>

lemma before_append: "before (k @ k') = before k' @ before k"
  by (induction k rule: before.induct) simp_all

lemma after_append: "after (k @ k') = after k @ after k'"
  by (induction k rule: after.induct) simp_all

lemma at_agree:
  assumes "at h t k" "agree (set (inorder (plug t k))) h h'" "rb_root h' = rb_root h" "\<not> rb_red h' (rb_sentinel h)"
  shows "at h' t k"
proof -
  let ?t = "plug t k"
  have at: "at h ?t []" using assms(1) at_plug by blast
  have s: "rb_sentinel h' = rb_sentinel h" using assms(2) by (simp add: agree_def)
  have "rep h' (rb_parent h (rb_root h)) (rb_root h) ?t" by (rule rep_agree[OF _ assms(2)]) (use at in \<open>simp add: at_def\<close>)
  moreover have "?t = Tip \<or> rb_parent h' (rb_root h) = rb_parent h (rb_root h)"
    using rep_root[of h _ "rb_root h" ?t] at assms(2) by (auto simp: at_def agree_def)
  ultimately have "at h' ?t []" using at assms(3,4) s by (auto simp: at_def)
  then show ?thesis using at_plug by blast
qed

lemma at_sentinel: "at h t k \<Longrightarrow> rb_sentinel h \<notin> set (inorder (plug t k))"
  using rep_not_sentinel[of h _ _ "plug t k"] at_plug[of h t k] by (auto simp: at_def)

lemma at_clear_node:
  assumes "at h t k" "n \<notin> set (inorder (plug t k))"
  shows "at (clear_node n h) t k"
  by (rule at_agree[OF assms(1)]) (use assms in \<open>auto simp: clear_node_def Let_def agree_def at_def\<close>)

lemma at_sentinel_parent:
  assumes "at h t k"
  shows "at (set_parent (rb_sentinel h) p h) t k"
proof (rule at_agree[OF assms])
  have "rb_sentinel h \<notin> set (inorder (plug t k))" using assms by (rule at_sentinel)
  then show "agree (set (inorder (plug t k))) h (set_parent (rb_sentinel h) p h)" by (auto simp: agree_def)
qed (use assms in \<open>auto simp: at_def\<close>)

text \<open>\<open>only h d e n x t\<close>: the node \<open>n\<close> has at most one subtree, \<open>t\<close>, at the pointer \<open>x\<close>.\<close>

definition only :: "rbtree \<Rightarrow> ptree \<Rightarrow> ptree \<Rightarrow> rbnode \<Rightarrow> rbnode \<Rightarrow> ptree \<Rightarrow> bool" where
  "only h l r n x t \<longleftrightarrow> l = Tip \<and> t = r \<and> x = rb_right h n \<or> r = Tip \<and> t = l \<and> x = rb_left h n"

lemma unlink_at:
  assumes at: "at h (Bin d l n r) k" and k: "k \<noteq> []" and o: "only h l r n x t"
  shows "at (set_parent x (rb_parent h n) (link k x h)) t k"
    and "x \<noteq> n" "x \<notin> cnodes k" "rep h n x t"
proof -
  have h: "rep h n (rb_left h n) l" "rep h n (rb_right h n) r" "n \<noteq> rb_sentinel h" "rb_parent h n = up h k"
    using at_root[OF at] by auto
  show rep: "rep h n x t" using o h by (auto simp: only_def)
  have io: "inorder t = inorder l @ inorder r" using o by (auto simp: only_def)
  have D: "distinct (before k @ inorder l @ n # inorder r @ after k)" using at by (simp add: at_def inorder_plug)
  have x: "x \<in> set (inorder t) \<or> t = Tip \<and> x = rb_sentinel h" using rep_root[OF rep] .
  show xn: "x \<noteq> n" using x io D h(3) by auto
  have c: "repc h k" using at by (simp add: at_def)
  show xk: "x \<notin> cnodes k" using x io D repc_not_sentinel[OF c, of x] by (auto simp: cnodes_def)
  let ?h = "set_parent x (rb_parent h n) (link k x h)"
  have tk: "y \<notin> cnodes k" if "y \<in> set (inorder t)" for y using that io D by (auto simp: cnodes_def)
  show "at ?h t k"
  proof (rule at_exchange[OF at, of x])
    show "agree (cnodes k) (link k x h) ?h" using xk by (auto simp: agree_def)
    show "distinct (inorder (plug t k))" using D io by (auto simp: inorder_plug)
    have "agree (set (inorder t)) (set_parent x (up h k) h) ?h"
      using tk link_other[of _ k x h] by (auto simp: agree_def h(4))
    moreover have "up ?h k = up h k" using k by (cases k) auto
    moreover have "distinct (inorder t)" using D io by auto
    ultimately show "rep ?h (up ?h k) x t" using rep_reparent[OF rep] by simp
  qed (use at in \<open>auto simp: at_def\<close>)
qed

lemma replace_fields:
  assumes at: "at h (Bin c l n r) k" and s: "s \<notin> set (inorder (plug (Bin c l n r) k))" "s \<noteq> rb_sentinel h"
  defines "g \<equiv> set_right s (rb_right h n) (set_left s (rb_left h n) h)"
  shows "rb_left (replace n s h) = rb_left (link k s g)" "rb_right (replace n s h) = rb_right (link k s g)"
    "rb_root (replace n s h) = rb_root (link k s g)" "rb_red (replace n s h) = (rb_red h)(s := c)"
    "rb_key (replace n s h) = rb_key h" "rb_sentinel (replace n s h) = rb_sentinel h"
    "rb_parent (replace n s h) = (\<lambda>y. if y \<noteq> rb_sentinel h \<and> (y = rb_left h n \<or> y = rb_right h n) then s
          else if y = s then up h k else rb_parent h y)"
proof -
  have h: "rb_parent h n = up h k" "rb_red h n = c" using at by (simp_all add: at_def)
  have sn: "s \<noteq> n" "s \<notin> cnodes k" using s(1) by (auto simp: inorder_plug cnodes_def)
  define g' where "g' = set_red s c (set_parent s (up h k) g)"
  have "relink_left n s g' = link k s g'"
  proof (rule relink_left_link[OF at])
    assume "k \<noteq> []"
    then have "rb_parent h n \<in> cnodes k" using h(1) by (cases k rule: before.cases) auto
    then show "rb_left g' (rb_parent h n) = rb_left h (rb_parent h n)" using sn by (auto simp: g'_def g_def)
  qed (use sn in \<open>auto simp: g'_def g_def\<close>)
  moreover have "replace n s h = adopt s (relink_left n s (let h = g; h = set_parent s (rb_parent h n) h in set_red s (rb_red h n) h))"
    using sn by (simp add: replace_def Let_def g_def)
  moreover have "(let h = g; h = set_parent s (rb_parent h n) h in set_red s (rb_red h n) h) = g'"
    using sn h by (simp add: g'_def g_def)
  ultimately have r: "replace n s h = adopt s (link k s g')" by simp
  have g': "rb_left (link k s g') s = rb_left h n" "rb_right (link k s g') s = rb_right h n"
    using link_other[OF sn(2), of s g'] by (simp_all add: g'_def g_def)
  have r: "replace n s h = (let h' = link k s g';
      h' = (if rb_left h n \<noteq> rb_sentinel h then set_parent (rb_left h n) s h' else h')
      in (if rb_right h n \<noteq> rb_sentinel h then set_parent (rb_right h n) s h' else h'))"
    unfolding r adopt_def by (simp add: Let_def g') (simp add: g'_def g_def)
  show "rb_left (replace n s h) = rb_left (link k s g)" "rb_right (replace n s h) = rb_right (link k s g)"
    "rb_root (replace n s h) = rb_root (link k s g)"
    by (cases k rule: before.cases; simp add: r Let_def g'_def)+
  show "rb_red (replace n s h) = (rb_red h)(s := c)" "rb_key (replace n s h) = rb_key h"
    "rb_sentinel (replace n s h) = rb_sentinel h"
    by (simp_all add: r Let_def g'_def g_def)
  show "rb_parent (replace n s h) = (\<lambda>y. if y \<noteq> rb_sentinel h \<and> (y = rb_left h n \<or> y = rb_right h n) then s
          else if y = s then up h k else rb_parent h y)"
    by (rule ext) (auto simp: r Let_def g'_def g_def)
qed

lemma replace_at:
  assumes at: "at h (Bin c l n r) k" and s: "s \<notin> set (inorder (plug (Bin c l n r) k))" "s \<noteq> rb_sentinel h" "s \<noteq> 0"
  shows "at (replace n s h) (Bin c l s r) k"
proof -
  let ?s = "rb_sentinel h" and ?x = "rb_left h n" and ?y = "rb_right h n" and ?h = "replace n s h"
  note f = replace_fields[OF at s(1,2)]
  have h: "hole h k = n" "rep h n ?x l" "rep h n ?y r" "n \<noteq> ?s" "repc h k" "\<not> rb_red h ?s"
    using at by (simp_all add: at_def)
  have D: "distinct (before k @ inorder l @ n # inorder r @ after k)" using at by (simp add: at_def inorder_plug)
  have sn: "s \<notin> cnodes k" "s \<notin> set (inorder l)" "s \<notin> set (inorder r)"
    using s(1) by (auto simp: inorder_plug cnodes_def)
  have x: "?x \<in> set (inorder l) \<or> l = Tip \<and> ?x = ?s" using rep_root[OF h(2)] .
  have y: "?y \<in> set (inorder r) \<or> r = Tip \<and> ?y = ?s" using rep_root[OF h(3)] .
  have xy: "?x \<noteq> s" "?y \<noteq> s" "?x \<notin> cnodes k" "?y \<notin> cnodes k"
    using x y D sn s(2) repc_not_sentinel[OF h(5), of ?s] by (auto simp: cnodes_def)
  have lk: "v \<notin> cnodes k \<and> v \<noteq> ?s" if "v \<in> set (inorder l) \<or> v \<in> set (inorder r)" for v
    using that D rep_not_sentinel[OF h(2), of v] rep_not_sentinel[OF h(3), of v] by (auto simp: cnodes_def)
  have lr: "?y \<notin> set (inorder l)" "?x \<notin> set (inorder r)"
    using x y D lk by auto
  have "agree (set (inorder l)) (set_parent ?x s h) ?h"
    using lk lr sn link_other[of _ k s] by (auto simp: agree_def f)
  from rep_reparent[OF h(2) _ this] have l: "rep ?h s ?x l" using D by simp
  have "agree (set (inorder r)) (set_parent ?y s h) ?h"
    using lk lr sn link_other[of _ k s] by (auto simp: agree_def f)
  from rep_reparent[OF h(3) _ this] have r: "rep ?h s ?y r" using D by simp
  show ?thesis
  proof (rule at_exchange[OF at, of s])
    show "agree (cnodes k) (link k s h) ?h" using sn xy
      by (cases k rule: before.cases) (auto simp: agree_def f)
    show "rb_root ?h = rb_root (link k s h)" unfolding f by (cases k rule: before.cases) simp_all
    have "rb_parent ?h s = up ?h k"
      using xy by (cases k rule: before.cases) (auto simp: f)
    then show "rep ?h (up ?h k) s (Bin c l s r)"
      using l r s(2,3) link_other[OF sn(1), of s] by (simp add: f)
    show "distinct (inorder (plug (Bin c l s r) k))" using D sn by (auto simp: inorder_plug cnodes_def)
  qed (use h(6) s(2) in \<open>simp add: f\<close>)
qed

text \<open>\<open>hung h x t k\<close>: \<open>x\<close>, which may be the sentinel, is the root of the tree in the hole, and its parent is set.\<close>

definition hung :: "rbtree \<Rightarrow> rbnode \<Rightarrow> ptree \<Rightarrow> frame list \<Rightarrow> bool" where
  "hung h x t k \<longleftrightarrow> at h t k \<and> hole h k = x \<and> (k \<noteq> [] \<longrightarrow> rb_parent h x = up h k)"

lemma set_parent_hung:
  assumes "at h t (f # k)" "hole h (f # k) = x"
  shows "hung (set_parent x (fnode f) h) x t (f # k)"
proof -
  have "at (set_parent x (fnode f) h) t (f # k)"
  proof (cases t)
    case Tip
    then show ?thesis using assms at_sentinel_parent[OF assms(1)] by (simp add: at_def)
  next
    case (Bin c l n r)
    then have "rb_parent h x = fnode f" using assms by (simp add: at_def)
    then have "set_parent x (fnode f) h = h" by (simp add: set_parent_def fun_upd_idem)
    then show ?thesis using assms(1) by simp
  qed
  then show ?thesis using assms(2) by (cases f) (simp_all add: hung_def)
qed

lemma not_root: "at h (Bin d l n r) k \<Longrightarrow> k \<noteq> [] \<Longrightarrow> n \<noteq> rb_root h"
  using repc_root[of h k] by (auto simp: at_def inorder_plug cnodes_def)

lemma unlink_link:
  assumes "at h (Bin d l n r) k" "k \<noteq> []"
  shows "(if n = rb_left h (rb_parent h n) then set_left (rb_parent h n) x h
     else set_right (rb_parent h n) x h) = link k x h"
  using relink_left_link[OF assms(1), of h x] not_root[OF assms] by (simp add: relink_left_def)

lemma delete_relink_self:
  assumes "at h (Bin d l n r) k" "k \<noteq> []" "only h l r n x t"
  shows "hung (delete_relink n n x h) x t k"
proof -
  have "delete_relink n n x h = set_parent x (rb_parent h n) (link k x h)"
    using unlink_link[OF assms(1,2)] by (auto simp: delete_relink_def Let_def)
  moreover have "rb_parent h n = up h k" using at_root[OF assms(1)] by simp
  moreover have "hole (set_parent x (up h k) (link k x h)) k = x"
    by (cases k rule: before.cases) simp_all
  moreover have "up (set_parent x (up h k) (link k x h)) k = up h k" using assms(2) by (cases k) simp_all
  ultimately show ?thesis using unlink_at(1)[OF assms] by (simp add: hung_def)
qed

lemma set_parent_set [simp]:
  "set_left y v (set_parent x p h) = set_parent x p (set_left y v h)"
  "set_right y v (set_parent x p h) = set_parent x p (set_right y v h)"
  "set_red y c (set_parent x p h) = set_parent x p (set_red y c h)"
  "(set_parent x p h)\<lparr>rb_root := v\<rparr> = set_parent x p (h\<lparr>rb_root := v\<rparr>)"
  by (simp_all add: set_left_def set_right_def set_parent_def set_red_def)

lemma set_parent_swap: "x \<noteq> y \<or> p = q \<Longrightarrow> set_parent y q (set_parent x p h) = set_parent x p (set_parent y q h)"
  by (cases "x = y") (auto simp: set_parent_def fun_upd_twist)

lemma relink_left_set_parent: "x \<noteq> n \<Longrightarrow> relink_left n s (set_parent x p g) = set_parent x p (relink_left n s g)"
  by (simp add: relink_left_def)

lemma adopt_set_parent:
  assumes "x \<noteq> rb_sentinel g \<Longrightarrow> x = rb_left g s \<or> x = rb_right g s \<Longrightarrow> p = s"
  shows "adopt s (set_parent x p g) = set_parent x p (adopt s g)"
proof -
  have "set_parent (rb_left g s) s (set_parent x p h) = set_parent x p (set_parent (rb_left g s) s h)"
    if "rb_left g s \<noteq> rb_sentinel g" for h using that assms by (intro set_parent_swap) auto
  moreover have "set_parent (rb_right g s) s (set_parent x p h) = set_parent x p (set_parent (rb_right g s) s h)"
    if "rb_right g s \<noteq> rb_sentinel g" for h using that assms by (intro set_parent_swap) auto
  ultimately show ?thesis unfolding adopt_def Let_def by simp
qed

lemma replace_set_parent:
  assumes "x \<noteq> n" "x \<noteq> s" "s \<noteq> n" "n = rb_root g \<or> rb_parent g n \<noteq> s"
    "x \<noteq> rb_sentinel g \<Longrightarrow> x = rb_left g n \<or> x = rb_right g n \<Longrightarrow> p = s"
  shows "replace n s (set_parent x p g) = set_parent x p (replace n s g)"
proof -
  define G where "G = (\<lambda>g. set_red s (rb_red g n) (set_parent s (rb_parent g n) (set_right s (rb_right g n) (set_left s (rb_left g n) g))))"
  have r: "replace n s h = adopt s (relink_left n s (G h))" for h
    using assms(3) by (simp add: replace_def Let_def G_def)
  have G: "G (set_parent x p g) = set_parent x p (G g)"
    using assms(1,2) by (simp add: G_def set_parent_swap)
  have f: "rb_left (relink_left n s (G g)) s = rb_left g n" "rb_right (relink_left n s (G g)) s = rb_right g n"
    "rb_sentinel (relink_left n s (G g)) = rb_sentinel g"
    using assms(3,4) by (auto simp: relink_left_def G_def)
  show ?thesis unfolding r G relink_left_set_parent[OF assms(1)]
    by (rule adopt_set_parent) (use assms(5) f in auto)
qed

lemma min_returns:
  "at h (Bin c l m r) k \<Longrightarrow> \<exists>d s e kk. ngx_rbtree_min h m = Some s \<and> plug (Bin d Tip s e) kk = Bin c l m r \<and> before kk = []"
proof (induction l arbitrary: c m r k)
  case Tip
  then have "ngx_rbtree_min h m = Some m" by (subst ngx_rbtree_min.simps) (simp add: at_def)
  then show ?case by (intro exI[of _ c] exI[of _ m] exI[of _ r] exI[of _ "[]"]) simp
next
  case (Bin d l' m' r')
  have "rb_left h m = m'" "m' \<noteq> rb_sentinel h" using Bin.prems by (simp_all add: at_def)
  then have "ngx_rbtree_min h m = ngx_rbtree_min h m'" by (subst ngx_rbtree_min.simps) simp
  moreover obtain d' s e kk where "ngx_rbtree_min h m' = Some s" "plug (Bin d' Tip s e) kk = Bin d l' m' r'" "before kk = []"
    using Bin.IH(1)[of d m' r' "In_left c m r # k"] Bin.prems by (auto simp: at_frame)
  ultimately show ?case
    by (intro exI[of _ d'] exI[of _ s] exI[of _ e] exI[of _ "kk @ [In_left c m r]"])
       (simp add: plug_append before_append)
qed

lemma zipper: "n \<in> set (inorder t) \<Longrightarrow> \<exists>c l r k. plug (Bin c l n r) k = t"
proof (induction t)
  case (Bin d l m r)
  then consider "n = m" | "n \<in> set (inorder l)" | "n \<in> set (inorder r)" by auto
  then show ?case
  proof cases
    case 1
    then show ?thesis by (metis plug.simps(1))
  next
    case 2
    then show ?thesis using Bin.IH(1) plug_append[of _ _ "[In_left d m r]"] by (metis plug.simps(1,2))
  next
    case 3
    then show ?thesis using Bin.IH(2) plug_append[of _ _ "[In_right d l m]"] by (metis plug.simps(1,3))
  qed
qed simp

lemma plug_root: "k \<noteq> [] \<Longrightarrow> \<exists>c a m b. plug t k = Bin c a m b \<and> m \<in> cnodes k"
proof (induction t k rule: plug.induct)
  case (2 t c n r k)
  then show ?case by (cases "k = []") fastforce+
next
  case (3 t c l n k)
  then show ?case by (cases "k = []") fastforce+
qed simp

lemma delete_relink_other:
  assumes at: "at h (Bin d Tip s e) (kk @ In_right c l n # k)" and x: "x = rb_right h s"
  shows "hung (delete_relink n s x h) x e (kk @ In_right c l s # k)"
proof -
  let ?K = "kk @ In_right c l n # k" and ?p = "if rb_parent h s = n then s else rb_parent h s"
  define g where "g = set_parent x (rb_parent h s) (link ?K x h)"
  have o: "only h Tip e s x e" by (simp add: only_def x)
  note u = unlink_at[OF at _ o, simplified, folded g_def]
  have atg: "at g (Bin c l n (plug e kk)) k"
    using u(1) by (metis at_plug plug_append plug.simps(3))
  have sn: "s \<notin> set (inorder (plug (Bin c l n (plug e kk)) k))" "s \<noteq> n" "s \<noteq> rb_sentinel h" "s \<noteq> 0"
    using at by (auto simp: at_def inorder_plug before_append after_append)
  have gs: "rb_sentinel g = rb_sentinel h" by (simp add: g_def)
  have xn: "x \<noteq> n" using u(3) by (simp add: cnodes_def before_append after_append)
  have "\<exists>f K'. kk @ In_right c l s # k = f # K' \<and> fnode f = ?p"
  proof (cases kk)
    case Nil
    then show ?thesis using at by (simp add: at_def)
  next
    case (Cons f kk')
    then have "rb_parent h s = fnode f" using at by (simp add: at_def)
    moreover have "fnode f \<noteq> n" using at Cons
      by (cases f) (auto simp: at_def inorder_plug before_append after_append)
    ultimately show ?thesis using Cons by auto
  qed
  then obtain f K' where K': "kk @ In_right c l s # k = f # K'" "fnode f = ?p" by blast
  have g: "rep g n (rb_left g n) l" "rep g n (rb_right g n) (plug e kk)" using at_root[OF atg] by auto
  have D: "distinct (inorder l @ inorder (plug e kk))" using atg by (auto simp: at_def inorder_plug)
  have "?p = s" if "x \<noteq> rb_sentinel g" "x = rb_left g n \<or> x = rb_right g n"
  proof (rule ccontr)
    assume p: "?p \<noteq> s"
    have xe: "x \<in> set (inorder e)" using rep_root[OF u(4)] that(1) gs by auto
    then have "x \<notin> set (inorder l)" using D by (auto simp: inorder_plug)
    then have "x = rb_right g n" using that rep_root[OF g(1)] gs by auto
    moreover have "kk \<noteq> []" using p at by (auto simp: at_def)
    ultimately show False using plug_root[of kk e] g(2) xe D by (auto simp: inorder_plug cnodes_def)
  qed
  moreover have "n = rb_root g \<or> rb_parent g n \<noteq> s"
  proof (cases k)
    case Nil
    then show ?thesis using atg by (simp add: at_def rep_up del: rep.simps)
  next
    case (Cons f k')
    then show ?thesis using at_root[OF atg] sn(1) by (cases f) (auto simp: inorder_plug)
  qed
  ultimately have "replace n s (set_parent x ?p g) = set_parent x ?p (replace n s g)"
    using xn u(2) sn(2) by (intro replace_set_parent) auto
  moreover have "set_parent x ?p g = set_parent x ?p (link ?K x h)" by (simp add: g_def set_parent_def)
  moreover have "delete_relink n s x h = replace n s (set_parent x ?p (link ?K x h))"
    unfolding delete_relink_def using unlink_link[OF at, of x] sn(2) by (simp add: Let_def)
  ultimately have eq: "delete_relink n s x h = set_parent x (fnode f) (replace n s g)" by (simp add: K'(2))
  have "at (replace n s g) (Bin c l s (plug e kk)) k" by (rule replace_at[OF atg sn(1)]) (use sn gs in auto)
  then have "at (replace n s g) e (f # K')"
    using K'(1) at_plug plug_append plug.simps(3) by metis
  moreover from this have "hole (replace n s g) (f # K') = x"
    using u(4) replace_fields(6)[OF atg sn(1)] sn(3) gs by (cases e) (auto simp: at_def)
  ultimately show ?thesis unfolding eq K'(1) by (rule set_parent_hung)
qed

section \<open>The loop\<close>

fun blacken :: "ptree \<Rightarrow> ptree" where
  "blacken Tip = Tip"
| "blacken (Bin c l n r) = Bin False l n r"

lemma blacken_simps [simp]: "inorder (blacken t) = inorder t" "\<not> red (blacken t)"
  "\<not> red t \<Longrightarrow> blacken t = t" "red t \<Longrightarrow> bh (blacken t) = bh t + 1" "ok t \<Longrightarrow> ok (blacken t)"
  by (cases t; simp)+

lemma blacken_at:
  assumes "at h t k" "hole h k = x"
  shows "at (set_red x False h) (blacken t) k"
proof (cases t)
  case Tip
  then have "x = rb_sentinel h" using assms by (simp add: at_def)
  moreover have "at (set_red (rb_sentinel h) False h) t k"
    by (rule at_agree[OF assms(1)]) (use at_sentinel[OF assms(1)] in \<open>auto simp: agree_def\<close>)
  ultimately show ?thesis by (simp add: Tip)
next
  case (Bin c l n r)
  then have "x = n" using assms by (simp add: at_def)
  then show ?thesis using assms(1) set_red_at[of h c l n r k] by (simp add: Bin)
qed

text \<open>
  The loop invariant: the tree at \<open>x\<close> is one black node short, or its root is red and to become
  black. \<open>finished\<close>: the tree is in order and the loop ends at the root.
\<close>

definition low :: "rbtree \<Rightarrow> rbnode \<Rightarrow> nat \<Rightarrow> rbnode list \<Rightarrow> bool" where
  "low h x m xs \<longleftrightarrow> (\<exists>t k. hung h x t k \<and> ok (blacken t) \<and> okc (bh t + 1) k \<and> (red t \<or> length k \<le> m) \<and>
     inorder (plug t k) = xs)"

definition finished :: "rbtree \<Rightarrow> rbnode \<Rightarrow> rbnode list \<Rightarrow> bool" where
  "finished h x xs \<longleftrightarrow> x = rb_root h \<and> rb_tree h xs"

definition turned :: "rbtree \<Rightarrow> rbnode \<times> rbtree \<Rightarrow> nat \<Rightarrow> rbnode list \<Rightarrow> bool" where
  "turned h r m xs \<longleftrightarrow> keeps h (snd r) \<and> (low (snd r) (fst r) m xs \<or> finished (snd r) (fst r) xs)"

lemma hung_keeps:
  assumes "hung h x t (f # k)" "at h' t (f' # k')" "fnode f' = fnode f" "keeps h h'"
  shows "hung h' x t (f' # k')"
proof (cases t)
  case Tip
  then have "x = rb_sentinel h" using assms(1) by (simp add: hung_def at_def)
  then show ?thesis using assms Tip by (simp add: hung_def at_def keeps_def)
next
  case (Bin c l n r)
  then have "x = n" using assms(1) by (simp add: hung_def at_def)
  then show ?thesis using assms(2) Bin by (simp add: hung_def at_def)
qed

text \<open>The part of the turn where the sibling \<open>w\<close> is black\<close>

definition rest_left :: "rbnode \<Rightarrow> rbnode \<Rightarrow> rbtree \<Rightarrow> rbnode \<times> rbtree" where
  "rest_left temp w h =
     (if \<not> rb_red h (rb_left h w) \<and> \<not> rb_red h (rb_right h w) then
        let h = set_red w True h in (rb_parent h temp, h)
      else
        let (w, h) = (if \<not> rb_red h (rb_right h w) then
                        let h = set_red (rb_left h w) False h;
                            h = set_red w True h;
                            h = ngx_rbtree_right_rotate w h
                        in (rb_right h (rb_parent h temp), h)
                      else (w, h));
            h = set_red w (rb_red h (rb_parent h temp)) h;
            h = set_red (rb_parent h temp) False h;
            h = set_red (rb_right h w) False h;
            h = ngx_rbtree_left_rotate (rb_parent h temp) h
        in (rb_root h, h))"

lemma delete_fix_left_eq:
  "delete_fix_left temp h =
     (let w = rb_right h (rb_parent h temp);
          (w, h) = (if rb_red h w then
                      let h = set_red w False h;
                          h = set_red (rb_parent h temp) True h;
                          h = ngx_rbtree_left_rotate (rb_parent h temp) h
                      in (rb_right h (rb_parent h temp), h)
                    else (w, h))
      in rest_left temp w h)"
  by (simp only: delete_fix_left_def rest_left_def)

lemma rest_left_outer:
  assumes hung: "hung h x t (In_left c p (Bin False wl w (Bin True a y b)) # k)"
  shows "\<exists>h'. rest_left x w h = (rb_root h', h') \<and> keeps h h' \<and>
    at h' (Bin c (Bin False t p wl) w (Bin False a y b)) k"
proof -
  have at0: "at h (Bin c t p (Bin False wl w (Bin True a y b))) k" and p: "rb_parent h x = p"
    using hung by (simp_all add: hung_def at_frame)
  have f: "rb_right h w = y" "rb_red h y" "rb_red h p = c" "w \<noteq> p" using at0 by (auto simp: at_def inorder_plug)
  let ?h = "set_red y False (set_red p False (set_red w c h))"
  have eq: "rest_left x w h = (rb_root (ngx_rbtree_left_rotate p ?h), ngx_rbtree_left_rotate p ?h)"
    using f p by (simp add: rest_left_def Let_def)
  have "at (set_red p False (set_red w c h)) (Bin False t p (Bin c wl w (Bin True a y b))) k"
    by (rule set_red_at, rule set_red_sub_right, rule at0)
  then have at1: "at ?h (Bin False t p (Bin c wl w (Bin False a y b))) k"
    using set_red_at[of _ True a y b "In_right c wl w # In_right False t p # k" False] by (simp add: at_frame)
  show ?thesis using eq left_rotate_at(1)[OF at1] keeps_rotate(1)[OF at1] keeps_trans[of h ?h] by auto
qed

lemma rest_left_inner:
  assumes hung: "hung h x t (In_left c p (Bin False (Bin True a y b) w wr) # k)" and wr: "\<not> red wr"
  shows "\<exists>h'. rest_left x w h = rest_left x y h' \<and> keeps h h' \<and>
    hung h' x t (In_left c p (Bin False a y (Bin True b w wr)) # k)"
proof -
  have at0: "at h (Bin False (Bin True a y b) w wr) (In_right c t p # k)" and p: "rb_parent h x = p"
    using hung by (simp_all add: hung_def at_frame)
  have f: "rb_left h w = y" "rb_red h y" "rep h w (rb_right h w) wr" "\<not> rb_red h (rb_sentinel h)"
    using at0 by (simp_all add: at_def)
  have r: "\<not> rb_red h (rb_right h w)" using rep_red[OF f(3,4)] wr by simp
  let ?h = "set_red w True (set_red y False h)"
  define h' where "h' = ngx_rbtree_right_rotate w ?h"
  have at1: "at ?h (Bin True (Bin False a y b) w wr) (In_right c t p # k)"
    by (rule set_red_at, rule set_red_sub, rule at0)
  have at2: "at h' t (In_left c p (Bin False a y (Bin True b w wr)) # k)"
    using right_rotate_at(1)[OF at1] by (simp add: at_frame h'_def)
  have k: "keeps h h'" using keeps_rotate(2)[OF at1] keeps_trans[of h ?h] by (simp add: h'_def)
  have hung': "hung h' x t (In_left c p (Bin False a y (Bin True b w wr)) # k)"
    by (rule hung_keeps[OF hung at2 _ k]) simp
  have g: "rb_right h' p = y" "rb_right h' y = w" "rb_red h' w" "rb_parent h' x = p"
    using hung' by (simp_all add: hung_def at_def)
  have "rest_left x w h = rest_left x y h'"
    using f(1,2) r g by (simp add: rest_left_def Let_def flip: h'_def)
  then show ?thesis using k hung' by blast
qed

lemma finishedI:
  assumes "at h t k" "ok t" "okc (bh t) k" "red t \<longrightarrow> k \<noteq> [] \<and> \<not> fred (hd k)"
  shows "finished h (rb_root h) (inorder (plug t k))"
proof -
  have "rb_ok (plug t k)" using ok_plug[of t k] assms by (cases "k = []") (auto simp: rb_ok_def)
  then show ?thesis using assms(1) at_plug unfolding finished_def rb_tree_def by blast
qed

lemma rest_left_outer_turned:
  assumes hung: "hung h x t (In_left c p (Bin False wl w wr) # k)" and wr: "red wr"
    and inv: "ok t" "\<not> red t" "okc (bh t + 1) (In_left c p (Bin False wl w wr) # k)"
  shows "turned h (rest_left x w h) m (inorder (plug t (In_left c p (Bin False wl w wr) # k)))"
proof -
  obtain a y b where w: "wr = Bin True a y b" using wr by (cases wr) auto
  obtain h' where h': "rest_left x w h = (rb_root h', h')" "keeps h h'" "at h' (Bin c (Bin False t p wl) w (Bin False a y b)) k"
    using rest_left_outer[OF hung[unfolded w]] by blast
  have "finished h' (rb_root h') (inorder (plug (Bin c (Bin False t p wl) w (Bin False a y b)) k))"
    by (rule finishedI[OF h'(3)]) (use inv in \<open>auto simp: w\<close>)
  then show ?thesis using h'(1,2) by (simp add: turned_def inorder_plug w)
qed

lemma rest_left_turned:
  assumes hung: "hung h x t (In_left c p (Bin False wl w wr) # k)"
    and inv: "ok t" "\<not> red t" "okc (bh t + 1) (In_left c p (Bin False wl w wr) # k)" "c \<or> length k \<le> m"
  shows "turned h (rest_left x w h) m (inorder (plug t (In_left c p (Bin False wl w wr) # k)))"
proof -
  have at0: "at h (Bin c t p (Bin False wl w wr)) k" and p: "rb_parent h x = p"
    using hung by (simp_all add: hung_def at_frame)
  have f: "rep h w (rb_left h w) wl" "rep h w (rb_right h w) wr" "\<not> rb_red h (rb_sentinel h)"
    using at0 by (simp_all add: at_def)
  note col = rep_red[OF f(1,3)] rep_red[OF f(2,3)]
  consider "red wr" | "\<not> red wr" "red wl" | "\<not> red wr" "\<not> red wl" by blast
  then show ?thesis
  proof cases
    case 1
    then show ?thesis using rest_left_outer_turned[OF hung _ inv(1-3)] by blast
  next
    case 2
    then obtain a y b where w: "wl = Bin True a y b" by (cases wl) auto
    obtain h' where h': "rest_left x w h = rest_left x y h'" "keeps h h'"
      "hung h' x t (In_left c p (Bin False a y (Bin True b w wr)) # k)"
      using rest_left_inner[OF hung[unfolded w] 2(1)] by blast
    have "turned h' (rest_left x y h') m (inorder (plug t (In_left c p (Bin False a y (Bin True b w wr)) # k)))"
      by (rule rest_left_outer_turned[OF h'(3) _ inv(1,2)]) (use inv(3) 2(1) in \<open>auto simp: w\<close>)
    then show ?thesis using h'(1) keeps_trans[OF h'(2)] by (auto simp: turned_def w inorder_plug)
  next
    case 3
    have "rest_left x w h = (p, set_red w True h)" using 3 col p by (simp add: rest_left_def Let_def)
    moreover have "hung (set_red w True h) p (Bin c t p (Bin True wl w wr)) k"
      using set_red_sub_right[OF at0, of True] at_root[of "set_red w True h" c t p "Bin True wl w wr" k]
      by (auto simp: hung_def at_def)
    moreover have "ok (Bin False t p (Bin True wl w wr))" using inv 3 by simp
    moreover have "okc (bh (Bin c t p (Bin True wl w wr)) + 1) k" using inv(3) by (cases c) simp_all
    ultimately show ?thesis unfolding turned_def low_def using inv(4)
      by (intro conjI, simp, intro disjI1 exI[of _ "Bin c t p (Bin True wl w wr)"] exI[of _ k])
         (simp add: inorder_plug)
  qed
qed

lemma delete_turn_left:
  assumes hung: "hung h x t (In_left c p r # k)"
    and inv: "ok t" "\<not> red t" "okc (bh t + 1) (In_left c p r # k)"
  shows "turned h (delete_fix_left x h) (length k) (inorder (plug t (In_left c p r # k)))"
proof -
  have p: "rb_parent h x = p" using hung by (simp add: hung_def)
  obtain d wl w wr where r: "r = Bin d wl w wr" using inv(3) by (cases r) auto
  have w: "rb_right h p = w" "rb_red h w = d" using hung by (simp_all add: hung_def at_def r)
  show ?thesis
  proof (cases d)
    case False
    then have "delete_fix_left x h = rest_left x w h" using p w by (simp add: delete_fix_left_eq)
    then show ?thesis using rest_left_turned[of h x t c p wl w wr k "length k"] hung inv False r by simp
  next
    case True
    then have c: "\<not> c" using inv(3) r by auto
    let ?h = "set_red p True (set_red w False h)"
    have "at h (Bin c t p (Bin d wl w wr)) k" using hung by (simp add: hung_def at_frame r)
    then have at1: "at ?h (Bin True t p (Bin False wl w wr)) k"
      by (rule set_red_at[OF set_red_sub_right])
    define h' where "h' = ngx_rbtree_left_rotate p ?h"
    have at2: "at h' t (In_left True p wl # In_left False w wr # k)"
      using left_rotate_at(1)[OF at1] by (simp add: h'_def at_frame)
    have k: "keeps h h'" using keeps_rotate(1)[OF at1] keeps_trans[of h ?h] by (simp add: h'_def)
    have hung': "hung h' x t (In_left True p wl # In_left False w wr # k)"
      by (rule hung_keeps[OF hung at2 _ k]) simp
    obtain a v b where wl: "wl = Bin False a v b" using inv(3) r True by (cases wl) auto
    have g: "rb_right h' p = v" "rb_parent h' x = p" using hung' by (simp_all add: hung_def at_def wl)
    have "delete_fix_left x h = rest_left x v h'"
      using p w True g by (simp add: delete_fix_left_eq Let_def flip: h'_def)
    moreover have "turned h' (rest_left x v h') (length k) (inorder (plug t (In_left True p wl # In_left False w wr # k)))"
      unfolding wl by (rule rest_left_turned[OF hung'[unfolded wl] inv(1,2)]) (use inv(3) c True in \<open>auto simp: r wl\<close>)
    ultimately show ?thesis using keeps_trans[OF k] by (auto simp: turned_def r inorder_plug)
  qed
qed

text \<open>The second half of the loop is the mirror image of the first.\<close>

lemma hung_mirror: "hung (mirror h) x (mtree t) (map mframe k) = hung h x t k"
  by (simp add: hung_def at_mirror)

lemma blacken_mtree: "blacken (mtree t) = mtree (blacken t)"
  by (cases t) simp_all

lemma ok_mtree_iff [simp]: "ok (mtree t) = ok t"
  using ok_mtree[of t] ok_mtree[of "mtree t"] by auto

lemma bh_blacken: "ok (blacken t) \<Longrightarrow> bh (mtree t) = bh t"
  by (cases t) auto

lemma low_mirror: "low h x m xs \<Longrightarrow> low (mirror h) x m (rev xs)"
proof -
  assume "low h x m xs"
  then obtain t k where "hung h x t k" "ok (blacken t)" "okc (bh t + 1) k" "red t \<or> length k \<le> m" "inorder (plug t k) = xs"
    by (auto simp: low_def)
  then show ?thesis unfolding low_def
    by (intro exI[of _ "mtree t"] exI[of _ "map mframe k"])
       (simp add: hung_mirror blacken_mtree bh_blacken okc_mirror plug_mirror)
qed

lemma finished_mirror: "finished h x xs \<Longrightarrow> finished (mirror h) x (rev xs)"
proof -
  assume "finished h x xs"
  then obtain t where "x = rb_root h" "at h t []" "rb_ok t" "inorder t = xs" by (auto simp: finished_def rb_tree_def)
  then show ?thesis unfolding finished_def rb_tree_def using at_mirror[of h t "[]"]
    by (auto intro!: exI[of _ "mtree t"] simp: rb_ok_def)
qed

definition rest_right :: "rbnode \<Rightarrow> rbnode \<Rightarrow> rbtree \<Rightarrow> rbnode \<times> rbtree" where
  "rest_right temp w h =
     (if \<not> rb_red h (rb_left h w) \<and> \<not> rb_red h (rb_right h w) then
        let h = set_red w True h in (rb_parent h temp, h)
      else
        let (w, h) = (if \<not> rb_red h (rb_left h w) then
                        let h = set_red (rb_right h w) False h;
                            h = set_red w True h;
                            h = ngx_rbtree_left_rotate w h
                        in (rb_left h (rb_parent h temp), h)
                      else (w, h));
            h = set_red w (rb_red h (rb_parent h temp)) h;
            h = set_red (rb_parent h temp) False h;
            h = set_red (rb_left h w) False h;
            h = ngx_rbtree_right_rotate (rb_parent h temp) h
        in (rb_root h, h))"

lemma delete_fix_right_eq:
  "delete_fix_right temp h =
     (let w = rb_left h (rb_parent h temp);
          (w, h) = (if rb_red h w then
                      let h = set_red w False h;
                          h = set_red (rb_parent h temp) True h;
                          h = ngx_rbtree_right_rotate (rb_parent h temp) h
                      in (rb_left h (rb_parent h temp), h)
                    else (w, h))
      in rest_right temp w h)"
  by (simp only: delete_fix_right_def rest_right_def)

lemma rest_mirror: "rest_right n w (mirror h) = (fst (rest_left n w h), mirror (snd (rest_left n w h)))"
  by (simp add: rest_right_def rest_left_def Let_def right_rotate_mirror left_rotate_mirror flip: mirror_set(4))

lemma delete_fix_mirror:
  "delete_fix_right n (mirror h) = (fst (delete_fix_left n h), mirror (snd (delete_fix_left n h)))"
  by (simp add: delete_fix_right_eq delete_fix_left_eq Let_def rest_mirror right_rotate_mirror flip: mirror_set(4))

lemma delete_turn_right:
  assumes hung: "hung h x t (In_right c l p # k)"
    and inv: "ok t" "\<not> red t" "okc (bh t + 1) (In_right c l p # k)"
  shows "turned h (delete_fix_right x h) (length k) (inorder (plug t (In_right c l p # k)))"
proof -
  let ?K = "In_right c l p # k"
  obtain x' h' where r: "delete_fix_left x (mirror h) = (x', h')" by fastforce
  have "hung (mirror h) x (mtree t) (In_left c p (mtree l) # map mframe k)" using hung hung_mirror[of h x t ?K] by simp
  moreover have "okc (bh (mtree t) + 1) (In_left c p (mtree l) # map mframe k)"
    using okc_mirror[OF inv(3)] inv(1) by simp
  ultimately have "turned (mirror h) (x', h') (length k) (inorder (plug (mtree t) (map mframe ?K)))"
    using delete_turn_left[of "mirror h" x "mtree t" c p "mtree l" "map mframe k"] inv r by simp
  then have t: "turned (mirror h) (x', h') (length k) (rev (inorder (plug t ?K)))"
    by (simp only: plug_mirror inorder_mtree)
  have "delete_fix_right x h = (x', mirror h')" using delete_fix_mirror[of x "mirror h"] r by simp
  moreover have "keeps h (mirror h')" using t by (simp add: turned_def keeps_def)
  ultimately show ?thesis using t low_mirror[of h'] finished_mirror[of h'] by (fastforce simp: turned_def)
qed

lemma delete_fixup_stops:
  assumes "hung h x t k" "ok (blacken t)" "okc (bh t + 1) k" "red t \<or> k = []"
  shows "rebalanced h (delete_fixup x h) (inorder (plug t k))"
proof -
  have h: "at h t k" "hole h k = x" using assms(1) by (simp_all add: hung_def)
  have "rb_red h x = red t" using h rep_red[of h "up h k" x t] by (simp add: at_def)
  moreover have "k = [] \<Longrightarrow> x = rb_root h" using h(2) by auto
  ultimately have "delete_fixup x h = Some (set_red x False h)" using assms(4) by (subst delete_fixup.simps) auto
  moreover have "at (set_red x False h) (plug (blacken t) k) []" using blacken_at[OF h] at_plug by blast
  moreover have "rb_ok (plug (blacken t) k)"
    using ok_plug[OF assms(2), of k] assms(3,4) by (cases "k = []") (auto simp: rb_ok_def)
  ultimately show ?thesis unfolding rebalanced_def
    by (intro exI[of _ "set_red x False h"] exI[of _ "plug (blacken t) k"]) (simp add: inorder_plug)
qed

lemma delete_fixup_turn:
  assumes hung: "hung h x t (f # k)" and inv: "ok t" "\<not> red t" "okc (bh t + 1) (f # k)"
  shows "\<exists>r. delete_fixup x h = delete_fixup (fst r) (snd r) \<and> turned h r (length k) (inorder (plug t (f # k)))"
proof -
  have h: "at h t (f # k)" "hole h (f # k) = x" "rb_parent h x = fnode f" using hung by (simp_all add: hung_def)
  have rep: "rep h (fnode f) x t" using h(1,2) by (simp add: at_def)
  have red: "\<not> rb_red h x" using rep_red[OF rep] h(1) inv(2) by (simp add: at_def)
  have xk: "x \<notin> cnodes (f # k)"
    using rep_root[OF rep] h(1) repc_not_sentinel[of h "f # k" x] by (auto simp: at_def inorder_plug cnodes_def)
  moreover have "rb_root h \<in> cnodes (f # k)" using h(1) by (intro repc_root) (simp_all add: at_def)
  ultimately have "x \<noteq> rb_root h" by blast
  then have eq: "delete_fixup x h = (case (if x = rb_left h (fnode f) then delete_fix_left x h else delete_fix_right x h)
      of (x, h) \<Rightarrow> delete_fixup x h)"
    using h(3) red by (subst delete_fixup.simps) simp
  show ?thesis
  proof (cases f)
    case (In_left c p r)
    then have "x = rb_left h (fnode f)" using h(2) by simp
    then have "delete_fixup x h = delete_fixup (fst (delete_fix_left x h)) (snd (delete_fix_left x h))"
      using eq by (simp add: case_prod_beta)
    then show ?thesis using delete_turn_left[of h x t c p r k] hung inv unfolding In_left by blast
  next
    case (In_right c l p)
    have "rep h p (rb_left h p) l" "l \<noteq> Tip" using h(1) inv(3) by (auto simp: In_right at_def)
    then have "rb_left h p \<in> set (inorder l)" using rep_root by blast
    then have "x \<noteq> rb_left h (fnode f)" using xk by (auto simp: In_right)
    then have "delete_fixup x h = delete_fixup (fst (delete_fix_right x h)) (snd (delete_fix_right x h))"
      using eq by (simp add: case_prod_beta)
    then show ?thesis using delete_turn_right[of h x t c l p k] hung inv unfolding In_right by blast
  qed
qed

lemma delete_fixup_returns: "low h x m xs \<Longrightarrow> rebalanced h (delete_fixup x h) xs"
proof (induction m arbitrary: h x rule: less_induct)
  case (less m)
  obtain t k where a: "hung h x t k" "ok (blacken t)" "okc (bh t + 1) k" "red t \<or> length k \<le> m" "inorder (plug t k) = xs"
    using less.prems by (auto simp: low_def)
  show ?case
  proof (cases "red t \<or> k = []")
    case True
    then show ?thesis using delete_fixup_stops[OF a(1-3)] a(5) by simp
  next
    case False
    then obtain f k' where k: "k = f # k'" by (cases k) auto
    have "ok t" "\<not> red t" using a(2) False by auto
    then obtain x' h' where r: "delete_fixup x h = delete_fixup x' h'" "keeps h h'"
      "low h' x' (length k') xs \<or> finished h' x' xs"
      using delete_fixup_turn[of h x t f k'] a(1,3,5) k by (auto simp: turned_def)
    have "rebalanced h' (delete_fixup x' h') xs"
      using r(3)
    proof
      assume "low h' x' (length k') xs"
      then show ?thesis using less.IH[of "length k'"] a(4) k False by simp
    next
      assume "finished h' x' xs"
      then obtain t' where t': "x' = rb_root h'" "at h' t' []" "rb_ok t'" "inorder t' = xs" by (auto simp: finished_def rb_tree_def)
      then have "hung h' x' t' []" by (simp add: hung_def)
      from delete_fixup_stops[OF this] show ?thesis using t' by (simp add: rb_ok_def)
    qed
    then show ?thesis using rebalanced_keeps[OF r(2)] r(1) by simp
  qed
qed

section \<open>Deletion\<close>

lemma delete_relink_keeps [simp]:
  "rb_key (delete_relink n s x h) = rb_key h" "rb_sentinel (delete_relink n s x h) = rb_sentinel h"
proof -
  have a: "rb_key (adopt s h) = rb_key h" "rb_sentinel (adopt s h) = rb_sentinel h" for s h
    by (simp_all add: adopt_def Let_def)
  have l: "rb_key (relink_left n s h) = rb_key h" "rb_sentinel (relink_left n s h) = rb_sentinel h" for s h
    by (simp_all add: relink_left_def)
  have r: "rb_key (replace n s h) = rb_key h" "rb_sentinel (replace n s h) = rb_sentinel h" for s h
    by (simp_all add: replace_def Let_def a l)
  show "rb_key (delete_relink n s x h) = rb_key h" "rb_sentinel (delete_relink n s x h) = rb_sentinel h"
    by (simp_all add: delete_relink_def Let_def r)
qed

lemma clear_node_simps [simp]:
  "rb_key (clear_node n h) = (rb_key h)(n := 0)" "rb_sentinel (clear_node n h) = rb_sentinel h"
  "rb_root (clear_node n h) = rb_root h" "rb_red (clear_node n h) = rb_red h"
  "rb_parent (clear_node n h) = (rb_parent h)(n := 0)" "rb_left (clear_node n h) = (rb_left h)(n := 0)"
  "rb_right (clear_node n h) = (rb_right h)(n := 0)"
  by (simp_all add: clear_node_def Let_def)

lemma clear_node_hung:
  assumes "hung h x t k" "n \<notin> set (inorder (plug t k))" "n \<noteq> rb_sentinel h" "k \<noteq> []"
  shows "hung (clear_node n h) x t k"
proof -
  have at: "at h t k" "hole h k = x" "rb_parent h x = up h k" using assms by (simp_all add: hung_def)
  have "x \<noteq> n" using at rep_root[of h "up h k" x t] assms(2,3) by (auto simp: at_def inorder_plug)
  moreover have "hole (clear_node n h) k = x" "up (clear_node n h) k = up h k"
    using at(2) assms(2,4) by (cases k rule: before.cases; auto simp: inorder_plug)+
  ultimately show ?thesis using at_clear_node[OF at(1) assms(2)] at(3) by (simp add: hung_def)
qed

definition deleted :: "rbnode \<Rightarrow> rbtree \<Rightarrow> rbtree option \<Rightarrow> rbnode list \<Rightarrow> bool" where
  "deleted n h r xs \<longleftrightarrow> (\<exists>h'. r = Some h' \<and> rb_tree h' xs \<and> rb_key h' = (rb_key h)(n := 0) \<and> rb_sentinel h' = rb_sentinel h)"

lemma delete_finish:
  assumes "hung h x t k" "k \<noteq> []" "n \<notin> set (inorder (plug t k))" "n \<noteq> rb_sentinel h"
    and "ok t" "okc (bh t + (if c then 0 else 1)) k" "c \<longrightarrow> \<not> red t"
  shows "deleted n h (if c then Some (clear_node n h) else delete_fixup x (clear_node n h)) (inorder (plug t k))"
proof -
  have hung: "hung (clear_node n h) x t k" using clear_node_hung[OF assms(1,3,4,2)] .
  show ?thesis
  proof (cases c)
    case True
    have "at (clear_node n h) (plug t k) []" using hung at_plug by (simp add: hung_def)
    moreover have "rb_ok (plug t k)" using ok_plug[of t k] assms(2,5,6,7) True by (auto simp: rb_ok_def)
    ultimately show ?thesis using True unfolding deleted_def rb_tree_def by auto
  next
    case False
    have "low (clear_node n h) x (length k) (inorder (plug t k))"
      unfolding low_def using hung assms(5,6) False by (intro exI[of _ t] exI[of _ k]) simp
    then have "rebalanced (clear_node n h) (delete_fixup x (clear_node n h)) (inorder (plug t k))" by (rule delete_fixup_returns)
    then show ?thesis using False by (auto simp: rebalanced_def deleted_def rb_tree_def keeps_def)
  qed
qed

lemma delete_root:
  assumes at: "at h (Bin c l n r) []" and "ok (Bin c l n r)" and o: "only h l r n x t"
  shows "deleted n h (Some (clear_node n (set_red x False (h\<lparr>rb_root := x\<rparr>)))) (inorder t)"
proof -
  let ?h = "h\<lparr>rb_root := x\<rparr>"
  have h: "rep h n (rb_left h n) l" "rep h n (rb_right h n) r" "n \<noteq> rb_sentinel h" using at_root[OF at] by auto
  have rep: "rep h n x t" using o h by (auto simp: only_def)
  have io: "inorder t = inorder l @ inorder r" "ok t" using o assms(2) by (auto simp: only_def)
  have D: "distinct (inorder t)" "n \<notin> set (inorder t)" using at io by (auto simp: at_def)
  have "rep ?h n x t" by (rule rep_agree[OF rep]) (simp add: agree_def)
  then have "rep ?h (rb_parent ?h x) x t" by (cases t) auto
  then have "at ?h t []" using at D(1) by (simp add: at_def)
  then have "at (set_red x False ?h) (blacken t) []" by (rule blacken_at) simp
  then have "at (clear_node n (set_red x False ?h)) (blacken t) []" by (rule at_clear_node) (use D(2) in simp)
  moreover have "rb_ok (blacken t)" using io(2) by (simp add: rb_ok_def)
  ultimately show ?thesis unfolding deleted_def rb_tree_def
    by (intro exI[of _ "clear_node n (set_red x False ?h)"] conjI exI[of _ "blacken t"]) simp_all
qed

lemma delete_one_child:
  assumes at: "at h (Bin c l n r) k" and inv: "ok (Bin c l n r)" "okc (bh (Bin c l n r)) k"
    and o: "only h l r n x t" and ch: "delete_choose n h = Some (n, x)"
  shows "deleted n h (ngx_rbtree_delete n h) (inorder (plug t k))"
proof (cases "k = []")
  case True
  have "rb_root h = n" using at True by (simp add: at_def)
  then have "ngx_rbtree_delete n h = Some (clear_node n (set_red x False (h\<lparr>rb_root := x\<rparr>)))"
    using ch by (simp add: ngx_rbtree_delete_def)
  then show ?thesis using delete_root[of h c l n r x t] at inv(1) o True by simp
next
  case False
  have io: "inorder t = inorder l @ inorder r" using o by (auto simp: only_def)
  have n: "n \<notin> set (inorder (plug t k))" "n \<noteq> rb_sentinel (delete_relink n n x h)" "rb_red h n = c"
    using at at_root[OF at] io by (auto simp: at_def inorder_plug)
  have t: "ok t" "okc (bh t + (if c then 0 else 1)) k" "c \<longrightarrow> \<not> red t"
    using inv o by (auto simp: only_def)
  have "ngx_rbtree_delete n h = (if c then Some (clear_node n (delete_relink n n x h))
     else delete_fixup x (clear_node n (delete_relink n n x h)))"
    using ch not_root[OF at False] n(3) by (simp add: ngx_rbtree_delete_def Let_def)
  then show ?thesis using delete_finish[OF delete_relink_self[OF at False o] False n(1,2) t] by (simp add: deleted_def)
qed

lemma okc_node: "okc b (kk @ In_right c l n # k) = okc b (kk @ In_right c l s # k)"
proof (induction b kk rule: okc.induct)
  case (2 b c' n' r' kk)
  then show ?case by (cases kk) auto
next
  case (3 b c' l' n' kk)
  then show ?case by (cases kk) auto
qed simp

lemma delete_two_children:
  assumes at: "at h (Bin d Tip s e) (kk @ In_right c l n # k)"
    and inv: "ok (Bin d Tip s e)" "okc (bh (Bin d Tip s e)) (kk @ In_right c l n # k)"
    and ch: "delete_choose n h = Some (s, x)" and x: "x = rb_right h s"
  shows "deleted n h (ngx_rbtree_delete n h) (inorder (plug e (kk @ In_right c l s # k)))"
proof -
  let ?K = "kk @ In_right c l s # k"
  have n: "n \<notin> set (inorder (plug e ?K))" "n \<noteq> rb_sentinel (delete_relink n s x h)" "rb_red h s = d"
    using at at_root[OF at] repc_not_sentinel[of h "kk @ In_right c l n # k" n]
    by (auto simp: at_def inorder_plug before_append after_append cnodes_def)
  have t: "ok e" "okc (bh e + (if d then 0 else 1)) ?K" "d \<longrightarrow> \<not> red e"
    using inv okc_node[of _ kk c l n k s] by auto
  have "ngx_rbtree_delete n h = (if d then Some (clear_node n (delete_relink n s x h))
     else delete_fixup x (clear_node n (delete_relink n s x h)))"
    using ch not_root[OF at] n(3) by (simp add: ngx_rbtree_delete_def Let_def)
  then show ?thesis using delete_finish[OF delete_relink_other[OF at x] _ n(1,2) t] by (simp add: deleted_def)
qed

lemma delete_returns:
  assumes "rb_tree h xs" "n \<in> set xs"
  shows "deleted n h (ngx_rbtree_delete n h) (remove1 n xs)"
proof -
  obtain t where t: "at h t []" "rb_ok t" "inorder t = xs" using assms(1) by (auto simp: rb_tree_def)
  obtain c l r k where z: "plug (Bin c l n r) k = t" using zipper assms(2) t(3) by blast
  have at: "at h (Bin c l n r) k" using t(1) z at_plug by blast
  have ok: "ok (Bin c l n r)" "okc (bh (Bin c l n r)) k" using plug_ok[of "Bin c l n r" k] t(2) z by (auto simp: rb_ok_def)
  have n: "n \<notin> set (before k @ inorder l)" using at by (auto simp: at_def inorder_plug)
  have xs: "remove1 n xs = before k @ inorder l @ inorder r @ after k"
    using n t(3) z by (auto simp: inorder_plug remove1_append)
  have h: "rep h n (rb_left h n) l" "rep h n (rb_right h n) r" using at_root[OF at] by auto
  have ch: "l = Tip \<longleftrightarrow> rb_left h n = rb_sentinel h" "r = Tip \<longleftrightarrow> rb_right h n = rb_sentinel h"
    using h by (cases l; cases r; simp)+
  consider "l = Tip" | "l \<noteq> Tip" "r = Tip" | "l \<noteq> Tip" "r \<noteq> Tip" by blast
  then show ?thesis
  proof cases
    case 1
    have "deleted n h (ngx_rbtree_delete n h) (inorder (plug r k))"
      by (rule delete_one_child[OF at ok, of "rb_right h n"]) (use 1 ch in \<open>simp_all add: only_def delete_choose_def\<close>)
    then show ?thesis using 1 xs by (simp add: inorder_plug)
  next
    case 2
    have "deleted n h (ngx_rbtree_delete n h) (inorder (plug l k))"
      by (rule delete_one_child[OF at ok, of "rb_left h n"]) (use 2 ch in \<open>simp_all add: only_def delete_choose_def\<close>)
    then show ?thesis using 2 xs by (simp add: inorder_plug)
  next
    case 3
    then obtain b u m v where r: "r = Bin b u m v" by (cases r) auto
    then have m: "rb_right h n = m" using h(2) by simp
    have "at h (Bin b u m v) (In_right c l n # k)" using at r by (simp add: at_frame)
    from min_returns[OF this] obtain d s e kk where s: "ngx_rbtree_min h m = Some s" "plug (Bin d Tip s e) kk = r" "before kk = []"
      using r by auto
    have at': "at h (Bin d Tip s e) (kk @ In_right c l n # k)"
      using t(1) z s(2) at_plug plug_append plug.simps(3) by metis
    have ok': "ok (Bin d Tip s e)" "okc (bh (Bin d Tip s e)) (kk @ In_right c l n # k)"
      using plug_ok[of "Bin d Tip s e" "kk @ In_right c l n # k"] t(2) z s(2) by (auto simp: rb_ok_def plug_append)
    have "rb_left h s = rb_sentinel h" using at_root[OF at'] by simp
    then have "delete_choose n h = Some (s, rb_right h s)" using 3 ch s(1) m by (simp add: delete_choose_def)
    moreover have "inorder r = s # inorder e @ after kk" unfolding s(2)[symmetric] by (simp add: inorder_plug s(3))
    ultimately show ?thesis
      using delete_two_children[OF at' ok' _ refl] xs by (simp add: inorder_plug before_append after_append s(3))
  qed
qed

end
