(* ===== verification/Ngx_Rbtree_Props.thy ===== *)
theory Ngx_Rbtree_Props
  imports Ngx_Rbtree_Delete
begin

text \<open>What the red-black tree of \<open>src/nginx/src/core/ngx_rbtree.c\<close> promises to its users.\<close>

section \<open>The height\<close>

fun blacks :: "frame list \<Rightarrow> nat" where
  "blacks [] = 0"
| "blacks (f # k) = (if fred f then 0 else 1) + blacks k"

lemma bh_size: "ok t \<Longrightarrow> 2 ^ bh t \<le> length (inorder t) + 1"
  by (induction t) auto

lemma bh_plug: "okc (bh t) k \<Longrightarrow> bh (plug t k) = bh t + blacks k"
  by (induction t k rule: plug.induct) auto

lemma length_blacks: "okc b k \<Longrightarrow> length k + (if k \<noteq> [] \<and> \<not> fred (hd k) then 1 else 0) \<le> 2 * blacks k"
proof (induction b k rule: okc.induct)
  case (2 b c n r k)
  then show ?case by (cases k) (auto split: if_splits)
next
  case (3 b c l n k)
  then show ?case by (cases k) (auto split: if_splits)
qed simp

lemma parent_path: "repc h k \<Longrightarrow> (rb_parent h ^^ length k) (hole h k) = rb_root h \<or> k \<noteq> [] \<and> rb_parent h (hole h k) \<noteq> up h k"
proof (induction k)
  case (Cons f k)
  then have "repc h k" "hole h k = fnode f" "k \<noteq> [] \<Longrightarrow> rb_parent h (fnode f) = up h k" by (cases f; simp)+
  then show ?case using Cons.IH by (cases "k = []") (auto simp: funpow_swap1)
qed simp

lemma rb_tree_balanced:
  assumes "rb_tree h xs" "x \<in> set xs"
  shows "\<exists>i. (rb_parent h ^^ i) x = rb_root h \<and> 2 ^ i \<le> (length xs + 1) ^ 2"
proof -
  obtain t where t: "at h t []" "rb_ok t" "inorder t = xs" using assms(1) by (auto simp: rb_tree_def)
  obtain c l r k where z: "plug (Bin c l x r) k = t" using zipper assms(2) t(3) by blast
  have at: "at h (Bin c l x r) k" using t(1) z at_plug by blast
  have ok: "okc (bh (Bin c l x r)) k" using plug_ok[of "Bin c l x r" k] t(2) z by (auto simp: rb_ok_def)
  have "length k \<le> 2 * bh t" using length_blacks[OF ok] bh_plug[OF ok] z by auto
  then have "2 ^ length k \<le> ((2::nat) ^ bh t) ^ 2" by (metis one_le_numeral power_increasing power_mult mult.commute)
  also have "\<dots> \<le> (length xs + 1) ^ 2" using bh_size[of t] t(2,3) by (intro power_mono) (auto simp: rb_ok_def)
  finally have "2 ^ length k \<le> (length xs + 1) ^ 2" .
  moreover have "(rb_parent h ^^ length k) x = rb_root h"
    using parent_path[of h k] at by (auto simp: at_def)
  ultimately show ?thesis by blast
qed

section \<open>Ordered trees\<close>

lemma place_sorted:
  "sorted (map f xs) \<Longrightarrow> sorted (map f (place (\<lambda>x. f n < f x) n xs))"
proof (induction xs)
  case (Cons x xs)
  have "set (place P n xs) = insert n (set xs)" for P by (induction P n xs rule: place.induct) auto
  then show ?case using Cons by auto
qed simp

text \<open>
  (C14) \<open>ngx_rbtree_insert\<close> with \<open>ngx_rbtree_insert_value\<close> returns for every red-black tree with ascending
  keys and every node outside it. The result is a red-black tree with ascending keys in which the
  node stands behind the nodes with keys up to its own, and no key has changed.
\<close>

theorem rbtree_insert_value:
  assumes "rb_tree h xs" "sorted (map (rb_key h) xs)" "n \<notin> set xs" "n \<noteq> rb_sentinel h" "n \<noteq> 0"
  shows "\<exists>h'. ngx_rbtree_insert ngx_rbtree_insert_value n h = Some h' \<and> rb_key h' = rb_key h \<and>
    rb_tree h' (takeWhile (\<lambda>x. rb_key h x \<le> rb_key h n) xs @ n # dropWhile (\<lambda>x. rb_key h x \<le> rb_key h n) xs) \<and>
    sorted (map (rb_key h') (takeWhile (\<lambda>x. rb_key h x \<le> rb_key h n) xs @ n # dropWhile (\<lambda>x. rb_key h x \<le> rb_key h n) xs))"
proof -
  have p: "place (\<lambda>x. rb_key h n < rb_key h x) n xs =
    takeWhile (\<lambda>x. rb_key h x \<le> rb_key h n) xs @ n # dropWhile (\<lambda>x. rb_key h x \<le> rb_key h n) xs"
    by (induction xs) (auto simp: not_less)
  have "sorted_wrt (\<lambda>x y. rb_key h n < rb_key h x \<longrightarrow> rb_key h n < rb_key h y) xs"
    using assms(2) unfolding sorted_map by (rule sorted_wrt_mono_rel[rotated]) auto
  then show ?thesis
    using insert_returns[OF assms(1,3-5), of "(<)"] place_sorted[OF assms(2), of n]
    unfolding ngx_rbtree_insert_value_def p by auto
qed

text \<open>
  (C15) \<open>ngx_rbtree_delete\<close> returns for every node of a red-black tree; the result is a red-black tree
  with the other nodes in the same order, whose keys have not changed.
\<close>

theorem rbtree_delete:
  assumes "rb_tree h xs" "n \<in> set xs"
  shows "\<exists>h'. ngx_rbtree_delete n h = Some h' \<and> rb_tree h' (remove1 n xs) \<and> rb_key h' = (rb_key h)(n := 0)"
  using delete_returns[OF assms] by (auto simp: deleted_def)

section \<open>Every tree that the operations make\<close>

text \<open>
  The trees with the set \<open>N\<close> of nodes that the operations make out of \<open>ngx_rbtree_init\<close>: a node outside
  the tree gets a key and is inserted, and a node of the tree is deleted.
\<close>

inductive rb_reach :: "rbtree \<Rightarrow> rbnode set \<Rightarrow> bool" where
  init: "s \<noteq> 0 \<Longrightarrow> rb_reach (ngx_rbtree_init s h) {}"
| ins: "rb_reach h N \<Longrightarrow> n \<notin> N \<Longrightarrow> n \<noteq> rb_sentinel h \<Longrightarrow> n \<noteq> 0 \<Longrightarrow>
    ngx_rbtree_insert ngx_rbtree_insert_value n (set_key n k h) = Some h' \<Longrightarrow> rb_reach h' (insert n N)"
| del: "rb_reach h N \<Longrightarrow> n \<in> N \<Longrightarrow> ngx_rbtree_delete n h = Some h' \<Longrightarrow> rb_reach h' (N - {n})"

lemma insert_value_returns:
  assumes "rb_tree h xs" "sorted (map (rb_key h) xs)" "n \<notin> set xs" "n \<noteq> rb_sentinel h" "n \<noteq> 0"
  shows "\<exists>h' xs'. ngx_rbtree_insert ngx_rbtree_insert_value n h = Some h' \<and> rb_key h' = rb_key h \<and> rb_sentinel h' = rb_sentinel h \<and>
    rb_tree h' xs' \<and> set xs' = insert n (set xs) \<and> length xs' = Suc (length xs) \<and> sorted (map (rb_key h') xs')"
proof -
  have "sorted_wrt (\<lambda>x y. rb_key h n < rb_key h x \<longrightarrow> rb_key h n < rb_key h y) xs"
    using assms(2) unfolding sorted_map by (rule sorted_wrt_mono_rel[rotated]) auto
  moreover have "set (place P n xs) = insert n (set xs)" "length (place P n xs) = Suc (length xs)" for P
    by (induction P n xs rule: place.induct) auto
  ultimately show ?thesis
    using insert_returns[OF assms(1,3-5), of "(<)"] place_sorted[OF assms(2), of n]
    unfolding ngx_rbtree_insert_value_def by metis
qed

lemma rb_tree_key [simp]: "rb_tree (set_key n k h) xs = rb_tree h xs"
proof -
  have "rep (set_key n k h) p x t = rep h p x t" for p x t
    by (induction h p x t rule: rep.induct) (simp_all add: set_key_def)
  then show ?thesis by (simp add: rb_tree_def at_def)
qed

lemma insert_key_returns:
  assumes "rb_tree h xs" "sorted (map (rb_key h) xs)" "n \<notin> set xs" "n \<noteq> rb_sentinel h" "n \<noteq> 0"
  shows "\<exists>h' xs'. ngx_rbtree_insert ngx_rbtree_insert_value n (set_key n k h) = Some h' \<and> rb_sentinel h' = rb_sentinel h \<and>
    rb_tree h' xs' \<and> set xs' = insert n (set xs) \<and> sorted (map (rb_key h') xs')"
proof -
  have "map (rb_key (set_key n k h)) xs = map (rb_key h) xs" using assms(3) by (auto simp: set_key_def)
  moreover have "rb_sentinel (set_key n k h) = rb_sentinel h" by (simp add: set_key_def)
  ultimately show ?thesis using insert_value_returns[of "set_key n k h" xs n] assms by auto
qed

lemma rb_tree_init: "s \<noteq> 0 \<Longrightarrow> rb_tree (ngx_rbtree_init s h) []"
  by (auto simp: rb_tree_def ngx_rbtree_init_def at_def rb_ok_def intro!: exI[of _ Tip])

lemma rb_tree_distinct: "rb_tree h xs \<Longrightarrow> distinct xs"
  by (auto simp: rb_tree_def at_def)

lemma rb_reach_tree:
  "rb_reach h N \<Longrightarrow> \<exists>xs. rb_tree h xs \<and> set xs = N \<and> sorted (map (rb_key h) xs)"
proof (induction rule: rb_reach.induct)
  case (init s h)
  then show ?case using rb_tree_init[of s h] by (intro exI[of _ "[]"]) simp
next
  case (ins h N n k h')
  then obtain xs where xs: "rb_tree h xs" "set xs = N" "sorted (map (rb_key h) xs)" by blast
  have "n \<notin> set xs" using xs(2) ins.hyps(2) by simp
  from insert_key_returns[OF xs(1,3) this ins.hyps(3,4), of k] xs(2) ins.hyps(5) show ?case by auto
next
  case (del h N n h')
  then obtain xs where xs: "rb_tree h xs" "set xs = N" "sorted (map (rb_key h) xs)" by blast
  have d: "rb_tree h' (remove1 n xs)" "rb_key h' = (rb_key h)(n := 0)"
    using delete_returns[OF xs(1), of n] xs(2) del.hyps(2,3) by (auto simp: deleted_def)
  have "map (rb_key h') (remove1 n xs) = map (rb_key h) (remove1 n xs)"
    using rb_tree_distinct[OF xs(1)] by (auto simp: d(2))
  moreover have "sorted (map (rb_key h) (remove1 n xs))" using xs(3) by (rule sorted_map_remove1)
  moreover have "set (remove1 n xs) = N - {n}" using rb_tree_distinct[OF xs(1)] xs(2) by (simp add: set_remove1_eq)
  ultimately show ?case using d(1) by metis
qed

text \<open>
  (C18) The tree stays balanced: whatever nodes with whatever keys are inserted with \<open>ngx_rbtree_insert_value\<close> and
  deleted after \<open>ngx_rbtree_init\<close>, from every node at most \<open>2 * log2 (n + 1)\<close> parent links lead to the root of the
  tree, where \<open>n\<close> is the number of its nodes.
\<close>

theorem rbtree_balanced:
  assumes "rb_reach h N" "x \<in> N"
  shows "\<exists>i. (rb_parent h ^^ i) x = rb_root h \<and> 2 ^ i \<le> (card N + 1) ^ 2"
proof -
  obtain xs where xs: "rb_tree h xs" "set xs = N" using rb_reach_tree[OF assms(1)] by blast
  have "length xs = card N" using distinct_card[OF rb_tree_distinct[OF xs(1)]] xs(2) by simp
  then show ?thesis using rb_tree_balanced[OF xs(1), of x] assms(2) xs(2) by simp
qed

section \<open>Witnesses\<close>

definition two_nodes :: rbtree where
  "two_nodes = \<lparr>rb_key = (\<lambda>_. 0)(2 := 500, 3 := 700, 4 := 600), rb_left = (\<lambda>_. 0)(2 := 1, 3 := 1),
     rb_right = (\<lambda>_. 0)(2 := 3, 3 := 1), rb_parent = (\<lambda>_. 0)(3 := 2), rb_red = (\<lambda>_. False)(3 := True),
     rb_root = 2, rb_sentinel = 1\<rparr>"

lemma two_nodes_tree: "rb_tree two_nodes [2, 3]"
proof -
  have "at two_nodes (Bin False Tip 2 (Bin True Tip 3 Tip)) []" by (simp add: at_def two_nodes_def)
  then show ?thesis
    unfolding rb_tree_def by (intro exI[of _ "Bin False Tip 2 (Bin True Tip 3 Tip)"]) (simp add: rb_ok_def)
qed

theorem rbtree_balanced_witness:
  "\<exists>h. rb_reach h {2, 3} \<and> (\<exists>i. (rb_parent h ^^ i) 3 = rb_root h \<and> (2::nat) ^ i \<le> 3 ^ 2)"
proof -
  have ins: "\<exists>h'. rb_reach h' (insert n N) \<and> rb_sentinel h' = rb_sentinel h"
    if r: "rb_reach h N" "n \<notin> N" "n \<noteq> rb_sentinel h" "n \<noteq> 0" for h N n
  proof -
    obtain xs where xs: "rb_tree h xs" "set xs = N" "sorted (map (rb_key h) xs)" using rb_reach_tree[OF r(1)] by blast
    then obtain h' where "ngx_rbtree_insert ngx_rbtree_insert_value n (set_key n 700 h) = Some h'" "rb_sentinel h' = rb_sentinel h"
      using insert_key_returns[OF xs(1,3), of n 700] r by blast
    then show ?thesis using rb_reach.ins[OF r] by blast
  qed
  have "rb_reach (ngx_rbtree_init 1 two_nodes) {}" by (rule rb_reach.init) simp
  moreover have "rb_sentinel (ngx_rbtree_init 1 two_nodes) = 1" by (simp add: ngx_rbtree_init_def)
  ultimately obtain h1 where "rb_reach h1 {2}" "rb_sentinel h1 = 1" using ins[of _ "{}" 2] by fastforce
  then obtain h2 where r: "rb_reach h2 {2, 3}" using ins[of h1 "{2}" 3] by (auto simp: insert_commute)
  have "card {2, 3 :: rbnode} + 1 = 3" by simp
  then show ?thesis using rbtree_balanced[OF r, of 3] r by (metis insertI1 insertI2)
qed

theorem rbtree_insert_value_witness:
  "\<exists>h'. ngx_rbtree_insert ngx_rbtree_insert_value 4 two_nodes = Some h' \<and> rb_tree h' [2, 4, 3]"
  using rbtree_insert_value[OF two_nodes_tree, of 4] by (auto simp: two_nodes_def)

theorem rbtree_delete_witness:
  "\<exists>h'. ngx_rbtree_delete 2 two_nodes = Some h' \<and> rb_tree h' [3]"
  using rbtree_delete[OF two_nodes_tree, of 2] by auto

end
