(* ===== verification/Ngx_Timer_Tree.thy ===== *)
theory Ngx_Timer_Tree
  imports Ngx_Rbtree_Delete Ngxe_Samples
begin

text \<open>
  The timers of \<open>src/nginx/src/event/ngx_event_timer.[ch]\<close> on the red-black tree. The model of the
  engine keeps the timers as a list in the order of their keys; here the same operations run on
  the pointers of \<open>ngx_rbtree.c\<close>, and a simulation shows that the list is what they implement.
  \<open>timer_store\<close> is the contract of a store of timers; the red-black tree is an instance.
\<close>

section \<open>The order of the clock\<close>

text \<open>
  The comparison by the sign of the difference is an order as long as all keys lie within half
  of the range of the clock.
\<close>

definition window :: "msec \<Rightarrow> msec set \<Rightarrow> bool" where
  "window b K \<longleftrightarrow> (\<forall>k\<in>K. unat (k - b) < 2 ^ 63)"

lemma sint_diff:
  fixes a b c :: msec
  assumes "unat (a - c) < 2 ^ 63" "unat (b - c) < 2 ^ 63"
  shows "sint (a - b) = int (unat (a - c)) - int (unat (b - c))"
proof -
  define i where "i = int (unat (a - c)) - int (unat (b - c))"
  have "int (unat (a - c)) < 2 ^ 63" "int (unat (b - c)) < 2 ^ 63"
    using assms by (simp_all only: of_nat_less_numeral_power_cancel_iff)
  then have i: "- (2 ^ 63) \<le> i" "i < 2 ^ 63" unfolding i_def by linarith+
  have "a - b = (a - c) - (b - c)" by simp
  also have "\<dots> = word_of_int i" by (simp add: i_def)
  finally show ?thesis unfolding i_def[symmetric] using sint_word_of_int[OF i] by simp
qed

lemma key_less_window:
  assumes "window b K" "k \<in> K" "l \<in> K"
  shows "key_less k l \<longleftrightarrow> unat (k - b) < unat (l - b)"
proof -
  have "sint (k - l) = int (unat (k - b)) - int (unat (l - b))"
    using assms by (intro sint_diff) (auto simp: window_def)
  then show ?thesis unfolding key_less_def by linarith
qed

lemma key_less_trans:
  assumes "window b K" "k \<in> K" "l \<in> K" "m \<in> K" "key_less k l" "\<not> key_less m l"
  shows "key_less k m"
  using assms by (simp add: key_less_window[OF assms(1)])

lemma key_less_asym: "window b K \<Longrightarrow> k \<in> K \<Longrightarrow> l \<in> K \<Longrightarrow> key_less k l \<Longrightarrow> \<not> key_less l k"
  by (simp add: key_less_window)

definition key_sorted :: "msec list \<Rightarrow> bool" where
  "key_sorted = sorted_wrt (\<lambda>k l. \<not> key_less l k)"

lemma timer_insert_sorted:
  "window b (insert k (snd ` set ts)) \<Longrightarrow> key_sorted (map snd ts) \<Longrightarrow> key_sorted (map snd (timer_insert e k ts))"
proof (induction e k ts rule: timer_insert.induct)
  case (2 e k f l ts)
  have w: "window b (insert k (snd ` set ts))" using 2(2) by (simp add: window_def)
  have s: "key_sorted (map snd ts)" "\<forall>x\<in>set ts. \<not> key_less (snd x) l" using 2(3) by (simp_all add: key_sorted_def)
  show ?case
  proof (cases "key_less k l")
    case True
    have "\<not> key_less (snd x) k" if "x \<in> set ts" for x
      using key_less_trans[OF 2(2), of k l "snd x"] key_less_asym[OF 2(2), of k "snd x"] True s(2) that by auto
    moreover have "\<not> key_less l k" using key_less_asym[OF 2(2), of k l] True by simp
    ultimately show ?thesis using True 2(3) by (simp add: key_sorted_def)
  next
    case False
    have "\<forall>x\<in>set (timer_insert e k ts). \<not> key_less (snd x) l" using s(2) False by (simp add: set_timer_insert)
    then show ?thesis using 2(1)[OF False w s(1)] False by (simp add: key_sorted_def)
  qed
qed (simp add: key_sorted_def)

section \<open>The contract of a store of timers\<close>

datatype timer_op = Add_op evref msec | Del_op evref

fun list_op :: "timer_op \<Rightarrow> (evref \<times> msec) list \<Rightarrow> (evref \<times> msec) list" where
  "list_op (Add_op e k) ts = timer_insert e k ts"
| "list_op (Del_op e) ts = timer_delete e ts"

text \<open>A timer is added only when it is not in the store and taken out only when it is.\<close>

fun op_ok :: "msec \<Rightarrow> timer_op \<Rightarrow> (evref \<times> msec) list \<Rightarrow> bool" where
  "op_ok b (Add_op e k) ts \<longleftrightarrow> e \<notin> fst ` set ts \<and> unat (k - b) < 2 ^ 63"
| "op_ok b (Del_op e) ts \<longleftrightarrow> e \<in> fst ` set ts"

fun ops_ok :: "msec \<Rightarrow> timer_op list \<Rightarrow> (evref \<times> msec) list \<Rightarrow> bool" where
  "ops_ok b [] ts \<longleftrightarrow> True"
| "ops_ok b (p # ps) ts \<longleftrightarrow> op_ok b p ts \<and> ops_ok b ps (list_op p ts)"

fun store_op ::
  "(evref \<Rightarrow> msec \<Rightarrow> 'q \<Rightarrow> 'q option) \<Rightarrow> (evref \<Rightarrow> 'q \<Rightarrow> 'q option) \<Rightarrow> timer_op \<Rightarrow> 'q \<Rightarrow> 'q option" where
  "store_op ins del (Add_op e k) q = ins e k q"
| "store_op ins del (Del_op e) q = del e q"

fun store_ops ::
  "(evref \<Rightarrow> msec \<Rightarrow> 'q \<Rightarrow> 'q option) \<Rightarrow> (evref \<Rightarrow> 'q \<Rightarrow> 'q option) \<Rightarrow> timer_op list \<Rightarrow> 'q \<Rightarrow> 'q option" where
  "store_ops ins del [] q = Some q"
| "store_ops ins del (p # ps) q = Option.bind (store_op ins del p q) (store_ops ins del ps)"

text \<open>Taking the least timer out \<open>n\<close> times\<close>

fun store_drain ::
  "(evref \<Rightarrow> 'q \<Rightarrow> 'q option) \<Rightarrow> ('q \<Rightarrow> evref option) \<Rightarrow> nat \<Rightarrow> 'q \<Rightarrow> evref list option" where
  "store_drain del least 0 q = Some []"
| "store_drain del least (Suc n) q =
     Option.bind (least q) (\<lambda>e. Option.bind (del e q) (\<lambda>q. map_option (Cons e) (store_drain del least n q)))"

locale timer_store =
  fixes view :: "msec \<Rightarrow> 'q \<Rightarrow> (evref \<times> msec) list \<Rightarrow> bool"
    and ins :: "evref \<Rightarrow> msec \<Rightarrow> 'q \<Rightarrow> 'q option"
    and del :: "evref \<Rightarrow> 'q \<Rightarrow> 'q option"
    and least :: "'q \<Rightarrow> evref option"
  assumes view_distinct: "view b q ts \<Longrightarrow> distinct (map fst ts)"
    and ins_view: "view b q ts \<Longrightarrow> e \<notin> fst ` set ts \<Longrightarrow> unat (k - b) < 2 ^ 63 \<Longrightarrow>
      \<exists>q'. ins e k q = Some q' \<and> view b q' (timer_insert e k ts)"
    and del_view: "view b q ts \<Longrightarrow> e \<in> fst ` set ts \<Longrightarrow> \<exists>q'. del e q = Some q' \<and> view b q' (timer_delete e ts)"
    and least_view: "view b q (t # ts) \<Longrightarrow> least q = Some (fst t)"
begin

lemma op_view: "view b q ts \<Longrightarrow> op_ok b p ts \<Longrightarrow> \<exists>q'. store_op ins del p q = Some q' \<and> view b q' (list_op p ts)"
  by (cases p) (auto intro: ins_view del_view)

lemma ops_view: "view b q ts \<Longrightarrow> ops_ok b ps ts \<Longrightarrow>
   \<exists>q'. store_ops ins del ps q = Some q' \<and> view b q' (fold list_op ps ts)"
proof (induction ps arbitrary: q ts)
  case (Cons p ps)
  then obtain q' where "store_op ins del p q = Some q'" "view b q' (list_op p ts)" using op_view by fastforce
  then show ?case using Cons.IH Cons.prems(2) by simp
qed simp

lemma drain_view: "view b q ts \<Longrightarrow> store_drain del least (length ts) q = Some (map fst ts)"
proof (induction ts arbitrary: q)
  case (Cons t ts)
  have l: "least q = Some (fst t)" using least_view[OF Cons.prems] .
  obtain q' where q': "del (fst t) q = Some q'" "view b q' (timer_delete (fst t) (t # ts))"
    using del_view[OF Cons.prems, of "fst t"] by auto
  have "fst t \<notin> fst ` set ts" using view_distinct[OF Cons.prems] by simp
  then have "filter (\<lambda>x. fst x \<noteq> fst t) ts = ts" by (intro filter_True) (metis image_eqI)
  then have "timer_delete (fst t) (t # ts) = ts" by (simp add: timer_delete_def)
  then show ?case using Cons.IH[of q'] q' l by simp
qed simp

end

section \<open>The red-black tree\<close>

text \<open>The address of \<open>ev->timer\<close>; the sentinel has the address 1.\<close>

fun ev_node :: "evref \<Rightarrow> rbnode" where
  "ev_node (Read_ev c) = 2 * c + 2"
| "ev_node (Write_ev c) = 2 * c + 3"

definition node_ev :: "rbnode \<Rightarrow> evref" where
  "node_ev n = (if even n then Read_ev ((n - 2) div 2) else Write_ev ((n - 3) div 2))"

lemma node_ev_node [simp]: "node_ev (ev_node e) = e"
  by (cases e) (simp_all add: node_ev_def)

lemma ev_node_inj [simp]: "ev_node e = ev_node f \<longleftrightarrow> e = f"
  by (metis node_ev_node)

lemma ev_node_pos [simp]: "ev_node e \<noteq> 0" "ev_node e \<noteq> Suc 0"
  by (cases e; simp)+

definition tree_insert :: "evref \<Rightarrow> msec \<Rightarrow> rbtree \<Rightarrow> rbtree option" where
  "tree_insert e key h =
     ngx_rbtree_insert ngx_rbtree_insert_timer_value (ev_node e) (set_key (ev_node e) key h)"

definition tree_delete :: "evref \<Rightarrow> rbtree \<Rightarrow> rbtree option" where
  "tree_delete e h = ngx_rbtree_delete (ev_node e) h"

definition tree_least :: "rbtree \<Rightarrow> evref option" where
  "tree_least h = map_option node_ev (ngx_rbtree_min h (rb_root h))"

definition tree_view :: "msec \<Rightarrow> rbtree \<Rightarrow> (evref \<times> msec) list \<Rightarrow> bool" where
  "tree_view b h ts \<longleftrightarrow> rb_tree h (map (ev_node \<circ> fst) ts) \<and> rb_sentinel h = 1 \<and>
     (\<forall>t\<in>set ts. rb_key h (ev_node (fst t)) = snd t) \<and> key_sorted (map snd ts) \<and> window b (snd ` set ts)"

lemma tree_view_distinct: "tree_view b h ts \<Longrightarrow> distinct (map fst ts)"
proof -
  assume "tree_view b h ts"
  then have "distinct (map (ev_node \<circ> fst) ts)" by (auto simp: tree_view_def rb_tree_def at_def)
  then show ?thesis by (metis distinct_map list.map_comp)
qed

lemma rb_tree_agree: "rb_tree h xs \<Longrightarrow> rb_left h' = rb_left h \<Longrightarrow> rb_right h' = rb_right h \<Longrightarrow> rb_parent h' = rb_parent h \<Longrightarrow>
  rb_red h' = rb_red h \<Longrightarrow> rb_root h' = rb_root h \<Longrightarrow> rb_sentinel h' = rb_sentinel h \<Longrightarrow> rb_tree h' xs"
  unfolding rb_tree_def using at_agree[of h _ "[]" h'] by (auto simp: agree_def at_def)

lemma place_timer_insert:
  assumes "\<forall>t\<in>set ts. rb_key h (ev_node (fst t)) = snd t"
  shows "place (\<lambda>x. key_less k (rb_key h x)) (ev_node e) (map (ev_node \<circ> fst) ts) = map (ev_node \<circ> fst) (timer_insert e k ts)"
  using assms by (induction e k ts rule: timer_insert.induct) auto

lemma tree_insert_view:
  assumes v: "tree_view b h ts" and e: "e \<notin> fst ` set ts" and k: "unat (k - b) < 2 ^ 63"
  shows "\<exists>h'. tree_insert e k h = Some h' \<and> tree_view b h' (timer_insert e k ts) \<and>
    rb_key h' = (rb_key h)(ev_node e := k)"
proof -
  let ?h = "set_key (ev_node e) k h" and ?xs = "map (ev_node \<circ> fst) ts"
  have h: "rb_tree h ?xs" "rb_sentinel h = 1" "\<forall>t\<in>set ts. rb_key h (ev_node (fst t)) = snd t"
    "key_sorted (map snd ts)" "window b (snd ` set ts)" using v by (simp_all add: tree_view_def)
  have t: "rb_tree ?h ?xs" by (rule rb_tree_agree[OF h(1)]) simp_all
  have keys: "\<forall>t\<in>set ts. rb_key ?h (ev_node (fst t)) = snd t" using h(3) e by force
  have w: "window b (insert k (snd ` set ts))" using h(5) k by (simp add: window_def)
  have "sorted_wrt (\<lambda>x y. key_less k (rb_key ?h x) \<longrightarrow> key_less k (rb_key ?h y)) ?xs"
  proof -
    have "sorted_wrt (\<lambda>s t. \<not> key_less (snd t) (snd s)) ts" using h(4) by (simp add: key_sorted_def sorted_wrt_map)
    moreover have "key_less k (rb_key ?h ((ev_node \<circ> fst) s)) \<longrightarrow> key_less k (rb_key ?h ((ev_node \<circ> fst) t))"
      if "s \<in> set ts" "t \<in> set ts" "\<not> key_less (snd t) (snd s)" for s t
      using key_less_trans[OF w, of k "snd s" "snd t"] that keys by auto
    ultimately show ?thesis unfolding sorted_wrt_map by (rule sorted_wrt_mono_rel[rotated])
  qed
  moreover have "ev_node e \<notin> set ?xs" using e by force
  moreover have "ngx_rbtree_insert_timer_value = insert_link key_less"
    by (simp add: ngx_rbtree_insert_timer_value_def key_less_def[abs_def])
  ultimately obtain h' where h': "tree_insert e k h = Some h'" "rb_tree h' (place (\<lambda>x. key_less k (rb_key ?h x)) (ev_node e) ?xs)"
    "rb_key h' = rb_key ?h" "rb_sentinel h' = 1"
    using insert_returns[OF t, of "ev_node e" key_less] h(2) by (auto simp: tree_insert_def)
  have "tree_view b h' (timer_insert e k ts)"
    unfolding tree_view_def using h' keys w timer_insert_sorted[OF w h(4)] place_timer_insert[OF keys, of k e]
    by (auto simp: set_timer_insert)
  then show ?thesis using h'(1,3) by simp
qed

lemma tree_delete_view:
  assumes v: "tree_view b h ts" and e: "e \<in> fst ` set ts"
  shows "\<exists>h'. tree_delete e h = Some h' \<and> tree_view b h' (timer_delete e ts) \<and>
    rb_key h' = (rb_key h)(ev_node e := 0)"
proof -
  let ?xs = "map (ev_node \<circ> fst) ts"
  have h: "rb_tree h ?xs" "rb_sentinel h = 1" "\<forall>t\<in>set ts. rb_key h (ev_node (fst t)) = snd t"
    "key_sorted (map snd ts)" "window b (snd ` set ts)" using v by (simp_all add: tree_view_def)
  have d: "distinct ?xs" using h(1) by (auto simp: rb_tree_def at_def)
  have "ev_node e \<in> set ?xs" using e by auto
  then obtain h' where h': "tree_delete e h = Some h'" "rb_tree h' (remove1 (ev_node e) ?xs)"
    "rb_key h' = (rb_key h)(ev_node e := 0)" "rb_sentinel h' = 1"
    using delete_returns[OF h(1)] h(2) by (auto simp: deleted_def tree_delete_def)
  have "remove1 (ev_node e) ?xs = map (ev_node \<circ> fst) (timer_delete e ts)"
    using d by (simp add: distinct_remove1_removeAll removeAll_filter_not_eq filter_map timer_delete_def comp_def eq_commute)
  then have "tree_view b h' (timer_delete e ts)"
    unfolding tree_view_def using h' h(3-5)
    by (auto simp: timer_delete_def window_def key_sorted_def sorted_wrt_map intro: sorted_wrt_filter)
  then show ?thesis using h'(1,3) by simp
qed

lemma tree_min_view:
  assumes "tree_view b h (t # ts)"
  shows "rb_root h \<noteq> rb_sentinel h" "ngx_rbtree_min h (rb_root h) = Some (ev_node (fst t))"
proof -
  obtain s where s: "at h s []" "inorder s = ev_node (fst t) # map (ev_node \<circ> fst) ts"
    using assms by (auto simp: tree_view_def rb_tree_def)
  then obtain c l m r where m: "s = Bin c l m r" by (cases s) auto
  have root: "rb_root h = m" "m \<noteq> rb_sentinel h" using s(1) m by (simp_all add: at_def)
  obtain d n e kk where n: "ngx_rbtree_min h m = Some n" "plug (Bin d Tip n e) kk = s" "before kk = []"
    using min_returns[of h c l m r "[]"] s(1) m by auto
  moreover have "n = ev_node (fst t)" using s(2) inorder_plug[of "Bin d Tip n e" kk] n(2,3) by simp
  ultimately show "rb_root h \<noteq> rb_sentinel h" "ngx_rbtree_min h (rb_root h) = Some (ev_node (fst t))"
    using root by simp_all
qed

lemma tree_least_view: "tree_view b h (t # ts) \<Longrightarrow> tree_least h = Some (fst t)"
  by (simp add: tree_least_def tree_min_view)

interpretation timer_tree: timer_store tree_view tree_insert tree_delete tree_least
proof unfold_locales
  show "\<exists>h'. tree_insert e k h = Some h' \<and> tree_view b h' (timer_insert e k ts)"
    if "tree_view b h ts" "e \<notin> fst ` set ts" "unat (k - b) < 2 ^ 63" for b h ts e k
    using tree_insert_view[OF that] by blast
  show "\<exists>h'. tree_delete e h = Some h' \<and> tree_view b h' (timer_delete e ts)"
    if "tree_view b h ts" "e \<in> fst ` set ts" for b h ts e
    using tree_delete_view[OF that] by blast
qed (auto intro: tree_view_distinct tree_least_view)

section \<open>The operations of ngx\_event\_timer on the tree\<close>

text \<open>
  \<open>ngx_event_add_timer\<close>, \<open>ngx_event_del_timer\<close> and \<open>ngx_event_find_timer\<close>, with the clock and the flag
  \<open>timer_set\<close> of the event as arguments.
\<close>

definition tree_del_timer :: "evref \<Rightarrow> rbtree \<Rightarrow> rbtree option" where
  "tree_del_timer = tree_delete"

definition tree_add_timer :: "msec \<Rightarrow> bool \<Rightarrow> evref \<Rightarrow> msec \<Rightarrow> rbtree \<Rightarrow> rbtree option" where
  "tree_add_timer now timer_set e timer h =
     (let key = now + timer in
      if timer_set then
        (if sint (ngx_abs (key - rb_key h (ev_node e))) < NGX_TIMER_LAZY_DELAY then Some h
         else Option.bind (tree_del_timer e h) (tree_insert e key))
      else tree_insert e key h)"

definition tree_find_timer :: "msec \<Rightarrow> rbtree \<Rightarrow> msec option" where
  "tree_find_timer now h =
     (if rb_root h = rb_sentinel h then Some NGX_TIMER_INFINITE
      else Option.bind (ngx_rbtree_min h (rb_root h)) (\<lambda>node.
             let timer = sint (rb_key h node - now) in Some (if 0 < timer then word_of_int timer else 0)))"

text \<open>The tree holds the timers of the world.\<close>

definition timers_in_tree :: "msec \<Rightarrow> ('k, 'm) world \<Rightarrow> rbtree \<Rightarrow> bool" where
  "timers_in_tree b w h \<longleftrightarrow> tree_view b h (timers w) \<and> (\<forall>e. rb_key h (ev_node e) = ev_timer_key (get_ev e w))"

lemma get_upd_ev [simp]:
  "get_ev e (upd_ev f g w) = (if e = f then g (get_ev e w) else get_ev e w)"
  "timers (upd_ev f g w) = timers w" "current_msec (upd_ev f g w) = current_msec w"
  "get_ev e (w\<lparr>timers := ts\<rparr>) = get_ev e w"
  by (cases e; cases f; simp add: upd_conn_def)+

lemma timer_delete_absent: "e \<notin> fst ` set (timer_delete e ts)"
  by (auto simp: timer_delete_def)

lemma add_timer_sim:
  assumes "timers_in_tree b w h" "e \<notin> fst ` set (timers w)" "unat (k - b) < 2 ^ 63"
  shows "\<exists>h'. tree_insert e k h = Some h' \<and> timers_in_tree b
    (upd_ev e (\<lambda>x. x\<lparr>ev_timer_key := k, ev_timer_set := True\<rparr>) (w\<lparr>timers := timer_insert e k (timers w)\<rparr>)) h'"
  using tree_insert_view[OF _ assms(2,3), of h] assms(1) by (force simp: timers_in_tree_def)

lemma del_timer_sim:
  assumes "timers_in_tree b w h" "e \<in> fst ` set (timers w)"
  shows "\<exists>h'. tree_delete e h = Some h' \<and> timers_in_tree b
    (upd_ev e (\<lambda>x. x\<lparr>ev_timer_key := 0, ev_timer_set := False\<rparr>) (w\<lparr>timers := timer_delete e (timers w)\<rparr>)) h'"
  using tree_delete_view[OF _ assms(2), of b h] assms(1) by (force simp: timers_in_tree_def)

lemma init_view: "s = Suc 0 \<Longrightarrow> tree_view b (ngx_rbtree_init s h) []"
  by (auto simp: tree_view_def rb_tree_def ngx_rbtree_init_def at_def rb_ok_def key_sorted_def window_def
      intro!: exI[of _ Tip])

section \<open>Properties\<close>

text \<open>
  (C13) Setting a timer on the red-black tree of \<open>ngx_rbtree.c\<close> implements setting it in the list of
  timers: the insertion (after the deletion of a timer that is set already) returns, and the tree
  still holds exactly the timers of the list, in order and with their keys, as long as all keys
  lie within half of the range of the clock.
\<close>

theorem add_timer_refines:
  assumes "timers_in_tree b w h" "ev_timer_set (get_ev e w) \<longleftrightarrow> e \<in> fst ` set (timers w)"
    "unat (current_msec w + timer - b) < 2 ^ 63"
  shows "\<exists>w' h'. ngx_event_add_timer e timer w = Inr w' \<and>
    tree_add_timer (current_msec w) (ev_timer_set (get_ev e w)) e timer h = Some h' \<and> timers_in_tree b w' h'"
proof (cases "ev_timer_set (get_ev e w)")
  case False
  then show ?thesis using add_timer_sim[OF assms(1) _ assms(3)] assms(2)
    by (simp add: ngx_event_add_timer_def tree_add_timer_def Let_def)
next
  case True
  have key: "rb_key h (ev_node e) = ev_timer_key (get_ev e w)" using assms(1) by (simp add: timers_in_tree_def)
  show ?thesis
  proof (cases "sint (ngx_abs (current_msec w + timer - ev_timer_key (get_ev e w))) < NGX_TIMER_LAZY_DELAY")
    case lazy: True
    then show ?thesis using True key assms(1) by (simp add: ngx_event_add_timer_def tree_add_timer_def Let_def)
  next
    case late: False
    define w1 where "w1 = upd_ev e (\<lambda>x. x\<lparr>ev_timer_key := 0, ev_timer_set := False\<rparr>) (w\<lparr>timers := timer_delete e (timers w)\<rparr>)"
    obtain h1 where h1: "tree_delete e h = Some h1" "timers_in_tree b w1 h1"
      using del_timer_sim[OF assms(1)] True assms(2) by (auto simp: w1_def)
    have "e \<notin> fst ` set (timers w1)" by (simp add: w1_def timer_delete_absent)
    note h2 = add_timer_sim[OF h1(2) this assms(3)]
    have "ngx_event_del_timer e w = Inr w1" using True assms(2) by (simp add: ngx_event_del_timer_def w1_def)
    then show ?thesis using True late key h1(1) h2
      by (simp add: ngx_event_add_timer_def tree_add_timer_def tree_del_timer_def Let_def)
  qed
qed

text \<open>
  (C17) Expiring the first timer on the red-black tree: the least node of the tree is the event at the
  head of the list, \<open>ngx_event_find_timer\<close> gives the same delay for both, and deleting the node returns
  and leaves a tree that holds the remaining timers.
\<close>

theorem expire_first_refines:
  assumes "timers_in_tree b w h" "timers w = (e, k) # ts"
  shows "tree_find_timer (current_msec w) h = Some (ngx_event_find_timer w) \<and> tree_least h = Some e \<and>
    (\<exists>h'. tree_delete e h = Some h' \<and> timers_in_tree b (expire_first e w) h')"
proof -
  have v1: "tree_view b h ((e, k) # ts)" using assms by (simp add: timers_in_tree_def)
  then have "rb_key h (ev_node e) = k" by (simp add: tree_view_def)
  note v = v1 this
  have "tree_find_timer (current_msec w) h = Some (ngx_event_find_timer w)"
    using tree_min_view[OF v(1)] v(2) assms(2)
    by (simp add: tree_find_timer_def ngx_event_find_timer_def Let_def)
  moreover have "\<exists>h'. tree_delete e h = Some h' \<and> timers_in_tree b (expire_first e w) h'"
    using tree_delete_view[OF v1, of e] assms by (force simp: timers_in_tree_def expire_first_def)
  ultimately show ?thesis using tree_least_view[OF v(1)] by simp
qed

text \<open>
  (C16) Any sequence of insertions and deletions that starts with an empty tree returns, and taking the
  least timer out again and again then gives the events of the list of timers in its order, the order
  of the keys.
\<close>

theorem timer_tree_run:
  assumes "ops_ok b ps []"
  shows "\<exists>h'. store_ops tree_insert tree_delete ps (ngx_rbtree_init 1 h) = Some h' \<and>
    tree_view b h' (fold list_op ps []) \<and>
    store_drain tree_delete tree_least (length (fold list_op ps [])) h' = Some (map fst (fold list_op ps [])) \<and>
    key_sorted (map snd (fold list_op ps []))"
proof -
  obtain h' where h': "store_ops tree_insert tree_delete ps (ngx_rbtree_init 1 h) = Some h'" "tree_view b h' (fold list_op ps [])"
    using timer_tree.ops_view[OF init_view assms, of 1] by auto
  then show ?thesis using timer_tree.drain_view[OF h'(2)] by (auto simp: tree_view_def)
qed

section \<open>Witnesses\<close>

text \<open>Two timers: a read timer at 500 and a write timer at 700\<close>

definition sample_tree :: rbtree where
  "sample_tree = \<lparr>rb_key = (\<lambda>_. 0)(2 := 500, 3 := 700), rb_left = (\<lambda>_. 0)(2 := 1, 3 := 1),
     rb_right = (\<lambda>_. 0)(2 := 3, 3 := 1), rb_parent = (\<lambda>_. 0)(3 := 2), rb_red = (\<lambda>_. False)(3 := True),
     rb_root = 2, rb_sentinel = 1\<rparr>"

definition sample_timers :: "(replay, addr) world" where
  "sample_timers = upd_ev (Read_ev 0) (\<lambda>x. x\<lparr>ev_timer_key := 500, ev_timer_set := True\<rparr>)
     (upd_ev (Write_ev 0) (\<lambda>x. x\<lparr>ev_timer_key := 700, ev_timer_set := True\<rparr>)
       (blank_world\<lparr>timers := [(Read_ev 0, 500), (Write_ev 0, 700)]\<rparr>))"

lemma get_ev_blank: "ev_timer_key (get_ev e blank_world) = 0"
  by (cases e) (simp_all add: blank_world_def blank_connection_def zero_event_def)

lemma ev_node_eq: "ev_node e = 2 \<longleftrightarrow> e = Read_ev 0" "ev_node e = 3 \<longleftrightarrow> e = Write_ev 0"
  by (cases e; simp; presburger)+

lemma sample_timers_in_tree: "timers_in_tree 0 sample_timers sample_tree"
proof -
  have "at sample_tree (Bin False Tip 2 (Bin True Tip 3 Tip)) []" by (simp add: at_def sample_tree_def)
  then have "rb_tree sample_tree [2, 3]"
    unfolding rb_tree_def by (intro exI[of _ "Bin False Tip 2 (Bin True Tip 3 Tip)"]) (simp add: rb_ok_def)
  moreover have "key_sorted [500, 700]" by (simp add: key_sorted_def key_less_def)
  moreover have "map (ev_node \<circ> fst) [(Read_ev 0, 500::msec), (Write_ev 0, 700)] = [2, 3]" by (simp add: numeral_2_eq_2)
  moreover have "window 0 {500, 700}" by (simp add: window_def)
  moreover have "rb_sentinel sample_tree = 1" "rb_key sample_tree (ev_node (Read_ev 0)) = 500"
    "rb_key sample_tree (ev_node (Write_ev 0)) = 700"
    by (simp_all add: sample_tree_def ev_node_eq del: ev_node.simps)
  ultimately have "tree_view 0 sample_tree [(Read_ev 0, 500), (Write_ev 0, 700)]"
    unfolding tree_view_def by (auto simp del: ev_node.simps)
  then show ?thesis
    by (auto simp: timers_in_tree_def sample_timers_def get_ev_blank sample_tree_def ev_node_eq
        simp del: upd_ev.simps get_ev.simps ev_node.simps)
qed

theorem add_timer_refines_witness:
  "timers_in_tree 0 sample_timers sample_tree \<and>
   (\<exists>w' h'. ngx_event_add_timer (Read_ev 0) 5000 sample_timers = Inr w' \<and>
     tree_add_timer (current_msec sample_timers) (ev_timer_set (get_ev (Read_ev 0) sample_timers)) (Read_ev 0) 5000
       sample_tree = Some h' \<and> timers_in_tree 0 w' h')"
proof -
  have "ev_timer_set (get_ev (Read_ev 0) sample_timers) \<longleftrightarrow> Read_ev 0 \<in> fst ` set (timers sample_timers)"
    "unat (current_msec sample_timers + 5000 - 0) < 2 ^ 63"
    by (simp_all add: sample_timers_def blank_world_def upd_conn_def)
  from add_timer_refines[OF sample_timers_in_tree this] show ?thesis using sample_timers_in_tree by simp
qed

theorem expire_first_refines_witness:
  "timers sample_timers = [(Read_ev 0, 500), (Write_ev 0, 700)] \<and> tree_least sample_tree = Some (Read_ev 0) \<and>
   (\<exists>h'. tree_delete (Read_ev 0) sample_tree = Some h' \<and> timers_in_tree 0 (expire_first (Read_ev 0) sample_timers) h')"
proof -
  have t: "timers sample_timers = [(Read_ev 0, 500), (Write_ev 0, 700)]" by (simp add: sample_timers_def upd_conn_def)
  show ?thesis using expire_first_refines[OF sample_timers_in_tree t] t by simp
qed

theorem timer_tree_run_witness:
  "\<exists>h'. store_ops tree_insert tree_delete [Add_op (Read_ev 0) 500, Add_op (Write_ev 0) 300, Add_op (Read_ev 7) 400,
      Del_op (Read_ev 0)] (ngx_rbtree_init 1 sample_tree) = Some h' \<and>
    store_drain tree_delete tree_least 2 h' = Some [Write_ev 0, Read_ev 7]"
proof -
  let ?ps = "[Add_op (Read_ev 0) 500, Add_op (Write_ev 0) 300, Add_op (Read_ev 7) 400, Del_op (Read_ev 0)]"
  have ok: "ops_ok 0 ?ps []" by (simp add: set_timer_insert timer_delete_def key_less_def)
  have "fold list_op ?ps [] = [(Write_ev 0, 300), (Read_ev 7, 400)]"
    by (simp add: key_less_def timer_delete_def)
  then show ?thesis using timer_tree_run[OF ok, of sample_tree] by (auto simp: numeral_2_eq_2 simp del: fold.simps)
qed

end
