(* ===== verification/Ngxe_Props.thy ===== *)
theory Ngxe_Props
  imports Ngx_Reach
begin

text \<open>
  What the operations of the engine promise: closing, reference counts around a callback,
  expiring timers, and the hand-over of data between sockets and Perl buffers.
\<close>

section \<open>Closing a connection\<close>

lemma del_timer_if_set_total:
  assumes "slots_inv fs w" "ev_conn e < connection_n w" "ev_conn e \<notin> set fs"
  shows "\<exists>w'. del_timer_if_set e w = Inr w' \<and> timers w' = timer_delete e (timers w) \<and>
    slots_inv fs w' \<and> connection_n w' = connection_n w \<and> pools w' = pools w \<and>
    c_fd (conns w' c) = c_fd (conns w c) \<and> c_pool (conns w' c) = c_pool (conns w c) \<and>
    c_destroyed (conns w' c) = c_destroyed (conns w c) \<and> kernel w' = kernel w"
proof (cases "ev_timer_set (get_ev e w)")
  case True
  let ?w = "upd_ev e (\<lambda>x. x\<lparr>ev_timer_key := 0, ev_timer_set := False\<rparr>) (w\<lparr>timers := timer_delete e (timers w)\<rparr>)"
  have mem: "e \<in> fst ` set (timers w)" using assms True by (simp add: slots_inv_def)
  have fp: "free_path ?w s fs = free_path w s fs" for s by (rule free_path_cong) simp
  have "slots_inv fs ?w" using assms(1) unfolding slots_inv_def fp
    by (auto simp: timer_delete_def distinct_map_filter)
  then show ?thesis using True mem
    by (cases e) (simp_all add: del_timer_if_set_def ngx_event_del_timer_def upd_conn_def)
next
  case False
  then have "timer_delete e (timers w) = timers w"
    using assms(1) by (fastforce simp: timer_delete_def slots_inv_def filter_id_conv)
  then show ?thesis using False assms(1) by (simp add: del_timer_if_set_def)
qed

lemma delete_timers_of_slot:
  "timer_delete (Write_ev c) (timer_delete (Read_ev c) ts) = filter (\<lambda>t. ev_conn (fst t) \<noteq> c) ts"
proof -
  have "ev_conn e \<noteq> c \<longleftrightarrow> e \<noteq> Read_ev c \<and> e \<noteq> Write_ev c" for e by (cases e) auto
  then show ?thesis by (simp add: timer_delete_def conj_commute)
qed

lemma close_connection_total:
  assumes "slots_inv fs w" "c < connection_n w" "c \<notin> set fs" "c_fd (conns w c) \<noteq> - 1"
  shows "\<exists>w'. ngx_close_connection E c w = Inr w' \<and> free_connections w' = Some c \<and>
    timers w' = filter (\<lambda>t. ev_conn (fst t) \<noteq> c) (timers w) \<and> c_fd (conns w' c) = - 1 \<and>
    pools w' = pools w \<and> c_destroyed (conns w' c) = c_destroyed (conns w c) \<and>
    kernel w' = snd (os_close E (c_fd (conns w c)) (kernel w))"
proof -
  obtain w1 where 1: "del_timer_if_set (Read_ev c) w = Inr w1" "timers w1 = timer_delete (Read_ev c) (timers w)"
    "slots_inv fs w1" "connection_n w1 = connection_n w" "pools w1 = pools w"
    "c_destroyed (conns w1 c) = c_destroyed (conns w c)" "kernel w1 = kernel w" "c_fd (conns w1 c) = c_fd (conns w c)"
    using del_timer_if_set_total[of fs w "Read_ev c" c] assms by auto
  obtain w2 where 2: "del_timer_if_set (Write_ev c) w1 = Inr w2" "timers w2 = timer_delete (Write_ev c) (timers w1)"
    "pools w2 = pools w1" "c_destroyed (conns w2 c) = c_destroyed (conns w1 c)"
    "kernel w2 = kernel w1" "c_fd (conns w2 c) = c_fd (conns w1 c)"
    using del_timer_if_set_total[of fs w1 "Write_ev c" c] assms 1 by auto
  show ?thesis
    using assms(4) 1 2 delete_timers_of_slot[of c "timers w"]
    by (simp add: ngx_close_connection_def Let_def ngx_close_socket_def ngx_free_connection_def
        delete_posted_if_def ngx_delete_posted_event_def ngx_epoll_del_connection_close_def upd_conn_def)
qed

lemma run_cleanup_frame [simp]:
  "conns (fold SvREFCNT_dec xs w) = conns w" "pools (fold SvREFCNT_dec xs w) = pools w"
  "timers (fold SvREFCNT_dec xs w) = timers w" "free_connections (fold SvREFCNT_dec xs w) = free_connections w"
  "conns (run_cleanup h d w) = conns w" "pools (run_cleanup h d w) = pools w"
  "conns (run_cleanups run_cleanup cs w) = conns w" "pools (run_cleanups run_cleanup cs w) = pools w"
  "kernel (fold SvREFCNT_dec xs w) = kernel w" "kernel (run_cleanup h d w) = kernel w"
  "kernel (run_cleanups run_cleanup cs w) = kernel w"
proof -
  show 1: "conns (fold SvREFCNT_dec xs w) = conns w" "pools (fold SvREFCNT_dec xs w) = pools w"
    "timers (fold SvREFCNT_dec xs w) = timers w" "free_connections (fold SvREFCNT_dec xs w) = free_connections w"
    "kernel (fold SvREFCNT_dec xs w) = kernel w" for xs w
    by (induction xs arbitrary: w) (simp_all add: SvREFCNT_dec_def upd_sv_def)
  show 2: "conns (run_cleanup h d w) = conns w" "pools (run_cleanup h d w) = pools w"
    "kernel (run_cleanup h d w) = kernel w" for h d w
    by (simp_all add: run_cleanup_def ngxe_callback_cleanup_def ngxe_callback_dec_def ngxe_buf_cleanup_def
        ngxe_buffree_def dec_option_def SvREFCNT_dec_def upd_sv_def upd_cb_def Let_def 1
        split: cleanup.split option.split)
  show "conns (run_cleanups run_cleanup cs w) = conns w" "pools (run_cleanups run_cleanup cs w) = pools w"
    "kernel (run_cleanups run_cleanup cs w) = kernel w"
    by (induction cs arbitrary: w) (simp_all add: 2 split: option.split)
qed

lemma destroy_pool_total:
  assumes "pools w p \<noteq> None"
  shows "\<exists>w'. destroy_pool E (Some p) w = Inr w' \<and> conns w' = conns w \<and> skel w' = skel w \<and>
    pools w' = (pools w)(p := None) \<and> kernel w' = kernel w"
  using assms by (auto simp: destroy_pool_def ngx_destroy_pool_def)

lemma conns_destroy_pool: "post (\<lambda>w'. conns w' = conns w) (destroy_pool E p w)"
  by (auto simp: destroy_pool_def ngx_destroy_pool_def split: option.split)

lemma destroyed_close_connection:
  "post (\<lambda>w'. c_destroyed (conns w' d) = c_destroyed (conns w d)) (ngx_close_connection E c w)"
proof -
  have del: "post (\<lambda>w'. c_destroyed (conns w' d) = c_destroyed (conns w d)) (del_timer_if_set e w)"
    for e and w :: "('a, 'b) world"
    by (simp add: del_timer_if_set_def ngx_event_del_timer_def)
  show ?thesis
    unfolding ngx_close_connection_def Let_def
    by (intro post_if post_rbind post_mono[OF del])
       (auto simp: ngx_close_socket_def upd_conn_def ngx_free_connection_def delete_posted_if_def
          ngx_delete_posted_event_def ngx_epoll_del_connection_close_def intro!: post_rbind post_mono[OF del])
qed

lemma destroyed_close: "post (\<lambda>w'. c_destroyed (conns w' c)) (ngxe_close E c w)"
  unfolding ngxe_close_def Let_def
  by (intro post_if post_rbind post_mono[OF destroyed_close_connection[where d = c]] post_mono[OF conns_destroy_pool])
     (simp_all add: upd_conn_def)

text \<open>
  (C8) Closing a connection twice is the same as closing it once, in every world, whatever
  the cleanup handlers of its pool do.
\<close>

theorem close_idempotent: "rbind (ngxe_close E c w) (ngxe_close E c) = ngxe_close E c w"
proof (cases "ngxe_close E c w")
  case (Inr w')
  then show ?thesis using destroyed_close[of c E w] by (simp add: ngxe_close_def)
qed simp

text \<open>
  (C2) In a world that satisfies the invariant of the slots, \<open>ngxe_close\<close> of a connection in
  use returns: the slot is marked and at the head of the free list, its timers and only
  they are out of the timer queue, its descriptor has been given to \<open>close\<close> and is no longer in
  the slot, its pool and only that is destroyed, and the invariant holds again.
\<close>

theorem close_releases:
  assumes "slots_ok w" "c < connection_n w" "\<not> is_free c w" "\<not> is_interval c w"
    "\<not> c_destroyed (conns w c)" "c_fd (conns w c) \<noteq> - 1" "c_pool (conns w c) = Some p" "pools w p \<noteq> None"
  shows "\<exists>w'. ngxe_close E c w = Inr w' \<and> slots_ok w' \<and> c_destroyed (conns w' c) \<and>
    free_connections w' = Some c \<and> timers w' = filter (\<lambda>t. ev_conn (fst t) \<noteq> c) (timers w) \<and>
    c_fd (conns w' c) = - 1 \<and> kernel w' = snd (os_close E (c_fd (conns w c)) (kernel w)) \<and>
    pools w' = (pools w)(p := None)"
proof -
  let ?w = "upd_conn c (c_destroyed_update (\<lambda>_. True)) w"
  have ok: "slots_ok ?w" using set_destroyed_evolve[OF assms(1), of "{}" c] by (rule evolve_slots_ok)
  then obtain fs where inv: "slots_inv fs ?w" by (auto simp: slots_ok_def)
  have "is_free c ?w = is_free c w"
    unfolding is_free_def using free_path_cong[of _ ?w w] by (auto simp: upd_conn_def)
  then have c: "c \<notin> set fs" using assms(3) is_free_iff[OF inv] by simp
  have fd: "c_fd (conns ?w c) \<noteq> - 1" and n: "c < connection_n ?w" using assms(2,6) by (simp_all add: upd_conn_def)
  obtain w1 where 1: "ngx_close_connection E c ?w = Inr w1" "free_connections w1 = Some c"
    "timers w1 = filter (\<lambda>t. ev_conn (fst t) \<noteq> c) (timers ?w)" "c_fd (conns w1 c) = - 1" "pools w1 = pools ?w"
    "c_destroyed (conns w1 c) = c_destroyed (conns ?w c)"
    "kernel w1 = snd (os_close E (c_fd (conns ?w c)) (kernel ?w))"
    using close_connection_total[OF inv n c fd] by blast
  obtain w' where 2: "destroy_pool E (Some p) w1 = Inr w'" "conns w' = conns w1" "skel w' = skel w1"
    "pools w' = (pools w1)(p := None)" "kernel w' = kernel w1"
    using destroy_pool_total[of w1 p E] assms(8) 1(5) by (auto simp: upd_conn_def)
  have close: "ngxe_close E c w = Inr w'"
    using assms(5,7) 1(1) 2(1) by (simp add: ngxe_close_def Let_def upd_conn_def)
  moreover have "slots_ok w'"
    using ngxe_close_evolve[OF assms(1), of c "{c}" E] assms(2,3) close
    by (auto simp: safe_def dest: evolve_slots_ok)
  ultimately show ?thesis
    using 1 2 skel_eqD[OF 2(3)] by (auto simp: upd_conn_def)
qed

text \<open>
  A world with two slots for the examples. Slot 0 is an open connection with descriptor 5, a
  pool, a session with a reader and a writer, and the callback at 12288 with five arguments.
\<close>

definition open_pool :: "addr \<Rightarrow> cleanup pool" where
  "open_pool a = \<lparr>pool_blocks = [\<lparr>blk_base = a, blk_last = a + 80, blk_end = a + 1024, blk_failed = 0\<rparr>],
     pool_max = 944, pool_current = 0, pool_large = [], pool_cleanup = []\<rparr>"

definition sample_connection :: connection where
  "sample_connection = blank_connection\<lparr>c_data := Data_session 8192, c_fd := 5, c_pool := Some 4096,
     c_read := zero_event\<lparr>ev_active := True, ev_handler := Ngxe_reader_handler\<rparr>,
     c_write := zero_event\<lparr>ev_write := True, ev_active := True, ev_handler := Ngxe_writer_handler\<rparr>\<rparr>"

definition sample_callback :: callback where
  "sample_callback = \<lparr>cb_handler = Some 1, cb_args = [10, 11, 12, 13, 14], cb_args_n = 5,
     cb_decremented = False, cb_native = None, cb_pool = 4096, cb_freed = False\<rparr>"

definition open_world :: "(replay, addr) world" where
  "open_world = (started 2)\<lparr>
     conns := (conns (started 2))(0 := sample_connection),
     free_connections := Some 1, free_connection_n := 1,
     pools := [4096 \<mapsto> open_pool 4096],
     sessions := (\<lambda>_. zero_session\<lparr>reader_callback := Some 12288, reader_buffer := Some 12,
        writer_callback := Some 12288, writer_buffer := Some 13, writer_timeout := 50\<rparr>),
     callbacks := (\<lambda>_. sample_callback),
     svs := (\<lambda>i. if i = 13 then pv_sv [72, 105, 33] else if i = 14 then iv_sv 0 else plain_sv)\<rparr>"

lemma open_world_simps [simp]:
  "conns open_world 0 = sample_connection" "c_data (conns open_world (Suc 0)) = Data_null"
  "connection_n open_world = 2"
  "free_connections open_world = Some 1" "free_connection_n open_world = 1" "timers open_world = []"
  "pools open_world = [4096 \<mapsto> open_pool 4096]" "callbacks open_world b = sample_callback"
  "tmps open_world = []" "kernel open_world = ([], [])" "current_msec open_world = 0"
  "received open_world = []" "transmitted open_world = []"
  "sessions open_world a = zero_session\<lparr>reader_callback := Some 12288, reader_buffer := Some 12,
     writer_callback := Some 12288, writer_buffer := Some 13, writer_timeout := 50\<rparr>"
  by (simp_all add: open_world_def started_def init_slots_def ngx_event_timer_init_def blank_world_def
      init_connection_def)

lemma sample_connection_simps [simp]:
  "c_data sample_connection = Data_session 8192" "c_fd sample_connection = 5" "c_pool sample_connection = Some 4096"
  "\<not> c_destroyed sample_connection"
  "c_read sample_connection = zero_event\<lparr>ev_active := True, ev_handler := Ngxe_reader_handler\<rparr>"
  "c_write sample_connection = zero_event\<lparr>ev_write := True, ev_active := True, ev_handler := Ngxe_writer_handler\<rparr>"
  by (simp_all add: sample_connection_def blank_connection_def)

lemma open_world_inv: "slots_inv [1] open_world"
proof -
  have "\<not> ev_timer_set (get_ev e open_world)" if "ev_conn e < 2" "ev_conn e \<noteq> Suc 0" for e
    using that by (cases e) (simp_all add: less_2_cases_iff zero_event_def)
  then show ?thesis by (auto simp: slots_inv_def data_next_def)
qed

lemma open_world_slots: "slots_ok open_world" "\<not> is_free 0 open_world" "\<not> is_interval 0 open_world"
  using open_world_inv is_free_iff[OF open_world_inv, of 0] by (auto simp: slots_ok_def is_interval_def)

theorem close_releases_witness:
  "slots_ok open_world \<and> (\<exists>w'. ngxe_close sample_env 0 open_world = Inr w' \<and> slots_ok w' \<and>
     c_destroyed (conns w' 0) \<and> free_connections w' = Some 0 \<and> timers w' = [] \<and> pools w' = Map.empty)"
  using close_releases[of open_world 0 4096 sample_env] open_world_slots by fastforce

section \<open>Reference counts\<close>

abbreviation refcnt :: "('k, 'm) world \<Rightarrow> svid \<Rightarrow> int" where
  "refcnt w i \<equiv> sv_refcnt (svs w i)"

lemma refcnt_inc_dec [simp]:
  "refcnt (SvREFCNT_inc j w) i = refcnt w i + (if i = j then 1 else 0)"
  "refcnt (SvREFCNT_dec j w) i = refcnt w i - (if i = j then 1 else 0)"
  by (simp_all add: SvREFCNT_inc_def SvREFCNT_dec_def upd_sv_def)

lemma refcnt_fold [simp]:
  "refcnt (fold SvREFCNT_inc xs w) i = refcnt w i + int (count_list xs i)"
  "refcnt (fold SvREFCNT_dec xs w) i = refcnt w i - int (count_list xs i)"
  by (induction xs arbitrary: w) simp_all

lemma refcnt_frame [simp]:
  "svs (note_stale cb w) = svs w" "svs (upd_cb cb f w) = svs w" "svs (w\<lparr>tmps := ts\<rparr>) = svs w"
  "callbacks (fold SvREFCNT_dec xs w) = callbacks w" "callbacks (note_stale cb w) = callbacks w"
  "callbacks (SvREFCNT_dec i w) = callbacks w" "tmps (SvREFCNT_dec i w) = tmps w"
  "tmps (fold SvREFCNT_dec xs w) = tmps w" "tmps (note_stale cb w) = tmps w" "tmps (upd_cb cb f w) = tmps w"
proof -
  show *: "callbacks (SvREFCNT_dec i w) = callbacks w" "tmps (SvREFCNT_dec i w) = tmps w" for i w
    by (simp_all add: SvREFCNT_dec_def upd_sv_def)
  show "callbacks (fold SvREFCNT_dec xs w) = callbacks w" "tmps (fold SvREFCNT_dec xs w) = tmps w"
    by (induction xs arbitrary: w) (simp_all add: *)
qed (simp_all add: note_stale_def upd_cb_def)





end
