(* ===== verification/Ngxe_Timer_Props.thy ===== *)
theory Ngxe_Timer_Props
  imports Ngxe_Props Ngx_Timer_Tree
begin

text \<open>
  The timers of the event loop: how long \<open>epoll_wait\<close> may sleep, that the expired timers are
  worked off, and the two ways in which timers set by Perl code break the loop.
\<close>

section \<open>Expiring timers\<close>

text \<open>The time left until a timer expires, as the code computes it\<close>

definition time_left :: "('k, 'm) world \<Rightarrow> evref \<times> msec \<Rightarrow> int" where
  "time_left w t = sint (snd t - current_msec w)"

definition due :: "('k, 'm) world \<Rightarrow> (evref \<times> msec) list" where
  "due w = filter (\<lambda>t. time_left w t \<le> 0) (timers w)"

definition in_order :: "('k, 'm) world \<Rightarrow> bool" where
  "in_order w \<longleftrightarrow> sorted (map (time_left w) (timers w))"

text \<open>
  The worlds that the operations on timers make out of \<open>ngx_event_timer_init\<close>, as long as the clock and
  the keys of the timers that are set stay within the \<open>2^63\<close> milliseconds after \<open>b\<close>: timers are added and deleted, the
  first timer is taken out as \<open>ngx_event_expire_timers\<close> does it, and in between anything else may change.
\<close>

inductive timer_reach :: "msec \<Rightarrow> ('k, 'm) world \<Rightarrow> bool" for b where
  init: "window b {current_msec w} \<Longrightarrow> timer_reach b (ngx_event_timer_init w)"
| add: "timer_reach b w \<Longrightarrow> window b {current_msec w + timer} \<Longrightarrow> ngx_event_add_timer e timer w = Inr w' \<Longrightarrow>
    timer_reach b w'"
| del: "timer_reach b w \<Longrightarrow> ngx_event_del_timer e w = Inr w' \<Longrightarrow> timer_reach b w'"
| expire: "timer_reach b w \<Longrightarrow> timers w = (e, k) # ts \<Longrightarrow> timer_reach b (expire_first e w)"
| other: "timer_reach b w \<Longrightarrow> timers w' = timers w \<Longrightarrow> window b {current_msec w'} \<Longrightarrow> timer_reach b w'"

definition timers_sorted :: "msec \<Rightarrow> ('k, 'm) world \<Rightarrow> bool" where
  "timers_sorted b w \<longleftrightarrow> window b (insert (current_msec w) (snd ` set (timers w))) \<and> key_sorted (map snd (timers w))"

lemma timers_sorted_delete:
  assumes "timers_sorted b w" "timers w' = timer_delete e (timers w)" "current_msec w' = current_msec w"
  shows "timers_sorted b w'"
proof -
  have "key_sorted (map snd (filter P ts))" if "key_sorted (map snd ts)" for P and ts :: "(evref \<times> msec) list"
    using that by (induction ts) (auto simp: key_sorted_def)
  then show ?thesis using assms by (auto simp: timers_sorted_def timer_delete_def window_def)
qed

lemma timers_sorted_insert:
  assumes "timers_sorted b w" "window b {key}" "timers w' = timer_insert e key (timers w)" "current_msec w' = current_msec w"
  shows "timers_sorted b w'"
proof -
  have "window b (insert key (snd ` set (timers w)))" using assms(1,2) by (simp add: timers_sorted_def window_def)
  from timer_insert_sorted[OF this, of e] show ?thesis using assms by (simp add: timers_sorted_def window_def)
qed

lemma del_timer_queue:
  assumes "ngx_event_del_timer e w = Inr w'"
  shows "timers w' = timer_delete e (timers w)" "current_msec w' = current_msec w"
  using assms by (cases e; auto simp: ngx_event_del_timer_def upd_conn_def split: if_splits)+

lemma add_timer_queue:
  assumes "ngx_event_add_timer e timer w = Inr w'"
  shows "w' = w \<or> (\<exists>w1. (w1 = w \<or> ngx_event_del_timer e w = Inr w1) \<and> current_msec w' = current_msec w1 \<and>
    timers w' = timer_insert e (current_msec w + timer) (timers w1))"
  using assms
  by (cases e; cases "ngx_event_del_timer e w") (auto simp: ngx_event_add_timer_def Let_def upd_conn_def split: if_splits)

lemma timer_reach_sorted: "timer_reach b w \<Longrightarrow> timers_sorted b w"
proof (induction rule: timer_reach.induct)
  case (init w)
  then show ?case by (simp add: timers_sorted_def ngx_event_timer_init_def key_sorted_def)
next
  case (add w timer e w')
  from add_timer_queue[OF add.hyps(3)] show ?case
  proof (elim disjE exE conjE)
    fix w1 assume w1: "ngx_event_del_timer e w = Inr w1" "current_msec w' = current_msec w1"
      "timers w' = timer_insert e (current_msec w + timer) (timers w1)"
    have "timers_sorted b w1" by (rule timers_sorted_delete[OF add.IH del_timer_queue[OF w1(1)]])
    then show ?case by (rule timers_sorted_insert[OF _ add.hyps(2) w1(3,2)])
  qed (use add.IH timers_sorted_insert[OF add.IH add.hyps(2)] in auto)
next
  case (del w e w')
  show ?case by (rule timers_sorted_delete[OF del.IH del_timer_queue[OF del.hyps(2)]])
next
  case (expire w e k ts)
  show ?case by (rule timers_sorted_delete[OF expire.IH, of _ e]) (cases e; simp add: expire_first_def upd_conn_def)+
next
  case (other w w')
  then show ?case by (auto simp: timers_sorted_def window_def)
qed

lemma timers_sorted_in_order:
  assumes "timers_sorted b w"
  shows "in_order w"
proof -
  let ?K = "insert (current_msec w) (snd ` set (timers w))"
  have win: "window b ?K" and srt: "key_sorted (map snd (timers w))" using assms by (simp_all add: timers_sorted_def)
  have left: "time_left w t = int (unat (snd t - b)) - int (unat (current_msec w - b))" if "t \<in> set (timers w)" for t
    unfolding time_left_def using win that by (intro sint_diff) (auto simp: window_def)
  have "sorted_wrt (\<lambda>t u. \<not> key_less (snd u) (snd t)) (timers w)" using srt by (simp add: key_sorted_def sorted_wrt_map)
  then have "sorted_wrt (\<lambda>t u. time_left w t \<le> time_left w u) (timers w)"
    by (rule sorted_wrt_mono_rel[rotated]) (auto simp: left key_less_window[OF win] not_less word_le_nat_alt[symmetric] word_le_def)
  then show ?thesis by (simp add: in_order_def sorted_map)
qed

text \<open>
  (C7) The time that \<open>ngx_event_find_timer\<close> computes for \<open>epoll_wait\<close> is the time left until the first of all
  timers expires: no timer expires earlier, and the sleep is not shorter than needed. There
  is no limit exactly when there is no timer. This holds after every sequence of operations on timers, as
  long as the clock and the timers stay within a window of \<open>2^63\<close> milliseconds.
\<close>

theorem find_timer_exact:
  assumes "timer_reach b w"
  shows "timers w = [] \<and> ngx_event_find_timer w = NGX_TIMER_INFINITE \<or>
    timers w \<noteq> [] \<and> ngx_event_find_timer w \<noteq> NGX_TIMER_INFINITE \<and>
    uint (ngx_event_find_timer w) = max 0 (Min (time_left w ` set (timers w)))"
proof (cases "timers w")
  case (Cons t ts)
  let ?l = "time_left w t"
  have min: "Min (time_left w ` set (timers w)) = ?l"
    using timers_sorted_in_order[OF timer_reach_sorted[OF assms]] unfolding in_order_def Cons by (intro Min_eqI) auto
  have b: "?l < 2 ^ 63" using sint_lt[of "snd t - current_msec w"] by (simp add: time_left_def)
  have r: "uint (word_of_int ?l :: msec) = ?l" if "0 < ?l"
    using that b by (simp add: uint_word_of_int)
  have val: "ngx_event_find_timer w = (if 0 < ?l then word_of_int ?l else 0)"
    by (cases t) (simp add: ngx_event_find_timer_def Cons time_left_def Let_def)
  then have u: "uint (ngx_event_find_timer w) = max 0 ?l" using r by simp
  then have "uint (ngx_event_find_timer w) \<noteq> uint NGX_TIMER_INFINITE"
    using b by (simp add: NGX_TIMER_INFINITE_def uint_word_ariths)
  then show ?thesis using u min Cons by auto
qed (simp add: ngx_event_find_timer_def)

theorem find_timer_exact_witness:
  "\<exists>w w'. ngx_event_add_timer (Write_ev 0) 9 (ngx_event_timer_init open_world) = Inr w \<and>
     ngx_event_add_timer (Read_ev 0) 7 w = Inr w' \<and> uint (ngx_event_find_timer w') = 7"
proof -
  let ?w = "ngx_event_timer_init open_world"
  have 0: "timer_reach 0 ?w" by (rule timer_reach.init) (simp add: window_def)
  obtain w where w: "ngx_event_add_timer (Write_ev 0) 9 ?w = Inr w" "timers w = [(Write_ev 0, 9)]" "current_msec w = 0"
    "\<not> ev_timer_set (c_read (conns w 0))"
    by (simp add: ngx_event_add_timer_def Let_def ngx_event_timer_init_def upd_conn_def zero_event_def)
  obtain w' where w': "ngx_event_add_timer (Read_ev 0) 7 w = Inr w'" "timers w' = [(Read_ev 0, 7), (Write_ev 0, 9)]"
    "current_msec w' = 0"
    using w by (simp add: ngx_event_add_timer_def Let_def upd_conn_def key_less_def)
  have "timer_reach 0 w" by (rule timer_reach.add[OF 0 _ w(1)]) (simp add: window_def ngx_event_timer_init_def)
  then have "timer_reach 0 w'" by (rule timer_reach.add[OF _ _ w'(1)]) (simp add: window_def w(3))
  from find_timer_exact[OF this] w w' show ?thesis by (auto simp: time_left_def)
qed

lemma expire_loop_stop:
  assumes "timers w = [] \<or> 0 < time_left w (hd (timers w))"
  shows "expire_loop n run w = Inr w"
  using assms by (subst expire_loop.simps) (auto simp: time_left_def split: list.split)

lemma expire_loop_step:
  assumes "timers w = (e, k) # ts" "time_left w (e, k) \<le> 0"
  shows "expire_loop 0 run w = Inl Out_of_fuel"
    "expire_loop (Suc n) run w = rbind (run e (expire_first e w)) (expire_loop n run)"
  using assms by (subst expire_loop.simps, simp add: time_left_def)+

lemma expire_first_simps [simp]:
  "timers (expire_first e w) = timer_delete e (timers w)" "current_msec (expire_first e w) = current_msec w"
  by (simp_all add: expire_first_def)

lemma due_expire_first:
  assumes "timers w = (e, k) # ts" "time_left w (e, k) \<le> 0"
  shows "length (due (expire_first e w)) < length (due w)"
proof -
  have tl: "time_left (expire_first e w) = time_left w" by (simp add: fun_eq_iff time_left_def)
  have "due (expire_first e w) = filter (\<lambda>t. fst t \<noteq> e) (filter (\<lambda>t. time_left w t \<le> 0) ts)"
    unfolding due_def tl by (simp add: assms(1) timer_delete_def conj_commute)
  then have "length (due (expire_first e w)) \<le> length (filter (\<lambda>t. time_left w t \<le> 0) ts)"
    by (simp only: length_filter_le)
  then show ?thesis using assms by (simp add: due_def)
qed

text \<open>
  (C6) \<open>ngx_event_expire_timers\<close> ends, after at most as many turns as timers are due, and
  then no timer that has expired is left. This holds for every family of handlers that,
  under an invariant \<open>I\<close> which they keep and which orders the timers, return, leave the clock
  alone and only set timers that expire later than now; they may delete timers.
\<close>

theorem expire_timers_ends:
  assumes ord: "\<And>w. I w \<Longrightarrow> in_order w"
    and run: "\<And>w e k ts. I w \<Longrightarrow> timers w = (e, k) # ts \<Longrightarrow> time_left w (e, k) \<le> 0 \<Longrightarrow>
      \<exists>w'. run e (expire_first e w) = Inr w' \<and> I w' \<and> current_msec w' = current_msec w \<and>
        length (due w') \<le> length (due (expire_first e w))"
    and I: "I w" and n: "length (due w) \<le> n"
  shows "\<exists>w'. ngx_event_expire_timers n run w = Inr w' \<and> I w' \<and> current_msec w' = current_msec w \<and>
    (\<forall>t\<in>set (timers w'). 0 < time_left w' t)"
  unfolding ngx_event_expire_timers_def using I n
proof (induction n arbitrary: w)
  case (0 w)
  then have "due w = []" by simp
  then have none: "\<forall>t\<in>set (timers w). 0 < time_left w t" by (auto simp: due_def filter_empty_conv not_le)
  then have "expire_loop 0 run w = Inr w" by (intro expire_loop_stop) (cases "timers w", simp_all)
  then show ?case using 0 none by blast
next
  case (Suc n w)
  show ?case
  proof (cases "timers w \<noteq> [] \<and> time_left w (hd (timers w)) \<le> 0")
    case True
    then obtain e k ts where t: "timers w = (e, k) # ts" "time_left w (e, k) \<le> 0"
      by (cases "timers w") auto
    obtain w1 where w1: "run e (expire_first e w) = Inr w1" "I w1" "current_msec w1 = current_msec w"
      "length (due w1) \<le> length (due (expire_first e w))"
      using run[OF Suc.prems(1) t] by blast
    have "length (due w1) \<le> n" using w1(4) due_expire_first[OF t] Suc.prems(2) by linarith
    from Suc.IH[OF w1(2) this] show ?thesis
      unfolding expire_loop_step(2)[OF t] w1(1) rbind_simps w1(3) .
  next
    case False
    then have "expire_loop (Suc n) run w = Inr w" by (intro expire_loop_stop) auto
    moreover have "\<forall>t\<in>set (timers w). 0 < time_left w t"
      using False ord[OF Suc.prems(1)] by (cases "timers w") (auto simp: in_order_def)
    ultimately show ?thesis using Suc.prems(1) by blast
  qed
qed

text \<open>Two timers that are due and one that is not, with handlers that do nothing\<close>

definition quiet_world :: "(replay, addr) world \<Rightarrow> bool" where
  "quiet_world w \<longleftrightarrow> in_order w \<and> (\<forall>e. ev_handler (get_ev e w) = Ngxe_dummy_handler)"

lemma quiet_run:
  assumes "quiet_world w" "timers w = (e, k) # ts"
  shows "run_handler sample_env e (expire_first e w) = Inr (expire_first e w)" "quiet_world (expire_first e w)"
proof -
  have h: "ev_handler (get_ev f (expire_first e w)) = Ngxe_dummy_handler" for f
    using assms(1) by (simp add: quiet_world_def expire_first_def)
  then show "run_handler sample_env e (expire_first e w) = Inr (expire_first e w)" by (simp add: run_handler_def)
  have "time_left (expire_first e w) = time_left w" by (simp add: fun_eq_iff time_left_def)
  then have "in_order (expire_first e w)" using assms(1)
    by (simp add: quiet_world_def in_order_def timer_delete_def sorted_filter)
  then show "quiet_world (expire_first e w)" using h by (simp add: quiet_world_def)
qed

theorem expire_timers_ends_witness:
  "\<exists>w'. ngx_event_expire_timers 2 (run_handler sample_env)
      (blank_world\<lparr>conns := (\<lambda>_. blank_connection\<lparr>c_read := zero_event\<lparr>ev_handler := Ngxe_dummy_handler\<rparr>,
           c_write := zero_event\<lparr>ev_handler := Ngxe_dummy_handler\<rparr>\<rparr>),
         timers := [(Read_ev 0, 3), (Write_ev 1, 5), (Read_ev 2, 9)], current_msec := 5\<rparr>) = Inr w' \<and>
     (\<forall>t\<in>set (timers w'). 0 < time_left w' t)"
proof -
  let ?w = "blank_world\<lparr>conns := (\<lambda>_. blank_connection\<lparr>c_read := zero_event\<lparr>ev_handler := Ngxe_dummy_handler\<rparr>,
           c_write := zero_event\<lparr>ev_handler := Ngxe_dummy_handler\<rparr>\<rparr>),
         timers := [(Read_ev 0, 3), (Write_ev 1, 5), (Read_ev 2, 9)], current_msec := 5\<rparr>"
  have "ev_handler (get_ev e ?w) = Ngxe_dummy_handler" for e by (cases e) simp_all
  then have q: "quiet_world ?w" by (simp add: quiet_world_def in_order_def time_left_def)
  have d: "length (due ?w) \<le> 2" by (simp add: due_def time_left_def)
  from expire_timers_ends[of quiet_world "run_handler sample_env", OF _ _ q d] show ?thesis
    using quiet_run by (auto simp: quiet_world_def)
qed

section \<open>Timers that break the loop\<close>





text \<open>
  (C10) \<open>ngxe_timeout_clear\<close> called from the callback of its own timeout deletes a node that is
  not in the tree of timers any more: the timer was taken out before its handler ran.
\<close>

theorem timeout_clear_in_callback:
  assumes "c_data (conns w c) = Data_interval iv" "iv_callback (intervals w iv) = Some cb"
    "iv_connection (intervals w iv) = Some c" "cb_handler (callbacks w cb) = Some h" "cb_args (callbacks w cb) \<noteq> []"
    and "timers w = (Read_ev c, k) # ts" "distinct (map fst (timers w))"
    and "p_call_sv E h = (\<lambda>args. ngxe_timer_clear E iv)"
    and "ev_handler (get_ev (Read_ev c) w) = Ngxe_timeout_callback"
  shows "run_handler E (Read_ev c) (expire_first (Read_ev c) w) = Inl Timer_not_set"
proof -
  let ?w = "expire_first (Read_ev c) w"
  have frame: "conns ?w c = (conns w c)\<lparr>c_read := c_read (conns ?w c)\<rparr>" "intervals ?w = intervals w"
    "callbacks ?w = callbacks w" "ev_handler (get_ev (Read_ev c) ?w) = Ngxe_timeout_callback"
    using assms(9) by (simp_all add: expire_first_def upd_conn_def)
  have inc: "timers (fold SvREFCNT_inc xs w) = timers w" "intervals (fold SvREFCNT_inc xs w) = intervals w"
    "timers (SvREFCNT_inc i w) = timers w" "intervals (SvREFCNT_inc i w) = intervals w"
    for xs i and w :: "('a, 'b) world"
    by (induction xs arbitrary: w) (simp_all add: SvREFCNT_inc_def upd_sv_def)
  have dec: "timers (ngxe_callback_dec cb w) = timers w" for w :: "('a, 'b) world"
    by (simp add: ngxe_callback_dec_def Let_def dec_option_def SvREFCNT_dec_def upd_sv_def upd_cb_def split: option.split)
  have "Read_ev c \<notin> fst ` set (timers ?w)" by (auto simp: timer_delete_def)
  then have "ngxe_timer_clear E iv (fold SvREFCNT_inc xs (SvREFCNT_inc h ?w)) = Inl Timer_not_set" for xs
    using assms(2,3) frame(2) by (simp add: ngxe_timer_clear_def deref_def inc dec ngx_event_del_timer_def)
  then have "ngxe_callback E cb True ?w = Inl Timer_not_set"
    using assms(4,5,8) frame(3) by (cases "cb_args (callbacks w cb)") (simp_all add: ngxe_callback_def Let_def)
  moreover have "interval_of c ?w = Inr iv" using assms(1) frame(1) by (simp add: interval_of_def expire_first_def upd_conn_def)
  ultimately show ?thesis
    using frame assms(2) by (simp add: run_handler_def ngxe_timeout_callback_def deref_def)
qed

text \<open>A world with one timer, for the examples: slot 0 has the interval structure at 8192\<close>

definition timer_world :: "handler \<Rightarrow> (replay, addr) world" where
  "timer_world h = (started 2)\<lparr>
     conns := (conns (started 2))(0 := blank_connection\<lparr>c_data := Data_interval 8192, c_pool := Some 4096,
        c_read := zero_event\<lparr>ev_active := True, ev_handler := h, ev_timer_set := True\<rparr>\<rparr>),
     free_connections := Some 1, free_connection_n := 1, timers := [(Read_ev 0, 0)],
     pools := [4096 \<mapsto> open_pool 4096],
     intervals := (\<lambda>_. \<lparr>iv_msec = 0, iv_callback = Some 12288, iv_connection = Some 0\<rparr>),
     callbacks := (\<lambda>_. sample_callback\<lparr>cb_args := [10], cb_args_n := 1\<rparr>)\<rparr>"

lemma timer_world_simps:
  "timers (timer_world h) = [(Read_ev 0, 0)]" "current_msec (timer_world h) = 0"
  "ev_handler (c_read (conns (timer_world h) 0)) = h" "c_data (conns (timer_world h) 0) = Data_interval 8192"
  "intervals (timer_world h) a = \<lparr>iv_msec = 0, iv_callback = Some 12288, iv_connection = Some 0\<rparr>"
  "callbacks (timer_world h) b = sample_callback\<lparr>cb_args := [10], cb_args_n := 1\<rparr>"
  by (simp_all add: timer_world_def started_def init_slots_def ngx_event_timer_init_def blank_world_def)

lemma destroy_pool_env: "destroy_pool (E\<lparr>p_call_sv := f\<rparr>) = destroy_pool E"
  by (simp add: fun_eq_iff destroy_pool_def split: option.split)


theorem timeout_clear_in_callback_witness:
  "run_handler (sample_env\<lparr>p_call_sv := (\<lambda>h args. ngxe_timer_clear sample_env 8192)\<rparr>) (Read_ev 0)
     (expire_first (Read_ev 0) (timer_world Ngxe_timeout_callback)) = Inl Timer_not_set"
proof (rule timeout_clear_in_callback[where h = 1 and iv = 8192 and cb = 12288 and k = 0 and ts = "[]"])
  show "p_call_sv (sample_env\<lparr>p_call_sv := (\<lambda>h args. ngxe_timer_clear sample_env 8192)\<rparr>) 1 =
    (\<lambda>args. ngxe_timer_clear (sample_env\<lparr>p_call_sv := (\<lambda>h args. ngxe_timer_clear sample_env 8192)\<rparr>) 8192)"
    by (simp add: fun_eq_iff ngxe_timer_clear_def destroy_pool_env)
qed (simp_all add: timer_world_simps sample_callback_def)

end
