(* ===== verification/Ngxe_Data_Props.thy ===== *)
theory Ngxe_Data_Props
  imports Ngxe_Props
begin

text \<open>The bytes that the reader and the writer move between sockets and Perl buffers.\<close>

section \<open>The reader\<close>

lemma buf_size_enough: "16 \<le> ngxe_pagesize E \<Longrightarrow> n \<le> ngxe_buf_size E n"
  by (simp add: ngxe_buf_size_def)

lemma reader_room:
  assumes "perl_ok E" "16 \<le> ngxe_pagesize E" "sv_wf x"
    and y: "y = (if sv_len x = sv_cur x + 1 then ngxe_buf_svgrow E (sv_len x + 16384) x else x)"
  shows "sv_cur y = sv_cur x" "sv_string y = sv_string x" "sv_cur x + 1 < sv_len y"
proof -
  have g: "n \<le> sv_len (p_sv_grow E n x)" "sv_cur (p_sv_grow E n x) = sv_cur x"
    "sv_string (p_sv_grow E n x) = sv_string x" for n
    using assms(1,3) by (simp_all add: perl_ok_def)
  let ?n = "ngxe_buf_size E (sv_len x + 16384)"
  have n: "sv_len x + 16384 \<le> ?n" by (rule buf_size_enough[OF assms(2)])
  show "sv_cur y = sv_cur x" "sv_string y = sv_string x" "sv_cur x + 1 < sv_len y"
    using g[of ?n] n assms(3) by (auto simp: y ngxe_buf_svgrow_def SvGROW_def sv_wf_def)
qed

lemma stored_string:
  assumes "sv_cur y + length bs < sv_len y"
    and x: "x = sv_cur_update (\<lambda>_. sv_cur y + length bs)
      (sv_pvx_update (\<lambda>m. take (sv_cur y) m @ bs @ drop (sv_cur y + length bs) m) y)"
  shows "sv_string x = sv_string y @ bs" "sv_wf x"
  using assms(1) by (simp_all add: x sv_string_def sv_wf_def sv_len_def)

text \<open>
  (C3) When the socket has data, the reader appends exactly the bytes that \<open>recv\<close> delivered to
  the Perl buffer, in order and without a gap, whatever the length of the buffer was; the
  buffer is enlarged first when it is full, nothing is written outside it, and one byte
  stays free behind the string. No other Perl value and no connection changes before the
  reader goes on.
\<close>

theorem reader_appends:
  assumes "perl_ok E" "os_ok E" "16 \<le> ngxe_pagesize E" "sv_wf (svs w b)"
    and recv: "\<And>n. 0 < n \<Longrightarrow> \<exists>bs k. os_recv E (c_fd (conns w c)) n (kernel w) = (Inr bs, k) \<and> bs \<noteq> []"
  shows "\<exists>bs w'. bs \<noteq> [] \<and> reader_recv E c s cb b w = reader_got E c s cb b w' \<and>
    received w' = received w @ [(c, bs)] \<and> sv_string (svs w' b) = sv_string (svs w b) @ bs \<and>
    sv_wf (svs w' b) \<and> (\<forall>i. i \<noteq> b \<longrightarrow> svs w' i = svs w i) \<and> conns w' = conns w"
proof -
  let ?x = "svs w b"
  define y where "y = (if sv_len ?x = sv_cur ?x + 1 then ngxe_buf_svgrow E (sv_len ?x + 16384) ?x else ?x)"
  note room = reader_room[OF assms(1,3,4) y_def]
  define w1 where "w1 = (if sv_len ?x = sv_cur ?x + 1
    then upd_sv b (ngxe_buf_svgrow E (sv_len ?x + 16384)) w else w)"
  have w1: "svs w1 b = y" "\<And>i. i \<noteq> b \<Longrightarrow> svs w1 i = svs w i" "conns w1 = conns w" "kernel w1 = kernel w"
    "received w1 = received w" by (simp_all add: w1_def y_def upd_sv_def)
  define m where "m = sv_len y - Suc (sv_cur y)"
  have m: "0 < m" "m < sv_len y - sv_cur y" "sv_len y - sv_cur y - 1 = m" using room by (simp_all add: m_def)
  obtain bs k where r: "os_recv E (c_fd (conns w c)) m (kernel w) = (Inr bs, k)" "bs \<noteq> []"
    using recv[OF m(1)] by blast
  then have "length bs \<le> m" using assms(2) unfolding os_ok_def by blast
  then have len: "sv_cur y + length bs < sv_len y" using m(2) by linarith
  define w2 where "w2 = w1\<lparr>kernel := k, received := received w1 @ [(c, bs)]\<rparr>"
  have rc: "ngx_unix_recv (loop_fuel E) E c m w1 = Inr (int (length bs), bs, w2)"
    by (subst ngx_unix_recv.simps) (simp add: w1 r w2_def Let_def)
  let ?st = "sv_pvx_update (\<lambda>m. take (sv_cur y) m @ bs @ drop (sv_cur y + length bs) m)"
  have st: "sv_store b (sv_cur y) bs w2 = Inr (upd_sv b ?st w2)"
    using len w1(1) by (simp add: sv_store_def w2_def upd_sv_def)
  let ?w = "upd_sv b (sv_cur_update (\<lambda>_. sv_cur y + length bs)) (upd_sv b ?st w2)"
  have w2: "svs w2 = svs w1" "conns w2 = conns w1" "received w2 = received w1 @ [(c, bs)]" by (simp_all add: w2_def)
  have "reader_recv E c s cb b w = reader_got E c s cb b ?w"
    unfolding reader_recv_def w1_def[symmetric] Let_def w1(1) m(3) rc using m(1) r(2)
    by (simp add: st m_def)
  moreover have "received ?w = received w @ [(c, bs)]" "conns ?w = conns w" "\<And>i. i \<noteq> b \<Longrightarrow> svs ?w i = svs w i"
    using w1 w2 by (simp_all add: upd_sv_def)
  moreover have "svs ?w b = sv_cur_update (\<lambda>_. sv_cur y + length bs) (?st y)"
    by (simp add: upd_sv_def w2 w1)
  moreover note stored_string[OF len this] room(2) r(2)
  ultimately show ?thesis by (intro exI[of _ bs] exI[of _ ?w]) simp
qed

theorem reader_appends_witness:
  "perl_ok sample_env \<and> os_ok sample_env \<and>
   (\<exists>bs w'. bs \<noteq> [] \<and> reader_recv (sample_env\<lparr>os_recv := (\<lambda>fd n k. (Inr (take n [65, 66, 67]), k))\<rparr>) 0 8192 12288 13 open_world =
      reader_got (sample_env\<lparr>os_recv := (\<lambda>fd n k. (Inr (take n [65, 66, 67]), k))\<rparr>) 0 8192 12288 13 w' \<and>
      received w' = [(0, bs)] \<and> sv_string (svs w' 13) = [72, 105, 33] @ bs)"
proof -
  let ?E = "sample_env\<lparr>os_recv := (\<lambda>fd n k. (Inr (take n [65, 66, 67]), k))\<rparr>"
  have p: "perl_ok ?E" using sample_perl_ok by (simp add: perl_ok_def)
  have o: "os_ok ?E" using sample_os_ok by (simp add: os_ok_def)
  have g: "16 \<le> ngxe_pagesize ?E" by (simp add: sample_env_def)
  have b: "svs open_world 13 = pv_sv [72, 105, 33]" by (simp add: open_world_def)
  have wf: "sv_wf (svs open_world 13)" by (simp add: b pv_sv_def sv_wf_def sv_len_def)
  have str: "sv_string (svs open_world 13) = [72, 105, 33]" by (simp add: b pv_sv_def sv_string_def)
  from reader_appends[OF p o g wf, of 0 8192 12288] str sample_perl_ok sample_os_ok show ?thesis
    by (auto simp: take_Cons' split: if_splits)
qed

section \<open>The writer\<close>

lemma pv_loop_return: "pv_loop f E c s cb b (Return, w) = Inr w"
  by (subst pv_loop.simps) simp

lemma stop_timer:
  assumes "slots_ok w" "ev_conn e < connection_n w" "\<not> is_free (ev_conn e) w"
  shows "\<exists>w'. del_timer_if_set e w = Inr w' \<and> timers w' = timer_delete e (timers w) \<and>
    \<not> ev_timer_set (get_ev e w') \<and> ev_active (get_ev e w') = ev_active (get_ev e w) \<and>
    ev_handler (get_ev e w') = ev_handler (get_ev e w) \<and> svs w' = svs w \<and> sessions w' = sessions w \<and>
    transmitted w' = transmitted w \<and> kernel w' = kernel w \<and> current_msec w' = current_msec w \<and>
    c_fd (conns w' (ev_conn e)) = c_fd (conns w (ev_conn e))"
proof -
  obtain fs where inv: "slots_inv fs w" using assms(1) by (auto simp: slots_ok_def)
  have fs: "ev_conn e \<notin> set fs" using assms(3) is_free_iff[OF inv] by simp
  obtain w1 where "del_timer_if_set e w = Inr w1" "timers w1 = timer_delete e (timers w)"
    using del_timer_if_set_total[OF inv assms(2) fs] by blast
  then show ?thesis
    by (cases e) (auto simp: del_timer_if_set_def ngx_event_del_timer_def upd_conn_def split: if_splits)
qed

lemma register_write:
  assumes "ev_active (get_ev (Write_ev c) w) \<or> (\<forall>op m p k. fst (os_epoll_ctl E op (c_fd (conns w c)) m p k) = None)"
    "\<not> ev_timer_set (get_ev (Write_ev c) w)"
  shows "\<exists>w1. ngx_handle_write_event E (Write_ev c) (upd_ev (Write_ev c) (ev_ready_update (\<lambda>_. False)) w) = (NGX_OK, w1) \<and>
    transmitted w1 = transmitted w \<and> svs w1 = svs w \<and> timers w1 = timers w \<and> sessions w1 = sessions w \<and>
    current_msec w1 = current_msec w \<and> ev_active (get_ev (Write_ev c) w1) \<and>
    ev_handler (get_ev (Write_ev c) w1) = ev_handler (get_ev (Write_ev c) w) \<and> \<not> ev_timer_set (get_ev (Write_ev c) w1)"
proof (cases "ev_active (get_ev (Write_ev c) w)")
  case True
  then show ?thesis using assms(2) by (simp add: ngx_handle_write_event_def upd_conn_def)
next
  case False
  let ?w = "upd_ev (Write_ev c) (ev_ready_update (\<lambda>_. False)) w"
  from False have reg: "fst (os_epoll_ctl E op (c_fd (conns w c)) m p k) = None" for op m p k using assms(1) by blast
  have fd: "c_fd (conns ?w c) = c_fd (conns w c)" by (simp add: upd_conn_def)
  have ctl: "\<exists>k. epoll_ctl E op c m p ?w = (NGX_OK, ?w\<lparr>kernel := k\<rparr>)" for op m p
    using reg[of op m p "kernel ?w"] unfolding epoll_ctl_def fd
    by (cases "os_epoll_ctl E op (c_fd (conns w c)) m p (kernel ?w)") (simp, blast)
  have na: "\<not> ev_active (get_ev (Write_ev c) ?w)" using False by (simp add: upd_conn_def)
  obtain op m where om: "(if ev_active (get_ev (other_ev (Write_ev c)) ?w)
      then (EPOLL_CTL_MOD, ev_mask (Write_ev c) OR ev_mask (other_ev (Write_ev c)))
      else (EPOLL_CTL_ADD, ev_mask (Write_ev c))) = (op, m)" by fastforce
  obtain k where "epoll_ctl E op c (m OR EPOLLET) (c, ev_instance (get_ev (Write_ev c) ?w)) ?w = (NGX_OK, ?w\<lparr>kernel := k\<rparr>)"
    using ctl by blast
  then have "ngx_handle_write_event E (Write_ev c) ?w =
      (NGX_OK, upd_ev (Write_ev c) (ev_active_update (\<lambda>_. True)) (?w\<lparr>kernel := k\<rparr>))"
    unfolding ngx_handle_write_event_def ngx_epoll_add_event_def Let_def om prod.case ev_conn.simps
    using na by (simp add: upd_conn_def)
  then show ?thesis using assms(2) by (simp add: upd_conn_def)
qed

lemma partly_sent_waits:
  assumes "ev_active (get_ev (Write_ev c) w) \<or> (\<forall>op m p k. fst (os_epoll_ctl E op (c_fd (conns w c)) m p k) = None)"
    "\<not> ev_timer_set (get_ev (Write_ev c) w)"
  shows "\<exists>w'. partly_sent E reset c s cb w = Inr (Return, w') \<and> transmitted w' = transmitted w \<and>
    svs w' = svs w \<and> ev_handler (get_ev (Write_ev c) w') = ev_handler (get_ev (Write_ev c) w) \<and>
    ev_active (get_ev (Write_ev c) w') \<and>
    ev_timer_set (get_ev (Write_ev c) w') = (writer_timeout (sessions w s) \<noteq> 0) \<and>
    timers w' = (if writer_timeout (sessions w s) = 0 then timers w
      else timer_insert (Write_ev c) (current_msec w + word_of_int (writer_timeout (sessions w s))) (timers w))"
proof -
  let ?w = "upd_ev (Write_ev c) (ev_ready_update (\<lambda>_. False)) w"
  obtain w1 where w1: "ngx_handle_write_event E (Write_ev c) ?w = (NGX_OK, w1)"
    "transmitted w1 = transmitted w" "svs w1 = svs w" "timers w1 = timers w" "sessions w1 = sessions w"
    "current_msec w1 = current_msec w" "ev_active (get_ev (Write_ev c) w1)"
    "ev_handler (get_ev (Write_ev c) w1) = ev_handler (get_ev (Write_ev c) w)" "\<not> ev_timer_set (get_ev (Write_ev c) w1)"
    using register_write[OF assms] by blast
  show ?thesis
    using w1 by (simp add: partly_sent_def await_write_def arm_writer_def add_timer_unless_set_def
      ngx_event_add_timer_def Let_def upd_conn_def)
qed

lemma only_new_timer: "filter (\<lambda>t. fst t = e) (timer_insert e k (timer_delete e ts)) = [(e, k)]"
proof -
  have "filter (\<lambda>t. fst t = e) (timer_insert e k us) = [(e, k)]" if "e \<notin> fst ` set us" for us
    using that by (induction e k us rule: timer_insert.induct) (auto simp: filter_empty_conv)
  from this[of "timer_delete e ts"] show ?thesis by (auto simp: timer_delete_def)
qed

text \<open>The writer up to the first call of \<open>send\<close>\<close>

lemma writer_sends:
  assumes "perl_ok E" "sv_wf (svs w b)" "\<not> sv_rok (svs w b)" "str = sv_string (svs w b)"
    and slot: "slots_ok w" "c < connection_n w" "\<not> is_free c w"
    and s: "c_data (conns w c) = Data_session s" "writer_callback (sessions w s) = Some cb"
      "writer_buffer (sessions w s) = Some b"
    and ev: "\<not> ev_timedout (get_ev (Write_ev c) w)"
    and send: "os_send E (c_fd (conns w c)) str (kernel w) = (Inr n, k)" "0 < n" "n \<le> length str"
    and fuel: "loop_fuel E = Suc f"
  shows "\<exists>w2. ngxe_writer_handler E (Write_ev c) w =
      rbind (if n < length str then partly_sent E False c s cb w2
        else rbind (ngxe_callback E cb False (upd_sv b (sv_cur_update (\<lambda>_. 0)) (upd_sv b (SvOOK_off E) w2)))
          (\<lambda>w. Inr (Aftercallback, w))) (pv_loop f E c s cb b) \<and>
    transmitted w2 = transmitted w @ [(c, take n str)] \<and> sv_string (svs w2 b) = drop n str \<and>
    sessions w2 = sessions w \<and> timers w2 = timer_delete (Write_ev c) (timers w) \<and> current_msec w2 = current_msec w \<and>
    c_fd (conns w2 c) = c_fd (conns w c) \<and> ev_active (get_ev (Write_ev c) w2) = ev_active (get_ev (Write_ev c) w) \<and>
    ev_handler (get_ev (Write_ev c) w2) = ev_handler (get_ev (Write_ev c) w) \<and> \<not> ev_timer_set (get_ev (Write_ev c) w2)"
proof -
  obtain w0 where w0: "del_timer_if_set (Write_ev c) w = Inr w0" "timers w0 = timer_delete (Write_ev c) (timers w)"
    "\<not> ev_timer_set (get_ev (Write_ev c) w0)" "ev_active (get_ev (Write_ev c) w0) = ev_active (get_ev (Write_ev c) w)"
    "ev_handler (get_ev (Write_ev c) w0) = ev_handler (get_ev (Write_ev c) w)" "svs w0 = svs w" "sessions w0 = sessions w"
    "transmitted w0 = transmitted w" "kernel w0 = kernel w" "current_msec w0 = current_msec w"
    "c_fd (conns w0 c) = c_fd (conns w c)"
    using stop_timer[OF slot(1), of "Write_ev c"] slot by auto
  let ?x = "svs w b"
  have cur: "length str = sv_cur ?x" using assms(2,4) by (simp add: sv_string_def sv_wf_def sv_len_def)
  have bytes: "sv_bytes ?x 0 (int (sv_cur ?x)) = Inr str"
    using assms(2,4) by (simp add: sv_bytes_def sv_wf_def sv_string_def)
  define w1 where "w1 = upd_conn c (\<lambda>x. x\<lparr>c_sent := c_sent x + int n,
      c_write := (if n < length str then (c_write x)\<lparr>ev_ready := False\<rparr> else c_write x)\<rparr>)
        (w0\<lparr>kernel := k, transmitted := transmitted w0 @ [(c, take n str)]\<rparr>)"
  have snd: "ngx_unix_send (loop_fuel E) E c str w0 = Inr (int n, w1)"
    by (subst ngx_unix_send.simps) (simp add: send w0 w1_def Let_def)
  have chop: "sv_wf (p_sv_chop E n ?x)" "sv_string (p_sv_chop E n ?x) = drop n str"
    using assms(1,2,4) send(3) cur by (simp_all add: perl_ok_def)
  have ccur: "sv_cur (p_sv_chop E n ?x) = length str - n"
    using arg_cong[OF chop(2), of length] chop(1) by (simp add: sv_string_def sv_wf_def sv_len_def)
  have w1: "svs w1 = svs w" "transmitted w1 = transmitted w @ [(c, take n str)]"
    "ev_active (get_ev (Write_ev c) w1) = ev_active (get_ev (Write_ev c) w)" "\<not> ev_timer_set (get_ev (Write_ev c) w1)"
    "sessions w1 = sessions w" "ev_handler (get_ev (Write_ev c) w1) = ev_handler (get_ev (Write_ev c) w)"
    "timers w1 = timer_delete (Write_ev c) (timers w)" "current_msec w1 = current_msec w" "c_fd (conns w1 c) = c_fd (conns w c)"
    using w0 by (simp_all add: w1_def upd_conn_def)
  have start: "ngxe_writer_handler E (Write_ev c) w = pv_loop (Suc f) E c s cb b (Sendagain b (int (sv_cur ?x)), w0)"
    using s ev assms(3) cur send(2,3) fuel w0
    by (simp add: ngxe_writer_handler_def session_of_def pv_writer_handler_def Let_def)
  define w2 where "w2 = upd_sv b (p_sv_chop E n) w1"
  have w2: "svs w2 b = p_sv_chop E n ?x" "transmitted w2 = transmitted w @ [(c, take n str)]"
    "conns w2 = conns w1" "sessions w2 = sessions w" "timers w2 = timers w1" "current_msec w2 = current_msec w1"
    by (simp_all add: w2_def upd_sv_def w1)
  have sent: "pv_send E c s cb b (int (sv_cur ?x)) w0 = (if n < length str then partly_sent E False c s cb w2
      else rbind (ngxe_callback E cb False (upd_sv b (sv_cur_update (\<lambda>_. 0)) (upd_sv b (SvOOK_off E) w2)))
        (\<lambda>w. Inr (Aftercallback, w)))"
    unfolding pv_send_def w0(6) bytes rbind_simps snd prod.case using send(2)
    by (simp add: Let_def w2_def[symmetric] w2(1) ccur)
  have step: "ngxe_writer_handler E (Write_ev c) w =
      rbind (pv_send E c s cb b (int (sv_cur ?x)) w0) (pv_loop f E c s cb b)"
    unfolding start by (subst pv_loop.simps) simp
  then show ?thesis unfolding sent using w1 w2 chop(2) by (intro exI[of _ w2]) simp
qed

text \<open>
  (C4) One call of the writer for a string conserves the data. Let the slot be in use in a world that
  satisfies the invariant, its write event not timed out, and registered or to be registered without
  an error. If \<open>send\<close> accepts \<open>n > 0\<close> bytes, these are the first \<open>n\<close> bytes of the buffer, and the
  buffer keeps exactly the rest. If that is not empty, the writer returns without calling Perl, with its
  handler in place, the event registered, and as the only timer of the event one that expires a
  whole \<open>writer_timeout\<close> from now, whether an older one was set or not, or none when the timeout is 0; if it is
  empty, the next step is the call of the Perl callback with an empty buffer.
\<close>

theorem writer_conserves:
  assumes "perl_ok E" "sv_wf (svs w b)" "\<not> sv_rok (svs w b)" "str = sv_string (svs w b)"
    and slot: "slots_ok w" "c < connection_n w" "\<not> is_free c w"
    and s: "c_data (conns w c) = Data_session s" "writer_callback (sessions w s) = Some cb"
      "writer_buffer (sessions w s) = Some b"
    and ev: "\<not> ev_timedout (get_ev (Write_ev c) w)"
      "ev_active (get_ev (Write_ev c) w) \<or> (\<forall>op m p k. fst (os_epoll_ctl E op (c_fd (conns w c)) m p k) = None)"
    and send: "os_send E (c_fd (conns w c)) str (kernel w) = (Inr n, k)" "0 < n" "n \<le> length str"
    and fuel: "loop_fuel E = Suc f"
  shows "\<exists>w'. transmitted w' = transmitted w @ [(c, take n str)] \<and> sv_string (svs w' b) = drop n str \<and>
    (if n < length str
     then ngxe_writer_handler E (Write_ev c) w = Inr w' \<and> ev_active (get_ev (Write_ev c) w') \<and>
       ev_handler (get_ev (Write_ev c) w') = ev_handler (get_ev (Write_ev c) w) \<and>
       ev_timer_set (get_ev (Write_ev c) w') = (writer_timeout (sessions w s) \<noteq> 0) \<and>
       filter (\<lambda>t. fst t = Write_ev c) (timers w') = (if writer_timeout (sessions w s) = 0 then []
         else [(Write_ev c, current_msec w + word_of_int (writer_timeout (sessions w s)))])
     else ngxe_writer_handler E (Write_ev c) w =
       rbind (rbind (ngxe_callback E cb False w') (\<lambda>w. Inr (Aftercallback, w))) (pv_loop f E c s cb b))"
proof -
  obtain w2 where step: "ngxe_writer_handler E (Write_ev c) w =
      rbind (if n < length str then partly_sent E False c s cb w2
        else rbind (ngxe_callback E cb False (upd_sv b (sv_cur_update (\<lambda>_. 0)) (upd_sv b (SvOOK_off E) w2)))
          (\<lambda>w. Inr (Aftercallback, w))) (pv_loop f E c s cb b)"
    and w2: "transmitted w2 = transmitted w @ [(c, take n str)]" "sv_string (svs w2 b) = drop n str"
      "sessions w2 = sessions w" "timers w2 = timer_delete (Write_ev c) (timers w)" "current_msec w2 = current_msec w"
      "c_fd (conns w2 c) = c_fd (conns w c)" "ev_active (get_ev (Write_ev c) w2) = ev_active (get_ev (Write_ev c) w)"
      "ev_handler (get_ev (Write_ev c) w2) = ev_handler (get_ev (Write_ev c) w)" "\<not> ev_timer_set (get_ev (Write_ev c) w2)"
    using writer_sends[OF assms(1-11) send fuel] by blast
  show ?thesis
  proof (cases "n < length str")
    case True
    let ?key = "current_msec w + word_of_int (writer_timeout (sessions w s))"
    have reg: "ev_active (get_ev (Write_ev c) w2) \<or> (\<forall>op m p k. fst (os_epoll_ctl E op (c_fd (conns w2 c)) m p k) = None)"
      "\<not> ev_timer_set (get_ev (Write_ev c) w2)" using ev(2) w2 by auto
    obtain w3 where w3: "partly_sent E False c s cb w2 = Inr (Return, w3)" "transmitted w3 = transmitted w2"
      "svs w3 = svs w2" "ev_handler (get_ev (Write_ev c) w3) = ev_handler (get_ev (Write_ev c) w2)"
      "ev_active (get_ev (Write_ev c) w3)" "ev_timer_set (get_ev (Write_ev c) w3) = (writer_timeout (sessions w s) \<noteq> 0)"
      "timers w3 = (if writer_timeout (sessions w s) = 0 then timers w2 else timer_insert (Write_ev c) ?key (timers w2))"
      using partly_sent_waits[OF reg, of False s cb] w2 by auto
    then have "ngxe_writer_handler E (Write_ev c) w = Inr w3"
      unfolding step using True by (simp add: pv_loop_return)
    moreover have "filter (\<lambda>t. fst t = Write_ev c) (timer_delete (Write_ev c) (timers w)) = []"
      by (simp add: timer_delete_def filter_empty_conv)
    ultimately show ?thesis using True w3 w2 only_new_timer[of "Write_ev c" ?key "timers w"]
      by (intro exI[of _ w3]) simp
  next
    case False
    let ?w = "upd_sv b (sv_cur_update (\<lambda>_. 0)) (upd_sv b (SvOOK_off E) w2)"
    have "sv_string (svs ?w b) = drop n str" "transmitted ?w = transmitted w2"
      using False by (simp_all add: upd_sv_def sv_string_def)
    then show ?thesis using False w2 by (intro exI[of _ ?w]) (simp add: step)
  qed
qed

theorem writer_conserves_witness:
  "\<exists>w'. ngxe_writer_handler (sample_env\<lparr>os_send := (\<lambda>fd bs k. (Inr 2, k))\<rparr>) (Write_ev 0) open_world = Inr w' \<and>
     transmitted w' = [(0, [72, 105])] \<and> sv_string (svs w' 13) = [33]"
proof -
  let ?E = "sample_env\<lparr>os_send := (\<lambda>fd bs k. (Inr 2, k))\<rparr>"
  have p: "perl_ok ?E" using sample_perl_ok by (simp add: perl_ok_def)
  have b: "svs open_world 13 = pv_sv [72, 105, 33]" by (simp add: open_world_def)
  have x: "sv_wf (svs open_world 13)" "\<not> sv_rok (svs open_world 13)" "[72, 105, 33] = sv_string (svs open_world 13)"
    by (simp_all add: b pv_sv_def sv_wf_def sv_len_def plain_sv_def sv_string_def)
  have "loop_fuel ?E = Suc 19" by (simp add: sample_env_def)
  from writer_conserves[OF p x open_world_slots(1), of 0 8192 12288 2 "([], [])", OF _ open_world_slots(2) _ _ _ _ _ _ _ _ this]
  show ?thesis by (auto simp: zero_event_def)
qed

end
