(* ===== verification/Ngxe_Client_Props.thy ===== *)
theory Ngxe_Client_Props
  imports Ngxe_Props
begin

text \<open>Two defects of \<open>ngxe_client\<close>: the local address, and what happens when the connection fails.\<close>

section \<open>The local address\<close>

text \<open>
  (C12) \<open>ngxe_client\<close> never binds its socket: every local address that it accepts (empty, with a star in front, or an IPv4
  address) gives the same result, and the peer that \<open>ngxe_create_peer\<close> makes is connected in the
  same way whatever the system call \<open>bind\<close> does.
\<close>

theorem client_ignores_bind_address:
  assumes "local_address bind_address = Some a" "local_address other = Some b"
  shows "xs_ngxe_client E bind_address = xs_ngxe_client E other \<and>
   post (\<lambda>(pr, w'). case pr of None \<Rightarrow> True | Some pc \<Rightarrow>
     ngx_event_connect_peer (E\<lparr>os_bind := f\<rparr>) pc w' = ngx_event_connect_peer E pc w')
     (ngxe_create_peer E pool a addr port w)"
proof
  show "xs_ngxe_client E bind_address = xs_ngxe_client E other"
    by (intro ext, unfold xs_ngxe_client_def client_open_def ngxe_create_peer_def assms option.case) (rule refl)
  have env: "ngx_epoll_add_connection (E\<lparr>os_bind := f\<rparr>) = ngx_epoll_add_connection E"
    "os_socket (E\<lparr>os_bind := f\<rparr>) = os_socket E" "os_setsockopt (E\<lparr>os_bind := f\<rparr>) = os_setsockopt E"
    "os_nonblocking (E\<lparr>os_bind := f\<rparr>) = os_nonblocking E" "os_connect (E\<lparr>os_bind := f\<rparr>) = os_connect E"
    "connect_failed (E\<lparr>os_bind := f\<rparr>) = connect_failed E" "ngx_close_socket (E\<lparr>os_bind := f\<rparr>) = ngx_close_socket E"
    by (simp_all add: fun_eq_iff ngx_epoll_add_connection_def connect_failed_def ngx_close_socket_def epoll_ctl_def)
  have "ngx_event_connect_peer (E\<lparr>os_bind := f\<rparr>) pc w = ngx_event_connect_peer E pc w"
    if "pr_local pc = None" for pc w
    unfolding ngx_event_connect_peer_def env that option.case by (rule refl)
  then show "post (\<lambda>(pr, w'). case pr of None \<Rightarrow> True | Some pc \<Rightarrow>
     ngx_event_connect_peer (E\<lparr>os_bind := f\<rparr>) pc w' = ngx_event_connect_peer E pc w')
     (ngxe_create_peer E pool a addr port w)"
    unfolding ngxe_create_peer_def
    by (intro post_rbind) (auto simp: post_def split: sum.split)
qed

theorem client_ignores_bind_address_witness:
  "xs_ngxe_client sample_env ''10.0.0.1'' = xs_ngxe_client sample_env ''*'' \<and>
   post (\<lambda>(pr, w'). case pr of None \<Rightarrow> True | Some pc \<Rightarrow>
     ngx_event_connect_peer (sample_env\<lparr>os_bind := (\<lambda>s a p k. (False, k))\<rparr>) pc w' = ngx_event_connect_peer sample_env pc w')
     (ngxe_create_peer sample_env (Some 4096) 0x0100000a 0x0100007f 80 open_world)"
proof -
  have "local_address ''10.0.0.1'' = Some 0x0100000a" "local_address ''*'' = Some INADDR_ANY"
    by code_simp+
  from client_ignores_bind_address[OF this] show ?thesis .
qed

section \<open>A connection that cannot be registered\<close>

lemma twice_free_not_ok:
  assumes "free_connections w = Some c" "c_data (conns w c) = Data_next c"
  shows "\<not> slots_ok w"
proof
  assume "slots_ok w"
  then obtain fs where inv: "free_path w (Some c) fs" "distinct fs"
    using assms(1) by (auto simp: slots_ok_def slots_inv_def)
  then obtain gs where "fs = c # gs" "free_path w (Some c) gs"
    using assms(2) by (cases fs) (auto simp: data_next_def)
  then show False using inv(2) by (cases gs) auto
qed

lemma epoll_add_connection_error:
  "ngx_epoll_add_connection E c w = (NGX_ERROR, w') \<Longrightarrow> \<exists>k. w' = w\<lparr>kernel := k\<rparr>"
  by (auto simp: ngx_epoll_add_connection_def epoll_ctl_def split: prod.splits option.splits ngx_rc.splits)

text \<open>\<open>ngx_event_connect_peer\<close> that fails after the slot was entered in the peer has freed the slot\<close>

lemma connect_peer_failed:
  assumes "ngx_event_connect_peer E pc w = (NGX_ERROR, pc', w')" "pr_connection pc = None" "pr_connection pc' = Some c"
  shows "free_connections w' = Some c \<and> c_fd (conns w' c) \<noteq> - 1 \<and>
    \<not> ev_timer_set (c_read (conns w' c)) \<and> \<not> ev_timer_set (c_write (conns w' c))"
proof -
  note def = assms(1)[unfolded ngx_event_connect_peer_def]
  obtain s wa where a: "with_kernel (os_socket E) w = (s, wa)" by fastforce
  have s: "s \<noteq> - 1" using def assms(2,3) by (auto simp: a)
  obtain r wb where "ngx_get_connection s wa = (r, wb)" by fastforce
  then obtain d where b: "ngx_get_connection s wa = (Some d, wb)"
    using def assms(2,3) s by (cases r) (auto simp: a)
  have cb: "conns wb d = fresh_connection s (conns wa d)"
    using b by (auto simp: ngx_get_connection_def upd_conn_def split: option.splits)
  obtain ok wc where c: "(if pr_rcvbuf pc \<noteq> 0 then with_kernel (os_setsockopt E s) wb else (True, wb)) = (ok, wc)"
    by fastforce
  obtain ok1 wd where d: "with_kernel (os_nonblocking E s) wc = (ok1, wd)" by fastforce
  obtain ok2 we where e: "(case pr_local pc of None \<Rightarrow> (True, wd) | Some a \<Rightarrow> with_kernel (os_bind E s a 0) wd) = (ok2, we)"
    by fastforce
  have ok: ok ok1 ok2 using def assms(2,3) s by (auto simp: a b c d e connect_failed_def split: if_splits)
  have "conns wc = conns wb" using c by (auto simp: with_kernel_def split: if_splits prod.splits)
  moreover have "conns wd = conns wc" using d by (auto simp: with_kernel_def split: prod.splits)
  moreover have "conns we = conns wd" using e by (auto simp: with_kernel_def split: option.splits prod.splits)
  ultimately have ce: "conns we d = fresh_connection s (conns wa d)" using cb by simp
  obtain rc wg where g: "ngx_epoll_add_connection E d (upd_conn d (c_log_error_update (\<lambda>_. pr_log_error pc)) we) = (rc, wg)"
    by fastforce
  have rc: "rc = NGX_ERROR" using def s ok
    by (auto simp: a b c d e g Let_def split: ngx_rc.splits prod.splits option.splits if_splits)
  have w': "pc' = pc\<lparr>pr_connection := Some d\<rparr>" "w' = ngx_close_socket E s (ngx_free_connection d wg)"
    using def s ok g rc by (simp_all add: a b c d e Let_def connect_failed_def)
  obtain k where "wg = (upd_conn d (c_log_error_update (\<lambda>_. pr_log_error pc)) we)\<lparr>kernel := k\<rparr>"
    using epoll_add_connection_error g rc by blast
  then show ?thesis using w' assms(3) ce s
    by (simp add: ngx_close_socket_def ngx_free_connection_def upd_conn_def fresh_connection_def zero_event_def Let_def)
qed

lemma close_again:
  assumes "free_connections w = Some c" "c_fd (conns w c) \<noteq> - 1"
    "\<not> ev_timer_set (c_read (conns w c))" "\<not> ev_timer_set (c_write (conns w c))"
  shows "\<exists>w'. ngx_close_connection E c w = Inr w' \<and> free_connections w' = Some c \<and>
    c_data (conns w' c) = Data_next c \<and> pools w' = pools w"
  using assms
  by (simp add: ngx_close_connection_def del_timer_if_set_def Let_def ngx_close_socket_def ngx_free_connection_def
      delete_posted_if_def ngx_delete_posted_event_def ngx_epoll_del_connection_close_def upd_conn_def)

text \<open>
  (C9) When the registration of a new connection with epoll fails, \<open>ngxe_client\<close> frees its
  slot twice: \<open>ngx_event_connect_peer\<close> has given the slot back but left its descriptor and the
  pointer in the peer, so that \<open>ngxe_client\<close> closes it once more after the callback. The free
  list is a cycle then, and the next two connections get the same slot.
\<close>

theorem client_frees_slot_twice:
  assumes connect: "ngx_event_connect_peer E pc w = (NGX_ERROR, pc', w1)"
      "pr_connection pc = None" "pr_connection pc' = Some c"
    and call: "set_error E cb (- 1) msg w1 = Inr w2" "ngxe_callback E cb True w2 = Inr w3"
      "conns w3 = conns w1" "free_connections w3 = free_connections w1" "pools w3 p \<noteq> None"
  shows "\<exists>w'. client_failed E (Some p) cb (pr_connection pc') msg w1 = Inr (None, w') \<and> \<not> slots_ok w' \<and>
    fst (ngx_get_connection s w') = Some c \<and>
    fst (ngx_get_connection t (snd (ngx_get_connection s w'))) = Some c"
proof -
  note 1 = connect_peer_failed[OF connect]
  obtain w4 where 4: "ngx_close_connection E c w3 = Inr w4" "free_connections w4 = Some c"
    "c_data (conns w4 c) = Data_next c" "pools w4 = pools w3"
    using close_again[of w3 c E] 1 call by auto
  obtain w5 where 5: "destroy_pool E (Some p) w4 = Inr w5" "conns w5 = conns w4" "skel w5 = skel w4"
    using destroy_pool_total[of w4 p E] 4(4) call(5) by auto
  have f: "free_connections w5 = Some c" "c_data (conns w5 c) = Data_next c"
    using 4 5 skel_eqD(6)[OF 5(3)] by simp_all
  have "client_failed E (Some p) cb (pr_connection pc') msg w1 = Inr (None, w5)"
    using call(1,2) 4(1) 5(1) connect(3) by (simp add: client_failed_def)
  moreover have "fst (ngx_get_connection s w5) = Some c"
    "fst (ngx_get_connection t (snd (ngx_get_connection s w5))) = Some c"
    using f by (simp_all add: ngx_get_connection_def upd_conn_def data_next_def)
  ultimately show ?thesis using twice_free_not_ok[OF f] by blast
qed

text \<open>The environment of the examples with an \<open>epoll_ctl\<close> that fails\<close>

definition full_epoll_env :: "(replay, addr) env" where
  "full_epoll_env = sample_env\<lparr>os_epoll_ctl := (\<lambda>op fd m p k. (Some 28, k))\<rparr>"

theorem client_frees_slot_twice_witness:
  "\<exists>w1 w'. snd (snd (ngx_event_connect_peer full_epoll_env \<lparr>pr_connection = None, pr_addr = 1, pr_port = 80,
        pr_local = None, pr_rcvbuf = 0, pr_log_error = NGX_ERROR_ERR\<rparr> open_world)) = w1 \<and>
     client_failed full_epoll_env (Some 4096) 12288 (Some 1) ''Connection failed'' w1 = Inr (None, w') \<and> \<not> slots_ok w'"
proof -
  let ?E = "full_epoll_env"
  let ?pc = "\<lparr>pr_connection = None, pr_addr = 1, pr_port = 80, pr_local = None, pr_rcvbuf = 0, pr_log_error = NGX_ERROR_ERR\<rparr>"
  obtain w1 where 1: "ngx_event_connect_peer ?E ?pc open_world = (NGX_ERROR, ?pc\<lparr>pr_connection := Some 1\<rparr>, w1)"
    "callbacks w1 12288 = sample_callback" "pools w1 4096 \<noteq> None"
    by (simp add: ngx_event_connect_peer_def full_epoll_env_def sample_env_def with_kernel_def ngx_get_connection_def
        ngx_epoll_add_connection_def epoll_ctl_def connect_failed_def ngx_close_socket_def ngx_free_connection_def
        Let_def upd_conn_def)
  obtain w2 where 2: "set_error ?E 12288 (- 1) ''Connection failed'' w1 = Inr w2" "callbacks w2 = callbacks w1"
    "conns w2 = conns w1" "free_connections w2 = free_connections w1" "pools w2 = pools w1"
    using 1(2) by (simp add: set_error_def nth_arg_def sample_callback_def upd_sv_def)
  have "p_call_sv ?E = (\<lambda>h args. Inr)" by (simp add: full_epoll_env_def sample_env_def fun_eq_iff)
  then obtain w3 where 3: "ngxe_callback ?E 12288 True w2 = Inr w3" "conns w3 = conns w2"
    "free_connections w3 = free_connections w2" "pools w3 = pools w2"
    using idle_callback[of ?E w2 12288 1 True] 1(2) 2(2) by (auto simp: sample_callback_def)
  have "\<exists>w'. client_failed ?E (Some 4096) 12288 (Some 1) ''Connection failed'' w1 = Inr (None, w') \<and> \<not> slots_ok w'"
    using client_frees_slot_twice[OF 1(1) _ _ 2(1) 3(1), of 1 4096] 1(3) 2 3 by auto
  then show ?thesis using 1(1) by simp
qed

end
