(* ===== verification/Ngx_Base64.thy ===== *)
theory Ngx_Base64
  imports Ngx_Prelude
begin

text \<open>
  Base64, \<open>ngx_encode_base64\<close> and \<open>ngx_decode_base64\<close> of \<open>src/nginx/src/core/ngx_string.c\<close>. A
  \<open>ngx_str_t\<close> is the list of its bytes; the result is what the functions store at \<open>dst->data\<close>.
\<close>

section \<open>Encoding\<close>

definition ascii :: "string \<Rightarrow> byte list" where
  "ascii s = map of_char s"

definition basis64 :: "byte list" where
  "basis64 = ascii ''ABCDEFGHIJKLMNOPQRSTUVWXYZabcdefghijklmnopqrstuvwxyz0123456789+/''"

definition enc64 :: "byte \<Rightarrow> byte" where
  "enc64 i = basis64 ! unat i"

fun ngx_encode_base64 :: "byte list \<Rightarrow> byte list" where
  "ngx_encode_base64 (a # b # c # s) =
     enc64 (drop_bit 2 a AND 0x3f) # enc64 (push_bit 4 (a AND 3) OR drop_bit 4 b) #
     enc64 (push_bit 2 (b AND 0x0f) OR drop_bit 6 c) # enc64 (c AND 0x3f) # ngx_encode_base64 s"
| "ngx_encode_base64 [a, b] =
     [enc64 (drop_bit 2 a AND 0x3f), enc64 (push_bit 4 (a AND 3) OR drop_bit 4 b),
      enc64 (push_bit 2 (b AND 0x0f)), 0x3d]"
| "ngx_encode_base64 [a] = [enc64 (drop_bit 2 a AND 0x3f), enc64 (push_bit 4 (a AND 3)), 0x3d, 0x3d]"
| "ngx_encode_base64 [] = []"

definition ngx_base64_encoded_length :: "nat \<Rightarrow> nat" where
  "ngx_base64_encoded_length len = (len + 2) div 3 * 4"

definition ngx_base64_decoded_length :: "nat \<Rightarrow> nat" where
  "ngx_base64_decoded_length len = (len + 3) div 4 * 3"

section \<open>Decoding\<close>

definition basis64_decode :: "byte list" where
  "basis64_decode =
     [77, 77, 77, 77, 77, 77, 77, 77, 77, 77, 77, 77, 77, 77, 77, 77,
      77, 77, 77, 77, 77, 77, 77, 77, 77, 77, 77, 77, 77, 77, 77, 77,
      77, 77, 77, 77, 77, 77, 77, 77, 77, 77, 77, 62, 77, 77, 77, 63,
      52, 53, 54, 55, 56, 57, 58, 59, 60, 61, 77, 77, 77, 77, 77, 77,
      77, 0, 1, 2, 3, 4, 5, 6, 7, 8, 9, 10, 11, 12, 13, 14,
      15, 16, 17, 18, 19, 20, 21, 22, 23, 24, 25, 77, 77, 77, 77, 77,
      77, 26, 27, 28, 29, 30, 31, 32, 33, 34, 35, 36, 37, 38, 39, 40,
      41, 42, 43, 44, 45, 46, 47, 48, 49, 50, 51, 77, 77, 77, 77, 77,
      77, 77, 77, 77, 77, 77, 77, 77, 77, 77, 77, 77, 77, 77, 77, 77,
      77, 77, 77, 77, 77, 77, 77, 77, 77, 77, 77, 77, 77, 77, 77, 77,
      77, 77, 77, 77, 77, 77, 77, 77, 77, 77, 77, 77, 77, 77, 77, 77,
      77, 77, 77, 77, 77, 77, 77, 77, 77, 77, 77, 77, 77, 77, 77, 77,
      77, 77, 77, 77, 77, 77, 77, 77, 77, 77, 77, 77, 77, 77, 77, 77,
      77, 77, 77, 77, 77, 77, 77, 77, 77, 77, 77, 77, 77, 77, 77, 77,
      77, 77, 77, 77, 77, 77, 77, 77, 77, 77, 77, 77, 77, 77, 77, 77,
      77, 77, 77, 77, 77, 77, 77, 77, 77, 77, 77, 77, 77, 77, 77, 77]"

definition basis64url_decode :: "byte list" where
  "basis64url_decode =
     [77, 77, 77, 77, 77, 77, 77, 77, 77, 77, 77, 77, 77, 77, 77, 77,
      77, 77, 77, 77, 77, 77, 77, 77, 77, 77, 77, 77, 77, 77, 77, 77,
      77, 77, 77, 77, 77, 77, 77, 77, 77, 77, 77, 77, 77, 62, 77, 77,
      52, 53, 54, 55, 56, 57, 58, 59, 60, 61, 77, 77, 77, 77, 77, 77,
      77, 0, 1, 2, 3, 4, 5, 6, 7, 8, 9, 10, 11, 12, 13, 14,
      15, 16, 17, 18, 19, 20, 21, 22, 23, 24, 25, 77, 77, 77, 77, 63,
      77, 26, 27, 28, 29, 30, 31, 32, 33, 34, 35, 36, 37, 38, 39, 40,
      41, 42, 43, 44, 45, 46, 47, 48, 49, 50, 51, 77, 77, 77, 77, 77,
      77, 77, 77, 77, 77, 77, 77, 77, 77, 77, 77, 77, 77, 77, 77, 77,
      77, 77, 77, 77, 77, 77, 77, 77, 77, 77, 77, 77, 77, 77, 77, 77,
      77, 77, 77, 77, 77, 77, 77, 77, 77, 77, 77, 77, 77, 77, 77, 77,
      77, 77, 77, 77, 77, 77, 77, 77, 77, 77, 77, 77, 77, 77, 77, 77,
      77, 77, 77, 77, 77, 77, 77, 77, 77, 77, 77, 77, 77, 77, 77, 77,
      77, 77, 77, 77, 77, 77, 77, 77, 77, 77, 77, 77, 77, 77, 77, 77,
      77, 77, 77, 77, 77, 77, 77, 77, 77, 77, 77, 77, 77, 77, 77, 77,
      77, 77, 77, 77, 77, 77, 77, 77, 77, 77, 77, 77, 77, 77, 77, 77]"

text \<open>The first loop: the number of characters before the padding, or an error\<close>

fun base64_scan :: "byte list \<Rightarrow> byte list \<Rightarrow> nat \<Rightarrow> nat option" where
  "base64_scan basis [] len = Some len"
| "base64_scan basis (c # s) len =
     (if c = 0x3d then Some len
      else if basis ! unat c = 77 then None
      else base64_scan basis s (len + 1))"

fun base64_decode_loop :: "byte list \<Rightarrow> byte list \<Rightarrow> byte list" where
  "base64_decode_loop basis (a # b # c # d # s) =
     (push_bit 2 (basis ! unat a) OR drop_bit 4 (basis ! unat b)) #
     (push_bit 4 (basis ! unat b) OR drop_bit 2 (basis ! unat c)) #
     (push_bit 6 (basis ! unat c) OR basis ! unat d) # base64_decode_loop basis s"
| "base64_decode_loop basis [a, b, c] =
     [push_bit 2 (basis ! unat a) OR drop_bit 4 (basis ! unat b),
      push_bit 4 (basis ! unat b) OR drop_bit 2 (basis ! unat c)]"
| "base64_decode_loop basis [a, b] = [push_bit 2 (basis ! unat a) OR drop_bit 4 (basis ! unat b)]"
| "base64_decode_loop basis s = []"

definition ngx_decode_base64_internal :: "byte list \<Rightarrow> byte list \<Rightarrow> byte list option" where
  "ngx_decode_base64_internal basis src =
     (case base64_scan basis src 0 of
        None \<Rightarrow> None
      | Some len \<Rightarrow> if len mod 4 = 1 then None else Some (base64_decode_loop basis (take len src)))"

definition ngx_decode_base64 :: "byte list \<Rightarrow> byte list option" where
  "ngx_decode_base64 src = ngx_decode_base64_internal basis64_decode src"

definition ngx_decode_base64url :: "byte list \<Rightarrow> byte list option" where
  "ngx_decode_base64url src = ngx_decode_base64_internal basis64url_decode src"

section \<open>The tables\<close>

lemma tables: "map (\<lambda>c. basis64_decode ! unat c) basis64 = map of_nat [0..<64]" "0x3d \<notin> set basis64" "length basis64 = 64"
proof -
  have "map of_nat [0..<64] = [0, 1, 2, 3, 4, 5, 6, 7, 8, 9, 10, 11, 12, 13, 14, 15, 16, 17, 18, 19, 20, 21, 22, 23, 24, 25, 26, 27, 28, 29, 30, 31,
    32, 33, 34, 35, 36, 37, 38, 39, 40, 41, 42, 43, 44, 45, 46, 47, 48, 49, 50, 51, 52, 53, 54, 55, 56, 57, 58, 59, 60, 61, 62, 63 :: byte]" by code_simp
  then show "map (\<lambda>c. basis64_decode ! unat c) basis64 = map of_nat [0..<64]"
    by (simp add: basis64_def ascii_def basis64_decode_def)
qed (simp_all add: basis64_def ascii_def)

lemma dec_enc64 [simp]:
  assumes "unat i < 64"
  shows "basis64_decode ! unat (enc64 i) = i" "enc64 i \<noteq> 0x3d" "basis64_decode ! unat (enc64 i) \<noteq> 77"
proof -
  show "enc64 i \<noteq> 0x3d" using tables(2,3) assms nth_mem[of "unat i" basis64] unfolding enc64_def by metis
  have "map (\<lambda>c. basis64_decode ! unat c) basis64 ! unat i = map of_nat [0..<64] ! unat i" by (simp only: tables)
  then show "basis64_decode ! unat (enc64 i) = i" using assms tables(3) by (simp add: enc64_def)
  moreover have "i \<noteq> 77" using assms by auto
  ultimately show "basis64_decode ! unat (enc64 i) \<noteq> 77" by simp
qed

section \<open>Groups of three bytes\<close>

lemma masks: "(0x3f::byte) = mask 6" "(0x0f::byte) = mask 4" "(3::byte) = mask 2"
  by (simp_all add: mask_eq_exp_minus_1)

lemma byte_eqI:
  "\<forall>n\<in>{0, 1, 2, 3, 4, 5, 6, 7}. bit x n = bit y n \<Longrightarrow> (x::byte) = y"
proof (rule bit_word_eqI)
  fix n assume "\<forall>n\<in>{0, 1, 2, 3, 4, 5, 6, 7}. bit x n = bit y n" "n < LENGTH(8)"
  moreover from this(2) have "n \<in> {0, 1, 2, 3, 4, 5, 6, 7}" by auto
  ultimately show "bit x n = bit y n" by blast
qed

lemma bit_byte_ge [simp]: "8 \<le> n \<Longrightarrow> \<not> bit (x::byte) n"
  using bit_imp_le_length[of x n] by auto

lemma unat_less_64:
  assumes "take_bit 6 i = i"
  shows "unat (i::byte) < 64"
proof -
  have "unat i = take_bit 6 (unat i)" using assms by (metis unsigned_take_bit_eq)
  then show ?thesis using take_bit_nat_less_exp[of 6 "unat i"] by simp
qed

lemma sextets:
  fixes a b c :: byte
  shows "unat (drop_bit 2 a AND 0x3f) < 64" "unat (push_bit 4 (a AND 3) OR drop_bit 4 b) < 64"
    "unat (push_bit 2 (b AND 0x0f) OR drop_bit 6 c) < 64" "unat (c AND 0x3f) < 64"
    "unat (push_bit 4 (a AND 3)) < 64" "unat (push_bit 2 (b AND 0x0f)) < 64"
  by (rule unat_less_64, rule byte_eqI, simp add: masks bit_simps)+

lemma octets:
  fixes a b c :: byte
  shows "push_bit 2 (drop_bit 2 a AND 0x3f) OR drop_bit 4 (push_bit 4 (a AND 3) OR drop_bit 4 b) = a"
    "push_bit 4 (push_bit 4 (a AND 3) OR drop_bit 4 b) OR drop_bit 2 (push_bit 2 (b AND 0x0f) OR drop_bit 6 c) = b"
    "push_bit 6 (push_bit 2 (b AND 0x0f) OR drop_bit 6 c) OR (c AND 0x3f) = c"
    "push_bit 2 (drop_bit 2 a AND 0x3f) OR drop_bit 4 (push_bit 4 (a AND 3)) = a"
    "push_bit 4 (push_bit 4 (a AND 3) OR drop_bit 4 b) OR drop_bit 2 (push_bit 2 (b AND 0x0f)) = b"
  by (rule byte_eqI, (simp add: masks bit_simps; simp add: numeral_2_eq_2 numeral_3_eq_3))+

section \<open>Round trip\<close>

lemma decode_quad:
  assumes "unat i < 64" "unat j < 64" "unat k < 64"
  shows "unat l < 64 \<Longrightarrow> base64_decode_loop basis64_decode (enc64 i # enc64 j # enc64 k # enc64 l # p) =
      (push_bit 2 i OR drop_bit 4 j) # (push_bit 4 j OR drop_bit 2 k) # (push_bit 6 k OR l) # base64_decode_loop basis64_decode p"
    "base64_decode_loop basis64_decode [enc64 i, enc64 j, enc64 k] = [push_bit 2 i OR drop_bit 4 j, push_bit 4 j OR drop_bit 2 k]"
    "base64_decode_loop basis64_decode [enc64 i, enc64 j] = [push_bit 2 i OR drop_bit 4 j]"
  using assms by simp_all

definition digit64 :: "byte \<Rightarrow> bool" where
  "digit64 c \<longleftrightarrow> c \<noteq> 0x3d \<and> basis64_decode ! unat c \<noteq> 77"

lemma enc64_digit: "unat i < 64 \<Longrightarrow> digit64 (enc64 i)"
  using dec_enc64 unfolding digit64_def by blast

lemma scan_ok: "list_all digit64 p \<Longrightarrow> base64_scan basis64_decode (p @ q) n = base64_scan basis64_decode q (n + length p)"
  by (induction p arbitrary: n) (auto simp: digit64_def)

lemma encode_split:
  "\<exists>p k. ngx_encode_base64 s = p @ replicate k 0x3d \<and> k < 3 \<and> length p mod 4 \<noteq> 1 \<and>
     list_all digit64 p \<and> base64_decode_loop basis64_decode p = s"
proof (induction s rule: ngx_encode_base64.induct)
  case (1 a b c s)
  then obtain p k where p: "ngx_encode_base64 s = p @ replicate k 0x3d" "k < 3" "length p mod 4 \<noteq> 1"
    "list_all digit64 p" "base64_decode_loop basis64_decode p = s" by blast
  let ?q = "[enc64 (drop_bit 2 a AND 0x3f), enc64 (push_bit 4 (a AND 3) OR drop_bit 4 b),
     enc64 (push_bit 2 (b AND 0x0f) OR drop_bit 6 c), enc64 (c AND 0x3f)]"
  have "length (?q @ p) mod 4 \<noteq> 1" using p(3) by simp
  moreover have "base64_decode_loop basis64_decode (?q @ p) = a # b # c # s"
    using decode_quad(1)[OF sextets(1)[of a] sextets(2)[of a b] sextets(3)[of b c] sextets(4)[of c], of p] p(5) unfolding octets append_Cons append_Nil by simp
  moreover have "list_all digit64 (?q @ p)"
    using p(4) by (simp only: list_all_append list.pred_inject enc64_digit sextets simp_thms)
  ultimately show ?case using p(1,2) by (intro exI[of _ "?q @ p"] exI[of _ k]) simp
next
  case (2 a b)
  let ?q = "[enc64 (drop_bit 2 a AND 0x3f), enc64 (push_bit 4 (a AND 3) OR drop_bit 4 b), enc64 (push_bit 2 (b AND 0x0f))]"
  have "base64_decode_loop basis64_decode ?q = [a, b]"
    using decode_quad(2)[OF sextets(1)[of a] sextets(2)[of a b] sextets(6)[of b]] unfolding octets .
  moreover have "list_all digit64 ?q"
    by (simp only: list.pred_inject enc64_digit sextets simp_thms)
  moreover have "ngx_encode_base64 [a, b] = ?q @ replicate 1 0x3d" by simp
  moreover have "length ?q mod 4 \<noteq> 1" by simp
  ultimately show ?case by (intro exI[of _ ?q] exI[of _ 1]) simp
next
  case (3 a)
  let ?q = "[enc64 (drop_bit 2 a AND 0x3f), enc64 (push_bit 4 (a AND 3))]"
  have "base64_decode_loop basis64_decode ?q = [a]"
    using decode_quad(3)[OF sextets(1)[of a] sextets(5)[of a] sextets(5)] unfolding octets .
  moreover have "list_all digit64 ?q"
    by (simp only: list.pred_inject enc64_digit sextets simp_thms)
  moreover have "ngx_encode_base64 [a] = ?q @ replicate 2 0x3d" by (simp add: numeral_2_eq_2)
  moreover have "length ?q mod 4 \<noteq> 1" by simp
  ultimately show ?case by (intro exI[of _ ?q] exI[of _ 2]) simp
qed simp

text \<open>
  (C25) Decoding what \<open>ngx_encode_base64\<close> writes gives the original bytes, and the encoded text has exactly
  the length that \<open>ngx_base64_encoded_length\<close> reserves for it.
\<close>

theorem base64_roundtrip:
  "ngx_decode_base64 (ngx_encode_base64 s) = Some s \<and>
   length (ngx_encode_base64 s) = ngx_base64_encoded_length (length s)"
proof -
  obtain p k where p: "ngx_encode_base64 s = p @ replicate k 0x3d" "length p mod 4 \<noteq> 1"
    "list_all digit64 p" "base64_decode_loop basis64_decode p = s"
    using encode_split by blast
  have "base64_scan basis64_decode (replicate k 0x3d) n = Some n" for n by (cases k) simp_all
  then have "base64_scan basis64_decode (p @ replicate k 0x3d) 0 = Some (length p)" by (simp add: scan_ok[OF p(3)])
  then have "ngx_decode_base64 (ngx_encode_base64 s) = Some s"
    using p by (simp add: ngx_decode_base64_def ngx_decode_base64_internal_def)
  moreover have "length (ngx_encode_base64 s) = ngx_base64_encoded_length (length s)"
    by (induction s rule: ngx_encode_base64.induct) (simp_all add: ngx_base64_encoded_length_def, presburger)
  ultimately show ?thesis ..
qed

lemma scan_prefix:
  "base64_scan basis s n = Some m \<Longrightarrow> n \<le> m \<and> m - n \<le> length s \<and>
     take (m - n) s = takeWhile (\<lambda>c. c \<noteq> 0x3d) s \<and> (\<forall>c\<in>set (take (m - n) s). basis ! unat c \<noteq> 77)"
proof (induction basis s n rule: base64_scan.induct)
  case (2 basis c s n)
  then show ?case by (auto simp: take_Cons' split: if_splits)
qed simp

lemma decode_loop_length: "length (base64_decode_loop basis s) = length s * 3 div 4"
  by (induction basis s rule: base64_decode_loop.induct) simp_all

text \<open>
  (C33) Whatever the text, the decoders never write more bytes than \<open>ngx_base64_decoded_length\<close> reserves, and
  exactly three quarters of the characters in front of the padding, rounded down.
\<close>

theorem base64_decode_bounds:
  assumes "ngx_decode_base64_internal basis src = Some dst"
  shows "length dst \<le> ngx_base64_decoded_length (length src) \<and>
    length dst = length (takeWhile (\<lambda>c. c \<noteq> 0x3d) src) * 3 div 4"
proof -
  obtain len where len: "base64_scan basis src 0 = Some len" "dst = base64_decode_loop basis (take len src)"
    using assms by (auto simp: ngx_decode_base64_internal_def split: option.splits if_splits)
  have "length dst = length (takeWhile (\<lambda>c. c \<noteq> 0x3d) src) * 3 div 4"
    using scan_prefix[OF len(1)] len(2) by (simp add: decode_loop_length)
  moreover have "length (takeWhile (\<lambda>c. c \<noteq> 0x3d) src) \<le> length src" by (rule length_takeWhile_le)
  ultimately show ?thesis by (simp add: ngx_base64_decoded_length_def)
qed

theorem base64_decode_bounds_witness:
  "ngx_decode_base64_internal basis64url_decode [0x2d, 0x5f, 0x41] = Some [0xfb, 0xf0] \<and>
   length [0xfb, 0xf0::byte] \<le> ngx_base64_decoded_length (length [0x2d, 0x5f, 0x41::byte])"
proof -
  have "ngx_decode_base64_internal basis64url_decode [0x2d, 0x5f, 0x41] = Some [0xfb, 0xf0]" by code_simp
  from base64_decode_bounds[OF this] this show ?thesis by simp
qed

end
