(* ===== verification/Ngx_Uri.thy ===== *)
theory Ngx_Uri
  imports Ngx_Prelude
begin

text \<open>
  Escaping of URIs and HTML, \<open>ngx_escape_uri\<close>, \<open>ngx_unescape_uri\<close> and \<open>ngx_escape_html\<close> of
  \<open>src/nginx/src/core/ngx_string.c\<close>. The functions are given the bytes of the source and return what they
  write; source and destination are different buffers.
\<close>

section \<open>Escaping\<close>

definition uri_escapes :: "32 word list" where
  "uri_escapes = [0xffffffff, 0x80000029, 0x00000000, 0x80000000, 0xffffffff, 0xffffffff, 0xffffffff, 0xffffffff]"

definition args_escapes :: "32 word list" where
  "args_escapes = [0xffffffff, 0x88000869, 0x00000000, 0x80000000, 0xffffffff, 0xffffffff, 0xffffffff, 0xffffffff]"

definition html_escapes :: "32 word list" where
  "html_escapes = [0xffffffff, 0x000000ad, 0x00000000, 0x80000000, 0xffffffff, 0xffffffff, 0xffffffff, 0xffffffff]"

definition refresh_escapes :: "32 word list" where
  "refresh_escapes = [0xffffffff, 0x00000085, 0x00000000, 0x80000000, 0xffffffff, 0xffffffff, 0xffffffff, 0xffffffff]"

definition memcached_escapes :: "32 word list" where
  "memcached_escapes = [0xffffffff, 0x00000021, 0x00000000, 0x00000000, 0x00000000, 0x00000000, 0x00000000, 0x00000000]"

definition escape_map :: "32 word list list" where
  "escape_map = [uri_escapes, args_escapes, html_escapes, refresh_escapes, memcached_escapes, memcached_escapes]"

definition escapes :: "32 word list \<Rightarrow> byte \<Rightarrow> bool" where
  "escapes escape c \<longleftrightarrow> escape ! unat (drop_bit 5 c) AND push_bit (unat (c AND 0x1f)) 1 \<noteq> 0"

definition hex :: "byte \<Rightarrow> byte" where
  "hex n = map of_char ''0123456789abcdef'' ! unat n"

text \<open>\<open>dst == NULL\<close>: the number of the characters to be escaped\<close>

fun escape_uri_count :: "32 word list \<Rightarrow> byte list \<Rightarrow> nat" where
  "escape_uri_count escape [] = 0"
| "escape_uri_count escape (c # src) = (if escapes escape c then 1 else 0) + escape_uri_count escape src"

fun escape_uri_loop :: "32 word list \<Rightarrow> byte list \<Rightarrow> byte list" where
  "escape_uri_loop escape [] = []"
| "escape_uri_loop escape (c # src) =
     (if escapes escape c then [0x25, hex (drop_bit 4 c), hex (c AND 0xf)] else [c]) @ escape_uri_loop escape src"

definition ngx_escape_uri_count :: "byte list \<Rightarrow> nat \<Rightarrow> nat" where
  "ngx_escape_uri_count src type = escape_uri_count (escape_map ! type) src"

definition ngx_escape_uri :: "byte list \<Rightarrow> nat \<Rightarrow> byte list" where
  "ngx_escape_uri src type = escape_uri_loop (escape_map ! type) src"

section \<open>Unescaping\<close>

datatype unescape_state = Sw_usual | Sw_quoted | Sw_quoted_second

definition NGX_UNESCAPE_URI :: "64 word" where "NGX_UNESCAPE_URI = 1"
definition NGX_UNESCAPE_REDIRECT :: "64 word" where "NGX_UNESCAPE_REDIRECT = 2"

text \<open>
  The loop; \<open>prev\<close> is \<open>*(s - 2)\<close>. The result is what is written to \<open>dst\<close> and what is left of
  the source at \<open>done\<close>.
\<close>

fun unescape_loop ::
  "64 word \<Rightarrow> unescape_state \<Rightarrow> byte \<Rightarrow> byte \<Rightarrow> byte list \<Rightarrow> byte list \<times> byte list" where
  "unescape_loop type state decoded prev [] = ([], [])"
| "unescape_loop type Sw_usual decoded prev (ch # s) =
     (if ch = 0x3f \<and> type AND (NGX_UNESCAPE_URI OR NGX_UNESCAPE_REDIRECT) \<noteq> 0 then ([ch], s)
      else if ch = 0x25 then unescape_loop type Sw_quoted decoded ch s
      else apfst (Cons ch) (unescape_loop type Sw_usual decoded ch s))"
| "unescape_loop type Sw_quoted decoded prev (ch # s) =
     (if 0x30 \<le> ch \<and> ch \<le> 0x39 then unescape_loop type Sw_quoted_second (ch - 0x30) ch s
      else
        let c = ch OR 0x20 in
        if 0x61 \<le> c \<and> c \<le> 0x66 then unescape_loop type Sw_quoted_second (c - 0x61 + 10) ch s
        else apfst (Cons ch) (unescape_loop type Sw_usual decoded ch s))"
| "unescape_loop type Sw_quoted_second decoded prev (ch0 # s) =
     (let emit = (\<lambda>out. apfst (append out) (unescape_loop type Sw_usual decoded ch0 s)) in
      if 0x30 \<le> ch0 \<and> ch0 \<le> 0x39 then
        let ch = push_bit 4 decoded + ch0 - 0x30 in
        if type AND NGX_UNESCAPE_REDIRECT \<noteq> 0 then
          (if 0x25 < ch \<and> ch < 0x7f then emit [ch] else emit [0x25, prev, ch0])
        else emit [ch]
      else
        let c = ch0 OR 0x20 in
        if 0x61 \<le> c \<and> c \<le> 0x66 then
          let ch = push_bit 4 decoded + c - 0x61 + 10 in
          if type AND NGX_UNESCAPE_URI \<noteq> 0 then
            (if ch = 0x3f then ([ch], s) else emit [ch])
          else if type AND NGX_UNESCAPE_REDIRECT \<noteq> 0 then
            (if ch = 0x3f then ([ch], s)
             else if 0x25 < ch \<and> ch < 0x7f then emit [ch]
             else emit [0x25, prev, ch0])
          else emit [ch]
        else emit [])"

definition ngx_unescape_uri :: "byte list \<Rightarrow> 64 word \<Rightarrow> byte list \<times> byte list" where
  "ngx_unescape_uri src type = unescape_loop type Sw_usual 0 0 src"

section \<open>HTML\<close>

fun ngx_escape_html_len :: "byte list \<Rightarrow> nat" where
  "ngx_escape_html_len [] = 0"
| "ngx_escape_html_len (c # src) =
     (if c = 0x3c then 5 - 2 else if c = 0x3e then 5 - 2 else if c = 0x26 then 6 - 2 else 0) + ngx_escape_html_len src"

fun ngx_escape_html :: "byte list \<Rightarrow> byte list" where
  "ngx_escape_html [] = []"
| "ngx_escape_html (ch # src) =
     (if ch = 0x3c then map of_char ''&lt;''
      else if ch = 0x3e then map of_char ''&gt;''
      else if ch = 0x26 then map of_char ''&amp;''
      else [ch]) @ ngx_escape_html src"

section \<open>Single bytes\<close>

lemma hex_nibble:
  "\<forall>n\<in>set [0..<16]. let h = hex (of_nat n) in
     (0x30 \<le> h \<and> h \<le> 0x39 \<and> h - 0x30 = of_nat n \<or>
      \<not> (0x30 \<le> h \<and> h \<le> 0x39) \<and> h OR 0x20 = h \<and> 0x61 \<le> h \<and> h \<le> 0x66 \<and> h - 0x61 + 10 = of_nat n) \<and>
     h \<noteq> 0x25"
  by code_simp

lemma hex_digit:
  assumes "unat n < 16"
  shows "0x30 \<le> hex n \<and> hex n \<le> 0x39 \<and> hex n - 0x30 = n \<or>
    \<not> (0x30 \<le> hex n \<and> hex n \<le> 0x39) \<and> hex n OR 0x20 = hex n \<and> 0x61 \<le> hex n \<and> hex n \<le> 0x66 \<and> hex n - 0x61 + 10 = n"
  using bspec[OF hex_nibble, of "unat n"] assms by (simp add: Let_def)

section \<open>Round trip\<close>

lemma unescape_state_irrelevant:
  "unescape_loop type Sw_usual d p s = unescape_loop type Sw_usual 0 0 s \<and>
   unescape_loop type Sw_quoted d p s = unescape_loop type Sw_quoted 0 0 s"
proof (induction s arbitrary: d p)
  case (Cons ch s)
  define u q where "u = unescape_loop type Sw_usual 0 0 s" "q = unescape_loop type Sw_quoted 0 0 s"
  then have "unescape_loop type Sw_usual d p s = u" "unescape_loop type Sw_quoted d p s = q" for d p
    using Cons by blast+
  then show ?case by (simp add: Let_def)
qed simp

lemma unescape_quoted:
  assumes "type AND NGX_UNESCAPE_REDIRECT = 0" "type AND NGX_UNESCAPE_URI = 0 \<or> c \<noteq> 0x3f"
  shows "unescape_loop type Sw_usual d p (0x25 # hex (drop_bit 4 c) # hex (c AND 0xf) # s) =
    apfst (Cons c) (unescape_loop type Sw_usual 0 0 s)"
proof -
  let ?h = "hex (drop_bit 4 c)" and ?l = "hex (c AND 0xf)"
  note h = hex_digit[OF byte_nibbles(1)[of c]] and l = hex_digit[OF byte_nibbles(2)[of c]]
  define u where "u = unescape_loop type Sw_usual 0 0 s"
  then have u: "unescape_loop type Sw_usual d p s = u" for d p using unescape_state_irrelevant by blast
  have "unescape_loop type Sw_usual d p (0x25 # ?h # ?l # s) = unescape_loop type Sw_quoted d 0x25 (?h # ?l # s)" by simp
  also have "\<dots> = unescape_loop type Sw_quoted_second (drop_bit 4 c) ?h (?l # s)"
    using h by (elim disjE) (simp_all only: unescape_loop.simps Let_def if_True if_False simp_thms)
  also have "\<dots> = apfst (Cons c) u"
    using l
  proof
    assume a: "0x30 \<le> ?l \<and> ?l \<le> 0x39 \<and> ?l - 0x30 = c AND 0xf"
    then have "push_bit 4 (drop_bit 4 c) + ?l - 0x30 = c" using byte_nibbles(4)[of c] by (metis add_diff_eq)
    then show ?thesis using a assms(1) by (simp only: unescape_loop.simps Let_def u) simp
  next
    assume a: "\<not> (0x30 \<le> ?l \<and> ?l \<le> 0x39) \<and> ?l OR 0x20 = ?l \<and> 0x61 \<le> ?l \<and> ?l \<le> 0x66 \<and> ?l - 0x61 + 10 = c AND 0xf"
    then have "push_bit 4 (drop_bit 4 c) + ?l - 0x61 + 10 = c" using byte_nibbles(4)[of c] by (metis add_diff_eq add.assoc)
    then show ?thesis using a assms by (simp only: unescape_loop.simps Let_def u) auto
  qed
  finally show ?thesis by (simp add: u)
qed

lemma percent_escaped: "type < 6 \<Longrightarrow> type \<noteq> 3 \<Longrightarrow> escapes (escape_map ! type) 0x25"
proof -
  have "list_all (\<lambda>i. i = 3 \<or> escapes (escape_map ! i) 0x25) [0..<6]" by code_simp
  then show "type < 6 \<Longrightarrow> type \<noteq> 3 \<Longrightarrow> escapes (escape_map ! type) 0x25" by (auto simp: list_all_iff)
qed

text \<open>
  (C26) Unescaping what \<open>ngx_escape_uri\<close> wrote gives the original bytes, for every table of \<open>ngx_escape_uri\<close>
  but the one of \<open>NGX_ESCAPE_REFRESH\<close> (number 3), which does not escape the percent sign, and for unescaping without \<open>NGX_UNESCAPE_REDIRECT\<close>; with \<open>NGX_UNESCAPE_URI\<close>, which stops at a question
  mark, provided that there is none.
\<close>

theorem unescape_escape:
  assumes "type < 6" "type \<noteq> 3" "utype AND NGX_UNESCAPE_REDIRECT = 0" "utype AND NGX_UNESCAPE_URI = 0 \<or> 0x3f \<notin> set src"
  shows "ngx_unescape_uri (ngx_escape_uri src type) utype = (src, [])"
proof -
  have "unescape_loop utype Sw_usual 0 0 (escape_uri_loop (escape_map ! type) src) = (src, [])"
    using assms(4)
  proof (induction src)
    case (Cons c src)
    then have IH: "unescape_loop utype Sw_usual 0 0 (escape_uri_loop (escape_map ! type) src) = (src, [])" by auto
    have c: "utype AND NGX_UNESCAPE_URI = 0 \<or> c \<noteq> 0x3f" using Cons.prems by auto
    show ?case
    proof (cases "escapes (escape_map ! type) c")
      case True
      then show ?thesis using unescape_quoted[OF assms(3) c] IH by simp
    next
      case False
      then have "c \<noteq> 0x25" using percent_escaped[OF assms(1,2)] by auto
      moreover have "utype AND (NGX_UNESCAPE_URI OR NGX_UNESCAPE_REDIRECT) = 0 \<or> c \<noteq> 0x3f"
        using c assms(3) by (auto simp: bit.conj_disj_distrib)
      moreover have "unescape_loop utype Sw_usual 0 c (escape_uri_loop (escape_map ! type) src) = (src, [])"
        using IH unescape_state_irrelevant[of utype 0 c] by simp
      ultimately show ?thesis using False by auto
    qed
  qed simp
  then show ?thesis by (simp add: ngx_unescape_uri_def ngx_escape_uri_def)
qed

text \<open>
  The table of \<open>NGX_ESCAPE_REFRESH\<close> leaves the percent sign as it is: the three bytes \<open>%41\<close> stay the same
  when they are escaped, and unescaping then gives the letter \<open>A\<close>.
\<close>

theorem refresh_keeps_percent:
  "ngx_escape_uri [0x25, 0x34, 0x31] 3 = [0x25, 0x34, 0x31] \<and>
   ngx_unescape_uri (ngx_escape_uri [0x25, 0x34, 0x31] 3) 0 = ([0x41], [])"
  by code_simp

lemma hex_plain: "\<forall>n\<in>set [0..<16]. list_all (\<lambda>t. \<not> escapes t (hex (of_nat n))) escape_map"
  by code_simp

lemma hex_not_escaped: "type < 6 \<Longrightarrow> unat n < 16 \<Longrightarrow> \<not> escapes (escape_map ! type) (hex n)"
  using bspec[OF hex_plain, of "unat n"] by (simp add: list_all_length escape_map_def)

text \<open>
  (C34) The first pass of \<open>ngx_escape_uri\<close> counts right: the escaped text is longer than the source by two bytes
  for each counted character, so that it exactly fills the buffer its callers allocate. The text has no
  character of the table but the percent signs that were written.
\<close>

theorem escape_uri_fits:
  assumes "type < 6"
  shows "length (ngx_escape_uri src type) = length src + 2 * ngx_escape_uri_count src type \<and>
    (\<forall>c\<in>set (ngx_escape_uri src type). escapes (escape_map ! type) c \<longrightarrow> c = 0x25)"
proof -
  have "length (escape_uri_loop e src) = length src + 2 * escape_uri_count e src" for e
    by (induction src) auto
  moreover have "\<forall>c\<in>set (escape_uri_loop (escape_map ! type) src). escapes (escape_map ! type) c \<longrightarrow> c = 0x25"
    by (induction src) (auto simp: hex_not_escaped[OF assms] byte_nibbles)
  ultimately show ?thesis by (simp add: ngx_escape_uri_def ngx_escape_uri_count_def)
qed

text \<open>
  \<open>ngx_escape_html\<close> leaves no angle bracket in the text, and its first pass gives exactly the number of bytes
  by which the text grows.
\<close>

theorem escape_html_fits:
  "length (ngx_escape_html src) = length src + ngx_escape_html_len src \<and>
   0x3c \<notin> set (ngx_escape_html src) \<and> 0x3e \<notin> set (ngx_escape_html src)"
  by (induction src) auto

theorem unescape_escape_witness:
  "ngx_unescape_uri (ngx_escape_uri [0x61, 0x20, 0x25, 0xff] 0) NGX_UNESCAPE_URI = ([0x61, 0x20, 0x25, 0xff], [])"
  by (rule unescape_escape) (simp_all add: NGX_UNESCAPE_URI_def NGX_UNESCAPE_REDIRECT_def)

theorem escape_uri_fits_witness:
  "length (ngx_escape_uri [0x61, 0x20, 0x25] 4) = length [0x61, 0x20, 0x25 :: byte] + 2 * ngx_escape_uri_count [0x61, 0x20, 0x25] 4"
  using escape_uri_fits[of 4 "[0x61, 0x20, 0x25]"] by simp

end
