(* ===== verification/Ngx_Utf8.thy ===== *)
theory Ngx_Utf8
  imports Ngx_Prelude
begin

text \<open>
  UTF-8, \<open>ngx_utf8_decode\<close> and \<open>ngx_utf8_length\<close> of \<open>src/nginx/src/core/ngx_string.c\<close>. A
  pointer is the list of the bytes from there to the end of the buffer; reading behind the end is
  \<open>None\<close>.
\<close>

section \<open>Decoding\<close>

text \<open>The loop over the \<open>len\<close> continuation bytes; the first component is \<open>None\<close> at the early return.\<close>

fun utf8_continue :: "nat \<Rightarrow> 32 word \<Rightarrow> byte list \<Rightarrow> (32 word option \<times> byte list) option" where
  "utf8_continue 0 u p = Some (Some u, p)"
| "utf8_continue (Suc len) u [] = None"
| "utf8_continue (Suc len) u (i # p) =
     (if i < 0x80 then Some (None, p)
      else utf8_continue len (push_bit 6 u OR (ucast i AND 0x3f)) p)"

definition ngx_utf8_decode :: "byte list \<Rightarrow> csize \<Rightarrow> (32 word \<times> byte list) option" where
  "ngx_utf8_decode p n =
     (case p of
        [] \<Rightarrow> None
      | b # q \<Rightarrow>
          let u = ucast b :: 32 word;
              sequence = (\<lambda>u valid len.
                if n - 1 < of_nat len then Some (0xfffffffe, p)
                else
                  (case utf8_continue len u q of
                     None \<Rightarrow> None
                   | Some (None, r) \<Rightarrow> Some (0xffffffff, r)
                   | Some (Some u, r) \<Rightarrow> Some (if valid < u then u else 0xffffffff, r)))
          in if 0xf0 < u then sequence (u AND 0x07) 0xffff 3
             else if 0xe0 < u then sequence (u AND 0x0f) 0x7ff 2
             else if 0xc0 < u then sequence (u AND 0x1f) 0x7f 1
             else Some (0xffffffff, q))"

text \<open>The loop of \<open>ngx_utf8_length\<close>; \<open>last\<close> is the number of bytes left until \<open>p = last\<close>.\<close>

function utf8_length_loop :: "byte list \<Rightarrow> csize \<Rightarrow> nat \<Rightarrow> nat \<Rightarrow> csize option" where
  "utf8_length_loop p n left len =
     (if left = 0 then Some (of_nat len)
      else
        case p of
          [] \<Rightarrow> None
        | c # q \<Rightarrow>
            if c < 0x80 then utf8_length_loop q n (left - 1) (len + 1)
            else
              (case ngx_utf8_decode p n of
                 None \<Rightarrow> None
               | Some (u, r) \<Rightarrow>
                   if 0x10ffff < u then Some n
                   else utf8_length_loop r n (left - (length p - length r)) (len + 1)))"
  by pat_completeness auto

lemma utf8_continue_length: "utf8_continue len u p = Some (x, r) \<Longrightarrow> length r \<le> length p"
  by (induction len u p rule: utf8_continue.induct) (auto split: if_splits)

lemma utf8_decode_advances:
  "ngx_utf8_decode p n = Some (u, r) \<Longrightarrow> u \<le> 0x10ffff \<Longrightarrow> length r < length p"
  by (auto simp: ngx_utf8_decode_def Let_def split: list.splits if_splits option.splits
      dest!: utf8_continue_length)

termination utf8_length_loop
  by (relation "measure (\<lambda>(p, n, left, len). length p)") (auto dest: utf8_decode_advances)

declare utf8_length_loop.simps [simp del]

definition ngx_utf8_length :: "byte list \<Rightarrow> csize \<Rightarrow> csize option" where
  "ngx_utf8_length p n = utf8_length_loop p n (unat n) 0"

section \<open>Encoding\<close>

text \<open>The definition of UTF-8, for the characters of two bytes and more\<close>

definition utf8 :: "nat \<Rightarrow> byte list" where
  "utf8 c =
     (if c < 0x800 then [of_nat (0xc0 + c div 64), of_nat (0x80 + c mod 64)]
      else if c < 0x10000 then [of_nat (0xe0 + c div 4096), of_nat (0x80 + c div 64 mod 64), of_nat (0x80 + c mod 64)]
      else [of_nat (0xf0 + c div 262144), of_nat (0x80 + c div 4096 mod 64), of_nat (0x80 + c div 64 mod 64),
            of_nat (0x80 + c mod 64)])"

lemma join6:
  assumes "b < 64"
  shows "push_bit 6 (of_nat a :: 32 word) OR of_nat b = of_nat (64 * a + b)"
proof -
  have b: "take_bit 6 b = b" using assms by (simp add: take_bit_nat_eq_self)
  have "push_bit 6 (of_nat a :: 32 word) AND of_nat b = 0"
  proof (rule bit_word_eqI)
    fix n
    have "bit b n \<longrightarrow> n < 6" using b bit_take_bit_iff[of 6 b n] by auto
    then show "bit (push_bit 6 (of_nat a :: 32 word) AND of_nat b) n = bit 0 n" by (auto simp: bit_simps)
  qed
  then have "push_bit 6 (of_nat a :: 32 word) OR of_nat b = push_bit 6 (of_nat a) + of_nat b"
    by (simp add: disjunctive_add_eq_or)
  then show ?thesis by (simp add: push_bit_eq_mult mult.commute)
qed

lemma byte_value:
  assumes "x < 256"
  shows "ucast (of_nat x :: byte) = (of_nat x :: 32 word)" "unat (of_nat x :: byte) = x"
proof -
  show "unat (of_nat x :: byte) = x" using assms by (simp add: unat_of_nat)
  show "ucast (of_nat x :: byte) = (of_nat x :: 32 word)"
    using assms by (simp add: unsigned_of_nat take_bit_nat_eq_self)
qed

lemma and_mask: "(of_nat x :: 32 word) AND mask m = of_nat (x mod 2 ^ m)"
  unfolding take_bit_eq_mask[symmetric] take_bit_of_nat take_bit_eq_mod[of m x] ..

lemma continue_step:
  assumes "b < 64"
  shows "utf8_continue (Suc len) (of_nat a) (of_nat (0x80 + b) # p) = utf8_continue len (of_nat (64 * a + b)) p"
proof -
  define i :: byte where "i = of_nat (0x80 + b)"
  have "unat i = 0x80 + b" using assms unfolding i_def by (intro byte_value) simp
  then have ge: "\<not> i < 0x80" unfolding word_less_nat_alt by simp
  have m: "(0x3f :: 32 word) = mask 6" by (simp add: mask_eq_exp_minus_1)
  have "(128 + b) mod 64 = b" using assms mod_add_self1[of 64 "64 + b"] by simp
  moreover have "ucast i = (of_nat (128 + b) :: 32 word)" using byte_value(1)[of "128 + b"] assms unfolding i_def by simp
  ultimately have l: "ucast i AND (0x3f :: 32 word) = of_nat b" unfolding m by (simp only: and_mask) simp
  show ?thesis unfolding i_def[symmetric] utf8_continue.simps l join6[OF assms] using ge by (simp only: if_False)
qed

lemma digits64: "64 * (c div 4096) + c div 64 mod 64 = c div 64" "64 * (c div 262144) + c div 4096 mod 64 = c div 4096" for c :: nat
  using mult_div_mod_eq[of 64 "c div 64"] mult_div_mod_eq[of 64 "c div 4096"] by (simp_all flip: div_mult2_eq)

lemma lead:
  assumes "k < 2 ^ m" "x = y * 2 ^ m + k" "x < 256"
  shows "ucast (of_nat x :: byte) AND (mask m :: 32 word) = of_nat k"
proof -
  have "x mod 2 ^ m = k" using assms(1,2) by simp
  then show ?thesis unfolding byte_value(1)[OF assms(3)] and_mask by simp
qed

lemma lead_less: "x < 256 \<Longrightarrow> v < 256 \<Longrightarrow> of_nat v < (ucast (of_nat x :: byte) :: 32 word) \<longleftrightarrow> v < x"
  unfolding byte_value(1) word_less_nat_alt by (simp add: unat_of_nat)

lemma enough:
  assumes "of_nat (Suc len) \<le> (n::csize)" "len < 256"
  shows "\<not> n - 1 < of_nat len"
proof -
  have "unat (of_nat (Suc len) :: csize) = Suc len" using assms(2) by (subst unat_of_nat) simp
  then have n: "Suc len \<le> unat n" using assms(1) unfolding word_le_nat_alt by simp
  then have "n \<noteq> 0" by auto
  then have "unat (n - 1) = unat n - 1" by (rule unat_minus_one)
  moreover have "unat (of_nat len :: csize) = len" using assms(2) by (subst unat_of_nat) simp
  ultimately show ?thesis using n unfolding word_less_nat_alt by simp
qed

lemma decode_lead:
  assumes "x < 256" "of_nat (Suc len) \<le> n" "utf8_continue len (of_nat k) q = Some (Some (of_nat c), r)"
    and "len = 1 \<and> x = 6 * 2 ^ 5 + k \<and> 0 < k \<and> k < 2 ^ 5 \<and> 0x7f < c \<and> c < 2 ^ 32 \<or>
      len = 2 \<and> x = 14 * 2 ^ 4 + k \<and> 0 < k \<and> k < 2 ^ 4 \<and> 0x7ff < c \<and> c < 2 ^ 32 \<or>
      len = 3 \<and> x = 30 * 2 ^ 3 + k \<and> 0 < k \<and> k < 2 ^ 3 \<and> 0xffff < c \<and> c < 2 ^ 32"
  shows "ngx_utf8_decode (of_nat x # q) n = Some (of_nat c, r)"
proof -
  have n: "\<not> n - 1 < of_nat len" using assms(2,4) by (intro enough) auto
  have cmp: "0xf0 < (ucast (of_nat x :: byte) :: 32 word) \<longleftrightarrow> 0xf0 < x" "0xe0 < (ucast (of_nat x :: byte) :: 32 word) \<longleftrightarrow> 0xe0 < x"
    "0xc0 < (ucast (of_nat x :: byte) :: 32 word) \<longleftrightarrow> 0xc0 < x"
    using lead_less[OF assms(1), of "0xf0"] lead_less[OF assms(1), of "0xe0"] lead_less[OF assms(1), of "0xc0"] by simp_all
  have masks: "(0x1f :: 32 word) = mask 5" "(0x0f :: 32 word) = mask 4" "(0x07 :: 32 word) = mask 3"
    by (simp_all add: mask_eq_exp_minus_1)
  have valid: "(of_nat v :: 32 word) < of_nat c" if "v < c" "c < 2 ^ 32" for v
    using that unfolding word_less_nat_alt by (simp add: unat_of_nat)
  show ?thesis
    using assms(4)
  proof (elim disjE conjE)
    assume a: "len = 1" "x = 6 * 2 ^ 5 + k" "0 < k" "k < 2 ^ 5" "0x7f < c" "c < 2 ^ 32"
    have "\<not> 0xf0 < x" "\<not> 0xe0 < x" "0xc0 < x" using a by auto
    then show ?thesis using n assms(3) lead[OF a(4,2) assms(1)] valid[of "0x7f"] a(1,5,6)
      by (simp add: ngx_utf8_decode_def Let_def masks cmp)
  next
    assume a: "len = 2" "x = 14 * 2 ^ 4 + k" "0 < k" "k < 2 ^ 4" "0x7ff < c" "c < 2 ^ 32"
    have "\<not> 0xf0 < x" "0xe0 < x" using a by auto
    then show ?thesis using n assms(3) lead[OF a(4,2) assms(1)] valid[of "0x7ff"] a(1,5,6)
      by (simp add: ngx_utf8_decode_def Let_def masks cmp)
  next
    assume a: "len = 3" "x = 30 * 2 ^ 3 + k" "0 < k" "k < 2 ^ 3" "0xffff < c" "c < 2 ^ 32"
    have "0xf0 < x" using a by auto
    then show ?thesis using n assms(3) lead[OF a(4,2) assms(1)] valid[of "0xffff"] a(1,5,6)
      by (simp add: ngx_utf8_decode_def Let_def masks cmp)
  qed
qed

lemma utf8_decodes:
  assumes "0x80 \<le> c" "c \<le> 0x10ffff" "c < 0x800 \<or> 0x1000 \<le> c \<and> c < 0x10000 \<or> 0x40000 \<le> c"
    and n: "of_nat (length (utf8 c)) \<le> n"
  shows "ngx_utf8_decode (utf8 c @ rest) n = Some (of_nat c, rest)"
proof -
  consider "c < 0x800" | "0x1000 \<le> c" "c < 0x10000" | "0x40000 \<le> c" using assms(3) by auto
  then show ?thesis
  proof cases
    case 1
    have u: "utf8 c @ rest = of_nat (0xc0 + c div 64) # of_nat (0x80 + c mod 64) # rest" using 1 by (simp add: utf8_def)
    show ?thesis unfolding u
    proof (rule decode_lead[where len = 1 and k = "c div 64"])
      have "64 * (c div 64) + c mod 64 = c" by simp
      then show "utf8_continue 1 (of_nat (c div 64)) (of_nat (0x80 + c mod 64) # rest) = Some (Some (of_nat c), rest)"
        using continue_step[of "c mod 64" 0 "c div 64" rest] by (simp del: of_nat_add of_nat_mult)
      show "of_nat (Suc 1) \<le> n" using n 1 by (simp add: utf8_def)
    qed (use 1 assms(1) in auto)
  next
    case 2
    have u: "utf8 c @ rest = of_nat (0xe0 + c div 4096) # of_nat (0x80 + c div 64 mod 64) # of_nat (0x80 + c mod 64) # rest"
      using 2 by (simp add: utf8_def)
    show ?thesis unfolding u
    proof (rule decode_lead[where len = 2 and k = "c div 4096"])
      have "64 * (64 * (c div 4096) + c div 64 mod 64) + c mod 64 = c" by (simp add: digits64)
      then show "utf8_continue 2 (of_nat (c div 4096)) (of_nat (0x80 + c div 64 mod 64) # of_nat (0x80 + c mod 64) # rest)
          = Some (Some (of_nat c), rest)"
        using continue_step[of "c div 64 mod 64" 1 "c div 4096"] continue_step[of "c mod 64" 0 "64 * (c div 4096) + c div 64 mod 64" rest]
        by (simp add: numeral_2_eq_2 del: of_nat_add of_nat_mult)
      show "of_nat (Suc 2) \<le> n" using n 2 by (simp add: utf8_def)
    qed (use 2 in auto)
  next
    case 3
    have u: "utf8 c @ rest = of_nat (0xf0 + c div 262144) # of_nat (0x80 + c div 4096 mod 64) #
        of_nat (0x80 + c div 64 mod 64) # of_nat (0x80 + c mod 64) # rest"
      using 3 by (simp add: utf8_def)
    show ?thesis unfolding u
    proof (rule decode_lead[where len = 3 and k = "c div 262144"])
      have d: "64 * (c div 262144) + c div 4096 mod 64 = c div 4096" "64 * (c div 4096) + c div 64 mod 64 = c div 64"
        "64 * (c div 64) + c mod 64 = c" by (simp_all add: digits64)
      show "utf8_continue 3 (of_nat (c div 262144)) (of_nat (0x80 + c div 4096 mod 64) # of_nat (0x80 + c div 64 mod 64) #
          of_nat (0x80 + c mod 64) # rest) = Some (Some (of_nat c), rest)"
        using continue_step[of "c div 4096 mod 64" 2 "c div 262144"] continue_step[of "c div 64 mod 64" 1 "c div 4096"]
          continue_step[of "c mod 64" 0 "c div 64" rest]
        unfolding d by (simp add: numeral_2_eq_2 numeral_3_eq_3 del: of_nat_add of_nat_mult)
      show "of_nat (Suc 3) \<le> n" using n 3 by (simp add: utf8_def)
    qed (use 3 assms(2) in auto)
  qed
qed

text \<open>
  (C27) Every character from U+0080 to U+10FFFF whose first byte is not \<open>0xe0\<close> or \<open>0xf0\<close> is decoded right: the result is
  the character, and the pointer moves behind it.
\<close>

theorem utf8_decode_correct:
  assumes "0x80 \<le> c" "c \<le> 0x10ffff" "c < 0x800 \<or> 0x1000 \<le> c \<and> c < 0x10000 \<or> 0x40000 \<le> c"
    and "of_nat (length (utf8 c)) \<le> n"
  shows "ngx_utf8_decode (utf8 c @ rest) n = Some (of_nat c, rest)"
  using assms by (rule utf8_decodes)

text \<open>
  (C37) The characters whose first byte is \<open>0xe0\<close> (U+0800 to U+0FFF, Thai and the Indic scripts among them) and those of
  the first plane behind the basic one (U+10000 to U+1FFFF) are refused as errors: the comparison \<open>u > 0xe0\<close> takes the
  byte \<open>0xe0\<close> for the start of a sequence of two bytes, and \<open>u > 0xf0\<close> the byte \<open>0xf0\<close> for one of three.
\<close>

theorem utf8_decode_refuses:
  assumes "0x800 \<le> c \<and> c < 0x1000 \<or> 0x10000 \<le> c \<and> c < 0x20000" and n: "of_nat (length (utf8 c)) \<le> n"
  shows "map_option fst (ngx_utf8_decode (utf8 c @ rest) n) = Some 0xffffffff"
  using assms(1)
proof
  assume c: "0x800 \<le> c \<and> c < 0x1000"
  then have d: "c div 4096 = 0" "c div 64 < 64" by auto
  have u: "utf8 c @ rest = 0xe0 # of_nat (0x80 + c div 64) # of_nat (0x80 + c mod 64) # rest"
    using c d by (simp add: utf8_def)
  have "of_nat (Suc 2) \<le> n" using n c by (simp add: utf8_def)
  then have n1: "\<not> n - 1 < 1" using enough[of 1 n] word_le_nat_alt by (simp add: word_le_nat_alt)
  have "utf8_continue 1 (of_nat 0) (of_nat (0x80 + c div 64) # of_nat (0x80 + c mod 64) # rest) =
      Some (Some (of_nat (c div 64)), of_nat (0x80 + c mod 64) # rest)"
    using continue_step[OF d(2), of 0 0] by simp
  moreover have "\<not> (0x7f :: 32 word) < of_nat (c div 64)" using d(2) unfolding word_less_nat_alt by (simp add: unat_of_nat)
  ultimately show ?thesis unfolding u using n1 by (simp add: ngx_utf8_decode_def Let_def)
next
  assume c: "0x10000 \<le> c \<and> c < 0x20000"
  then have d: "c div 262144 = 0" "c div 4096 < 32" by auto
  have u: "utf8 c @ rest = 0xf0 # of_nat (0x80 + c div 4096) # of_nat (0x80 + c div 64 mod 64) # of_nat (0x80 + c mod 64) # rest"
    using c d by (simp add: utf8_def)
  have "of_nat (Suc 3) \<le> n" using n c by (simp add: utf8_def)
  then have n1: "\<not> n - 1 < 2" using enough[of 2 n] by (simp add: word_le_nat_alt)
  have "64 * (c div 4096) + c div 64 mod 64 < 0x800" using d(2) mod_less_divisor[of 64 "c div 64"] by linarith
  then have "\<not> (0x7ff :: 32 word) < of_nat (64 * (c div 4096) + c div 64 mod 64)"
    unfolding word_less_nat_alt by (simp add: unat_of_nat del: of_nat_add of_nat_mult)
  moreover have "utf8_continue 2 (of_nat 0) (of_nat (0x80 + c div 4096) # of_nat (0x80 + c div 64 mod 64) # of_nat (0x80 + c mod 64) # rest) =
      Some (Some (of_nat (64 * (c div 4096) + c div 64 mod 64)), of_nat (0x80 + c mod 64) # rest)"
    using continue_step[of "c div 4096" 1 0] continue_step[of "c div 64 mod 64" 0 "c div 4096"] d(2)
    by (simp add: numeral_2_eq_2 del: of_nat_add of_nat_mult)
  ultimately show ?thesis unfolding u using n1 by (simp add: ngx_utf8_decode_def Let_def del: of_nat_add of_nat_mult)
qed

section \<open>Counting\<close>

definition utf8_char :: "nat \<Rightarrow> byte list" where
  "utf8_char c = (if c < 0x80 then [of_nat c] else utf8 c)"

definition decodable :: "nat \<Rightarrow> bool" where
  "decodable c \<longleftrightarrow> c < 0x800 \<or> 0x1000 \<le> c \<and> c < 0x10000 \<or> 0x40000 \<le> c \<and> c \<le> 0x10ffff"

lemma utf8_length_loop_chars:
  assumes "list_all decodable cs" "length (concat (map utf8_char cs) @ t) \<le> unat n"
  shows "utf8_length_loop (concat (map utf8_char cs) @ t) n (length (concat (map utf8_char cs) @ t)) len =
    utf8_length_loop t n (length t) (len + length cs)"
  using assms
proof (induction cs arbitrary: len)
  case Nil
  then show ?case by simp
next
  case (Cons c cs)
  let ?r = "concat (map utf8_char cs) @ t"
  have IH: "utf8_length_loop ?r n (length ?r) (Suc len) = utf8_length_loop t n (length t) (Suc len + length cs)" using Cons by simp
  show ?case
  proof (cases "c < 0x80")
    case True
    then have "(of_nat c :: byte) < 0x80" unfolding word_less_nat_alt by (simp add: unat_of_nat)
    moreover have "utf8_char c = [of_nat c]" using True by (simp add: utf8_char_def)
    ultimately show ?thesis using IH by (simp add: utf8_length_loop.simps[of "_ # _"])
  next
    case False
    have "of_nat (length (utf8 c)) \<le> n" using Cons.prems(2) False unfolding word_le_nat_alt
      by (simp add: utf8_char_def unat_of_nat)
    then have d: "ngx_utf8_decode (utf8 c @ ?r) n = Some (of_nat c, ?r)"
      using Cons.prems(1) False by (intro utf8_decodes) (auto simp: decodable_def)
    have u: "\<not> (0x10ffff :: 32 word) < of_nat c" using Cons.prems(1) unfolding word_less_nat_alt
      by (auto simp: decodable_def unat_of_nat)
    have "(of_nat (0x80 + x) :: byte) \<ge> 0x80" if "x < 0x80" for x
      using that byte_value(2)[of "0x80 + x"] unfolding word_le_nat_alt by simp
    from this[of "0x40 + c div 64"] this[of "0x60 + c div 4096"] this[of "0x70 + c div 262144"]
    obtain b bs where b: "utf8 c = b # bs" "\<not> b < 0x80"
      using Cons.prems(1) by (auto simp: utf8_def decodable_def not_less less_mult_imp_div_less)
    moreover have "utf8_char c = utf8 c" using False by (simp add: utf8_char_def)
    ultimately show ?thesis using d u IH by (simp add: utf8_length_loop.simps[of "_ # _"])
  qed
qed

lemma continue_short:
  "list_all (\<lambda>i. \<not> i < 0x80) q \<Longrightarrow> length q < len \<Longrightarrow> utf8_continue len u q = None"
  by (induction len u q rule: utf8_continue.induct) auto

lemma decode_short:
  assumes "x < 256" "list_all (\<lambda>i. \<not> i < 0x80) q" "length q < len"
    and "len = 1 \<and> 0xc0 < x \<and> x \<le> 0xe0 \<or> len = 2 \<and> 0xe0 < x \<and> x \<le> 0xf0 \<or> len = 3 \<and> 0xf0 < x"
  shows "ngx_utf8_decode (of_nat x # q) n = (if n - 1 < of_nat len then Some (0xfffffffe, of_nat x # q) else None)"
proof -
  have cmp: "0xf0 < (ucast (of_nat x :: byte) :: 32 word) \<longleftrightarrow> 0xf0 < x" "0xe0 < (ucast (of_nat x :: byte) :: 32 word) \<longleftrightarrow> 0xe0 < x"
    "0xc0 < (ucast (of_nat x :: byte) :: 32 word) \<longleftrightarrow> 0xc0 < x"
    using lead_less[OF assms(1), of "0xf0"] lead_less[OF assms(1), of "0xe0"] lead_less[OF assms(1), of "0xc0"] by simp_all
  show ?thesis using assms(4) continue_short[OF assms(2,3)]
    by (elim disjE) (simp_all add: ngx_utf8_decode_def Let_def cmp)
qed

lemma utf8_bytes:
  assumes "decodable c" "0x80 \<le> c"
  obtains x q where "utf8 c = of_nat x # q" "x < 256" "0xc0 < x" "list_all (\<lambda>i. \<not> i < 0x80) q"
    "length q = 1 \<and> 0xc0 < x \<and> x \<le> 0xe0 \<or> length q = 2 \<and> 0xe0 < x \<and> x \<le> 0xf0 \<or> length q = 3 \<and> 0xf0 < x"
proof -
  have cont: "\<not> (of_nat (0x80 + v mod 64) :: byte) < 0x80" for v
    using byte_value(2)[of "0x80 + v mod 64"] mod_less_divisor[of 64 v] unfolding word_less_nat_alt by simp
  consider "c < 0x800" | "0x1000 \<le> c" "c < 0x10000" | "0x40000 \<le> c" "c \<le> 0x10ffff"
    using assms by (auto simp: decodable_def)
  then show ?thesis
  proof cases
    case 1
    then show ?thesis using assms(2) cont[of c]
      by (intro that[of "0xc0 + c div 64" "[of_nat (0x80 + c mod 64)]"]) (auto simp: utf8_def)
  next
    case 2
    then show ?thesis using cont[of c] cont[of "c div 64"]
      by (intro that[of "0xe0 + c div 4096" "[of_nat (0x80 + c div 64 mod 64), of_nat (0x80 + c mod 64)]"]) (auto simp: utf8_def)
  next
    case 3
    then show ?thesis using cont[of c] cont[of "c div 64"] cont[of "c div 4096"]
      by (intro that[of "0xf0 + c div 262144" "[of_nat (0x80 + c div 4096 mod 64), of_nat (0x80 + c div 64 mod 64), of_nat (0x80 + c mod 64)]"])
        (auto simp: utf8_def)
  qed
qed

lemma utf8_length_loop_cut:
  assumes "decodable c" "0x80 \<le> c" "0 < k" "k < length (utf8 c)" "0 < unat n"
  shows "utf8_length_loop (take k (utf8 c)) n k len = (if unat n < length (utf8 c) then Some n else None)"
proof -
  obtain x q where u: "utf8 c = of_nat x # q" "x < 256" "0xc0 < x" "list_all (\<lambda>i. \<not> i < 0x80) q"
    "length q = 1 \<and> 0xc0 < x \<and> x \<le> 0xe0 \<or> length q = 2 \<and> 0xe0 < x \<and> x \<le> 0xf0 \<or> length q = 3 \<and> 0xf0 < x"
    using utf8_bytes[OF assms(1,2)] by metis
  obtain j where k: "k = Suc j" using assms(3) gr0_implies_Suc by blast
  have "list_all (\<lambda>i. \<not> i < 0x80) (take j q)" using u(4) by (auto simp: list_all_iff dest: in_set_takeD)
  note d = decode_short[OF u(2) this, of "length q" n]
  have len: "n - 1 < of_nat (length q) \<longleftrightarrow> unat n < length (utf8 c)"
  proof -
    have "unat (n - 1) = unat n - 1" using assms(5) by (intro unat_minus_one) auto
    moreover have "unat (of_nat (length q) :: csize) = length q" using u(5) by (subst unat_of_nat) auto
    ultimately show ?thesis using assms(5) unfolding word_less_nat_alt u(1) by auto
  qed
  have "\<not> (of_nat x :: byte) < 0x80" using u(2,3) byte_value(2)[of x] unfolding word_less_nat_alt by simp
  then show ?thesis
    using d u(5) assms(4) len by (simp add: utf8_length_loop.simps[of "_ # _"] u(1) k)
qed

text \<open>
  (C36) \<open>ngx_utf8_length\<close> counts the characters of every text of ASCII characters and of characters that
  \<open>ngx_utf8_decode\<close> knows.
\<close>

theorem utf8_length_correct:
  assumes "list_all decodable cs" "length (concat (map utf8_char cs)) < 2 ^ 64"
  shows "ngx_utf8_length (concat (map utf8_char cs)) (of_nat (length (concat (map utf8_char cs)))) = Some (of_nat (length cs))"
proof -
  have "unat (of_nat (length (concat (map utf8_char cs))) :: csize) = length (concat (map utf8_char cs))"
    using assms(2) by (subst unat_of_nat) (simp del: length_concat)
  then show ?thesis using utf8_length_loop_chars[OF assms(1), of "[]" _ 0]
    by (simp add: ngx_utf8_length_def utf8_length_loop.simps[of "[]"] del: length_concat)
qed

text \<open>
  (C38) \<open>ngx_utf8_length\<close> gives \<open>ngx_utf8_decode\<close> the length of the whole text instead of what is left of it. On a text
  that ends in the middle of a character it reads behind the end of the text, whatever stands in front of the character,
  unless the whole text is shorter than the character; only then is the incomplete character noticed, and the
  number of bytes returned.
\<close>

theorem utf8_length_incomplete:
  assumes "list_all decodable cs" "decodable c" "0x80 \<le> c" "0 < k" "k < length (utf8 c)"
    and "text = concat (map utf8_char cs) @ take k (utf8 c)" "length text < 2 ^ 64"
  shows "ngx_utf8_length text (of_nat (length text)) =
    (if length text < length (utf8 c) then Some (of_nat (length text)) else None)"
proof -
  have n: "unat (of_nat (length text) :: csize) = length text" using assms(7) by (subst unat_of_nat) simp
  have "0 < length text" using assms(4-6) by simp
  moreover have "length (take k (utf8 c)) = k" using assms(5) by simp
  ultimately show ?thesis
    using utf8_length_loop_chars[OF assms(1), of "take k (utf8 c)" "of_nat (length text)" 0] n
      utf8_length_loop_cut[OF assms(2-5), of "of_nat (length text)" "length cs"]
    unfolding ngx_utf8_length_def n by (simp only: assms(6)[symmetric]) simp
qed

theorem utf8_length_incomplete_witness:
  "ngx_utf8_length [0x41, 0x41, 0xe2] 3 = None \<and> ngx_utf8_length [0x41, 0xe2] 2 = Some 2"
  using utf8_length_incomplete[of "[0x41, 0x41]" "0x20ac" 1] utf8_length_incomplete[of "[0x41]" "0x20ac" 1]
  by (simp add: utf8_char_def utf8_def decodable_def)

section \<open>Witnesses\<close>

theorem utf8_decode_correct_witness: "ngx_utf8_decode (utf8 0x20ac @ [0x41]) 3 = Some (0x20ac, [0x41])"
  using utf8_decode_correct[of "0x20ac" 3 "[0x41]"] by (simp add: utf8_def)

theorem utf8_decode_refuses_witness: "map_option fst (ngx_utf8_decode (utf8 0xe01 @ []) 3) = Some 0xffffffff"
  using utf8_decode_refuses[of "0xe01" 3 "[]"] by (simp add: utf8_def)

theorem utf8_length_correct_witness: "ngx_utf8_length [0x41, 0xc3, 0xa9] 3 = Some 2"
  using utf8_length_correct[of "[0x41, 0xe9]"] by (simp add: utf8_char_def utf8_def decodable_def)

end
