(* ===== verification/Ngx_String.thy ===== *)
theory Ngx_String
  imports Ngx_Inet
begin

text \<open>
  Comparing, searching and converting strings, \<open>src/nginx/src/core/ngx_string.[ch]\<close>. A pointer is the list of the
  bytes from there to the end of the memory object; reading behind the end is \<open>None\<close>.
\<close>

section \<open>Copying\<close>

definition ngx_tolower :: "byte \<Rightarrow> byte" where
  "ngx_tolower c = (if 0x41 \<le> c \<and> c \<le> 0x5a then c OR 0x20 else c)"

definition ngx_toupper :: "byte \<Rightarrow> byte" where
  "ngx_toupper c = (if 0x61 \<le> c \<and> c \<le> 0x7a then c AND NOT 0x20 else c)"

fun ngx_strlow :: "byte list \<Rightarrow> nat \<Rightarrow> byte list option" where
  "ngx_strlow src 0 = Some []"
| "ngx_strlow [] (Suc n) = None"
| "ngx_strlow (c # src) (Suc n) = map_option (Cons (ngx_tolower c)) (ngx_strlow src n)"

text \<open>\<open>ngx_cpystrn\<close> gives the bytes written to \<open>dst\<close>; the pointer it returns is that of the last one.\<close>

fun cpystrn_loop :: "byte list \<Rightarrow> nat \<Rightarrow> byte list option" where
  "cpystrn_loop src 0 = Some [0]"
| "cpystrn_loop [] (Suc n) = None"
| "cpystrn_loop (c # src) (Suc n) = (if c = 0 then Some [c] else map_option (Cons c) (cpystrn_loop src n))"

definition ngx_cpystrn :: "byte list \<Rightarrow> nat \<Rightarrow> byte list option" where
  "ngx_cpystrn src n = (if n = 0 then Some [] else cpystrn_loop src (n - 1))"

section \<open>Comparing\<close>

fun ngx_strcasecmp :: "byte list \<Rightarrow> byte list \<Rightarrow> int option" where
  "ngx_strcasecmp (a # s1) (b # s2) =
     (let c1 = ngx_tolower a; c2 = ngx_tolower b in
      if c1 = c2 then (if c1 \<noteq> 0 then ngx_strcasecmp s1 s2 else Some 0)
      else Some (uint c1 - uint c2))"
| "ngx_strcasecmp s1 s2 = None"

fun ngx_strncasecmp :: "byte list \<Rightarrow> byte list \<Rightarrow> nat \<Rightarrow> int option" where
  "ngx_strncasecmp s1 s2 0 = Some 0"
| "ngx_strncasecmp (a # s1) (b # s2) (Suc n) =
     (let c1 = ngx_tolower a; c2 = ngx_tolower b in
      if c1 = c2 then (if c1 \<noteq> 0 then ngx_strncasecmp s1 s2 n else Some 0)
      else Some (uint c1 - uint c2))"
| "ngx_strncasecmp s1 s2 (Suc n) = None"

fun ngx_dns_strcmp :: "byte list \<Rightarrow> byte list \<Rightarrow> int option" where
  "ngx_dns_strcmp (a # s1) (b # s2) =
     (let c1 = ngx_tolower a; c2 = ngx_tolower b in
      if c1 = c2 then (if c1 \<noteq> 0 then ngx_dns_strcmp s1 s2 else Some 0)
      else
        let c1 = (if c1 = 0x2e then 0x20 else c1); c2 = (if c2 = 0x2e then 0x20 else c2)
        in Some (uint c1 - uint c2))"
| "ngx_dns_strcmp s1 s2 = None"

text \<open>The loops of \<open>ngx_rstrncmp\<close> and \<open>ngx_rstrncasecmp\<close>, from the index \<open>n\<close> down\<close>

fun rstrncmp_loop :: "(byte \<Rightarrow> byte) \<Rightarrow> byte list \<Rightarrow> byte list \<Rightarrow> nat \<Rightarrow> int option" where
  "rstrncmp_loop f s1 s2 n =
     (if length s1 \<le> n \<or> length s2 \<le> n then None
      else if f (s1 ! n) \<noteq> f (s2 ! n) then Some (uint (f (s1 ! n)) - uint (f (s2 ! n)))
      else case n of 0 \<Rightarrow> Some 0 | Suc m \<Rightarrow> rstrncmp_loop f s1 s2 m)"

definition ngx_rstrncmp :: "byte list \<Rightarrow> byte list \<Rightarrow> nat \<Rightarrow> int option" where
  "ngx_rstrncmp s1 s2 n = (if n = 0 then Some 0 else rstrncmp_loop (\<lambda>c. c) s1 s2 (n - 1))"

definition ngx_rstrncasecmp :: "byte list \<Rightarrow> byte list \<Rightarrow> nat \<Rightarrow> int option" where
  "ngx_rstrncasecmp s1 s2 n =
     (if n = 0 then Some 0
      else rstrncmp_loop (\<lambda>c. if 0x61 \<le> c \<and> c \<le> 0x7a then c - (0x61 - 0x41) else c) s1 s2 (n - 1))"

text \<open>\<open>memcmp\<close> of the C library, with the difference of the first bytes that differ\<close>

fun memcmp :: "byte list \<Rightarrow> byte list \<Rightarrow> nat \<Rightarrow> int option" where
  "memcmp s1 s2 0 = Some 0"
| "memcmp (a # s1) (b # s2) (Suc n) = (if a = b then memcmp s1 s2 n else Some (uint a - uint b))"
| "memcmp s1 s2 (Suc n) = None"

definition ngx_memn2cmp :: "byte list \<Rightarrow> byte list \<Rightarrow> nat \<Rightarrow> nat \<Rightarrow> int option" where
  "ngx_memn2cmp s1 s2 n1 n2 =
     (let (n, z) = (if n1 \<le> n2 then (n1, - 1) else (n2, 1)) in
      case memcmp s1 s2 n of
        None \<Rightarrow> None
      | Some m \<Rightarrow> if m \<noteq> 0 \<or> n1 = n2 then Some m else Some z)"

section \<open>Searching\<close>

text \<open>\<open>strncmp\<close> of the C library; only whether the result is 0 matters here.\<close>

fun strncmp :: "byte list \<Rightarrow> byte list \<Rightarrow> nat \<Rightarrow> int option" where
  "strncmp s1 s2 0 = Some 0"
| "strncmp (a # s1) (b # s2) (Suc n) =
     (if a \<noteq> b then Some (uint a - uint b) else if a = 0 then Some 0 else strncmp s1 s2 n)"
| "strncmp s1 s2 (Suc n) = None"

text \<open>
  The result of a search is \<open>Some None\<close> for \<open>NULL\<close> and otherwise the offset of the place that was
  found. \<open>c2\<close> is the first byte of the pattern and \<open>s2\<close> points behind it.
\<close>

fun strnstr_loop :: "byte \<Rightarrow> byte list \<Rightarrow> nat \<Rightarrow> nat \<Rightarrow> nat \<Rightarrow> byte list \<Rightarrow> nat option option" where
  "strnstr_loop c2 s2 n i 0 s1 = Some None"
| "strnstr_loop c2 s2 n i (Suc len) [] = None"
| "strnstr_loop c2 s2 n i (Suc len) (c1 # s1) =
     (if c1 = 0 then Some None
      else if c1 \<noteq> c2 then strnstr_loop c2 s2 n (i + 1) len s1
      else if len < n then Some None
      else
        case strncmp s1 s2 n of
          None \<Rightarrow> None
        | Some r \<Rightarrow> if r = 0 then Some (Some i) else strnstr_loop c2 s2 n (i + 1) len s1)"

definition ngx_strnstr :: "byte list \<Rightarrow> byte list \<Rightarrow> nat \<Rightarrow> nat option option" where
  "ngx_strnstr s1 s2 len =
     (case s2 of [] \<Rightarrow> None | c2 # s2 \<Rightarrow> strnstr_loop c2 s2 (length (takeWhile (\<lambda>c. c \<noteq> 0) s2)) 0 len s1)"

fun strstrn_loop :: "byte \<Rightarrow> byte list \<Rightarrow> nat \<Rightarrow> nat \<Rightarrow> byte list \<Rightarrow> nat option option" where
  "strstrn_loop c2 s2 n i [] = None"
| "strstrn_loop c2 s2 n i (c1 # s1) =
     (if c1 = 0 then Some None
      else if c1 \<noteq> c2 then strstrn_loop c2 s2 n (i + 1) s1
      else
        case strncmp s1 s2 n of
          None \<Rightarrow> None
        | Some r \<Rightarrow> if r = 0 then Some (Some i) else strstrn_loop c2 s2 n (i + 1) s1)"

definition ngx_strstrn :: "byte list \<Rightarrow> byte list \<Rightarrow> nat \<Rightarrow> nat option option" where
  "ngx_strstrn s1 s2 n = (case s2 of [] \<Rightarrow> None | c2 # s2 \<Rightarrow> strstrn_loop c2 s2 n 0 s1)"

text \<open>
  The pattern of \<open>ngx_strcasestrn\<close> is a \<open>char *\<close>, so that its first character is extended with its sign; the
  characters of the text are extended with zeros.
\<close>

fun strcasestrn_loop :: "64 word \<Rightarrow> byte list \<Rightarrow> nat \<Rightarrow> nat \<Rightarrow> byte list \<Rightarrow> nat option option" where
  "strcasestrn_loop c2 s2 n i [] = None"
| "strcasestrn_loop c2 s2 n i (c1 # s1) =
     (if c1 = 0 then Some None
      else if ucast (ngx_tolower c1) \<noteq> c2 then strcasestrn_loop c2 s2 n (i + 1) s1
      else
        case ngx_strncasecmp s1 s2 n of
          None \<Rightarrow> None
        | Some r \<Rightarrow> if r = 0 then Some (Some i) else strcasestrn_loop c2 s2 n (i + 1) s1)"

definition ngx_strcasestrn :: "byte list \<Rightarrow> byte list \<Rightarrow> nat \<Rightarrow> nat option option" where
  "ngx_strcasestrn s1 s2 n =
     (case s2 of
        [] \<Rightarrow> None
      | b # s2 \<Rightarrow>
          let c2 = scast b :: 64 word;
              c2 = (if 0x41 \<le> c2 \<and> c2 \<le> 0x5a then c2 OR 0x20 else c2)
          in strcasestrn_loop c2 s2 n 0 s1)"

text \<open>\<open>left\<close> is the number of bytes before \<open>last - n\<close>.\<close>

fun strlcasestrn_loop :: "byte \<Rightarrow> byte list \<Rightarrow> nat \<Rightarrow> nat \<Rightarrow> nat \<Rightarrow> byte list \<Rightarrow> nat option option" where
  "strlcasestrn_loop c2 s2 n i 0 s1 = Some None"
| "strlcasestrn_loop c2 s2 n i (Suc left) [] = None"
| "strlcasestrn_loop c2 s2 n i (Suc left) (c1 # s1) =
     (if ngx_tolower c1 \<noteq> c2 then strlcasestrn_loop c2 s2 n (i + 1) left s1
      else
        case ngx_strncasecmp s1 s2 n of
          None \<Rightarrow> None
        | Some r \<Rightarrow> if r = 0 then Some (Some i) else strlcasestrn_loop c2 s2 n (i + 1) left s1)"

definition ngx_strlcasestrn :: "byte list \<Rightarrow> nat \<Rightarrow> byte list \<Rightarrow> nat \<Rightarrow> nat option option" where
  "ngx_strlcasestrn s1 end_off s2 n =
     (case s2 of [] \<Rightarrow> None | c2 # s2 \<Rightarrow> strlcasestrn_loop (ngx_tolower c2) s2 n 0 (end_off - n) s1)"

section \<open>Numbers\<close>

definition NGX_ERROR_int :: int where "NGX_ERROR_int = - 1"

text \<open>
  Signed arithmetic that overflows wraps around, as in the code that the compilers of the build
  produce for these loops. The loop and the final test of \<open>ngx_atoi\<close>, \<open>ngx_atosz\<close>, \<open>ngx_atoof\<close> and \<open>ngx_atotm\<close>; the types
  \<open>ngx_int_t\<close>, \<open>ssize_t\<close>, \<open>off_t\<close> and \<open>time_t\<close> all have 64 bits.
\<close>

fun atoi_loop :: "byte list \<Rightarrow> 64 word \<Rightarrow> 64 word option" where
  "atoi_loop [] value = Some value"
| "atoi_loop (c # line) value =
     (if c < 0x30 \<or> 0x39 < c then None else atoi_loop line (value * 10 + (ucast c - 0x30)))"

definition atoi_result :: "64 word option \<Rightarrow> int" where
  "atoi_result r = (case r of None \<Rightarrow> NGX_ERROR_int | Some value \<Rightarrow> if sint value < 0 then NGX_ERROR_int else sint value)"

definition ngx_atoi :: "byte list \<Rightarrow> int" where
  "ngx_atoi line = (if line = [] then NGX_ERROR_int else atoi_result (atoi_loop line 0))"

definition ngx_atosz :: "byte list \<Rightarrow> int" where
  "ngx_atosz line = (if line = [] then NGX_ERROR_int else atoi_result (atoi_loop line 0))"

definition ngx_atoof :: "byte list \<Rightarrow> int" where
  "ngx_atoof line = (if line = [] then NGX_ERROR_int else atoi_result (atoi_loop line 0))"

definition ngx_atotm :: "byte list \<Rightarrow> int" where
  "ngx_atotm line = (if line = [] then NGX_ERROR_int else atoi_result (atoi_loop line 0))"

fun atofp_loop :: "byte list \<Rightarrow> 64 word \<Rightarrow> nat \<Rightarrow> nat \<Rightarrow> 64 word option" where
  "atofp_loop [] value point dot = Some (value * 10 ^ point)"
| "atofp_loop (c # line) value point dot =
     (if point = 0 then None
      else if c = 0x2e then (if dot \<noteq> 0 then None else atofp_loop line value point 1)
      else if c < 0x30 \<or> 0x39 < c then None
      else atofp_loop line (value * 10 + (ucast c - 0x30)) (point - dot) dot)"

definition ngx_atofp :: "byte list \<Rightarrow> nat \<Rightarrow> int" where
  "ngx_atofp line point = (if line = [] then NGX_ERROR_int else atoi_result (atofp_loop line 0 point 0))"

fun hextoi_loop :: "byte list \<Rightarrow> 64 word \<Rightarrow> 64 word option" where
  "hextoi_loop [] value = Some value"
| "hextoi_loop (ch # line) value =
     (if 0x30 \<le> ch \<and> ch \<le> 0x39 then hextoi_loop line (value * 16 + (ucast ch - 0x30))
      else
        let c = ch OR 0x20 in
        if 0x61 \<le> c \<and> c \<le> 0x66 then hextoi_loop line (value * 16 + (ucast c - 0x61 + 10))
        else None)"

definition ngx_hextoi :: "byte list \<Rightarrow> int" where
  "ngx_hextoi line = (if line = [] then NGX_ERROR_int else atoi_result (hextoi_loop line 0))"

definition hex_digits :: "byte list" where
  "hex_digits = map of_char ''0123456789abcdef''"

fun ngx_hex_dump :: "byte list \<Rightarrow> byte list" where
  "ngx_hex_dump [] = []"
| "ngx_hex_dump (c # src) = hex_digits ! unat (drop_bit 4 c) # hex_digits ! unat (c AND 0xf) # ngx_hex_dump src"

section \<open>Comparison and order\<close>

lemma tolower_0 [simp]: "ngx_tolower c = 0 \<longleftrightarrow> c = 0"
  by (auto simp: ngx_tolower_def or_eq_0_iff)

lemma tolower_NUL [simp]: "ngx_tolower 0 = 0"
  by simp

lemma uint_pos: "(x::byte) \<noteq> 0 \<Longrightarrow> 0 < uint x"
  by (simp add: order.strict_iff_order unsigned_eq_0_iff)

fun lex_less :: "byte list \<Rightarrow> byte list \<Rightarrow> bool" where
  "lex_less xs [] = False"
| "lex_less [] (y # ys) = True"
| "lex_less (x # xs) (y # ys) = (x < y \<or> x = y \<and> lex_less xs ys)"

lemma strcasecmp_order:
  assumes "0 \<notin> set s1" "0 \<notin> set s2"
  shows "\<exists>v. ngx_strcasecmp (s1 @ 0 # r1) (s2 @ 0 # r2) = Some v \<and>
    (v = 0 \<longleftrightarrow> map ngx_tolower s1 = map ngx_tolower s2) \<and>
    (v < 0 \<longleftrightarrow> lex_less (map ngx_tolower s1) (map ngx_tolower s2))"
  using assms
proof (induction s1 arbitrary: s2)
  case Nil
  show ?case
  proof (cases s2)
    case (Cons b s2')
    then have "uint (ngx_tolower b) > 0" using Nil.prems by (intro uint_pos) auto
    then show ?thesis using Cons Nil.prems by (simp add: Let_def)
  qed simp
next
  case (Cons a s1)
  show ?case
  proof (cases s2)
    case Nil
    have "uint (ngx_tolower a) > 0" using Cons.prems by (intro uint_pos) auto
    then show ?thesis using Nil Cons.prems by (simp add: Let_def)
  next
    case c: (Cons b s2')
    have IH: "\<exists>v. ngx_strcasecmp (s1 @ 0 # r1) (s2' @ 0 # r2) = Some v \<and>
      (v = 0 \<longleftrightarrow> map ngx_tolower s1 = map ngx_tolower s2') \<and> (v < 0 \<longleftrightarrow> lex_less (map ngx_tolower s1) (map ngx_tolower s2'))"
      using Cons c by simp
    show ?thesis
    proof (cases "ngx_tolower a = ngx_tolower b")
      case True
      then show ?thesis using IH c Cons.prems by (auto simp: Let_def)
    next
      case False
      moreover have "uint (ngx_tolower a) - uint (ngx_tolower b) < 0 \<longleftrightarrow> ngx_tolower a < ngx_tolower b"
        by (auto simp: word_less_def)
      moreover have "uint (ngx_tolower a) \<noteq> uint (ngx_tolower b)" using False word_uint_eq_iff by blast
      ultimately show ?thesis using c by (auto simp: Let_def)
    qed
  qed
qed

text \<open>
  (C30) \<open>ngx_strcasecmp\<close> on two null-terminated strings reads no byte behind the terminators; it returns 0 exactly when the
  strings are equal but for the case of letters, and a negative number exactly when the first one comes before the
  second one in the lexicographic order of their lower-case forms.
\<close>

theorem strcasecmp_correct:
  assumes "0 \<notin> set s1" "0 \<notin> set s2"
  shows "\<exists>v. ngx_strcasecmp (s1 @ 0 # r1) (s2 @ 0 # r2) = Some v \<and>
    (v = 0 \<longleftrightarrow> map ngx_tolower s1 = map ngx_tolower s2) \<and>
    (v < 0 \<longleftrightarrow> lex_less (map ngx_tolower s1) (map ngx_tolower s2))"
  using strcasecmp_order[OF assms] .

section \<open>Search\<close>

text \<open>The first place where \<open>pat\<close> stands in \<open>t\<close>\<close>

fun first_match :: "byte list \<Rightarrow> nat \<Rightarrow> byte list \<Rightarrow> nat option" where
  "first_match pat i [] = None"
| "first_match pat i (c # t) = (if take (length pat) (c # t) = pat then Some i else first_match pat (i + 1) t)"

lemma strncmp_prefix:
  assumes "0 \<notin> set p" "length p \<le> length s \<or> 0 \<in> set s"
  shows "\<exists>r. strncmp s (p @ q) (length p) = Some r \<and> (r = 0 \<longleftrightarrow> take (length p) s = p)"
  using assms
proof (induction p arbitrary: s)
  case (Cons b p)
  obtain a t where s: "s = a # t" using Cons.prems(2) by (cases s) auto
  show ?case
  proof (cases "a = b")
    case True
    then show ?thesis using Cons s by auto
  next
    case False
    then have "uint a \<noteq> uint b" using word_uint_eq_iff by blast
    then show ?thesis using False by (auto simp: s)
  qed
qed simp

lemma takeWhile_take_prefix:
  assumes "0 \<notin> set p" "length p \<le> len"
  shows "take (length p) s = p \<longleftrightarrow> take (length p) (takeWhile (\<lambda>c. c \<noteq> 0) (take len s)) = p"
  using assms
proof (induction p arbitrary: s len)
  case (Cons b p)
  obtain l where l: "len = Suc l" using Cons.prems(2) by (cases len) auto
  show ?case
  proof (cases s)
    case s: (Cons a t)
    have "take (length p) t = p \<longleftrightarrow> take (length p) (takeWhile (\<lambda>c. c \<noteq> 0) (take l t)) = p"
      using Cons.IH[of l t] Cons.prems l by simp
    then show ?thesis using Cons.prems(1) l s by auto
  qed simp
qed simp

lemma first_match_short: "length t < length pat \<Longrightarrow> first_match pat i t = None"
proof (induction pat i t rule: first_match.induct)
  case (2 pat i c t)
  then have "length (take (length pat) (c # t)) \<noteq> length pat" by simp
  then show ?case using 2 by auto
qed simp

lemma strnstr_loop_correct:
  assumes "c2 \<noteq> 0" "0 \<notin> set p" "len \<le> length s \<or> 0 \<in> set s"
  shows "strnstr_loop c2 (p @ 0 # q) (length p) i len s = Some (first_match (c2 # p) i (takeWhile (\<lambda>c. c \<noteq> 0) (take len s)))"
  using assms(3)
proof (induction s arbitrary: i len)
  case Nil
  then show ?case by (cases len) simp_all
next
  case (Cons c1 s)
  show ?case
  proof (cases len)
    case 0
    then show ?thesis by simp
  next
    case l: (Suc l)
  let ?t = "takeWhile (\<lambda>c. c \<noteq> 0) (take l s)"
  have IH: "c1 \<noteq> 0 \<Longrightarrow> strnstr_loop c2 (p @ 0 # q) (length p) (i + 1) l s = Some (first_match (c2 # p) (i + 1) ?t)"
    using Cons l by auto
  show ?thesis
  proof (cases "c1 = c2 \<and> c1 \<noteq> 0")
    case False
    then show ?thesis using IH l by auto
  next
    case True
    show ?thesis
    proof (cases "l < length p")
      case short: True
      have "length ?t \<le> l" using length_takeWhile_le[of "\<lambda>c. c \<noteq> 0" "take l s"] by simp
      then have "first_match (c2 # p) i (c1 # ?t) = None" using short by (intro first_match_short) simp
      then show ?thesis using True short l by simp
    next
      case long: False
      have "length p \<le> length s \<or> 0 \<in> set s" using Cons.prems True long l by auto
      then obtain r where r: "strncmp s (p @ 0 # q) (length p) = Some r" "r = 0 \<longleftrightarrow> take (length p) s = p"
        using strncmp_prefix[OF assms(2), of s "0 # q"] by blast
      have "take (length p) s = p \<longleftrightarrow> take (length p) ?t = p" using takeWhile_take_prefix[OF assms(2), of l s] long by simp
      then show ?thesis using True long r IH l by simp
    qed
  qed
  qed
qed

text \<open>
  (C29) \<open>ngx_strnstr\<close> finds the first place of a pattern in the first \<open>len\<close> bytes of a string, up to its terminator, and
  reads no byte behind them: the result is that of the naive search.
\<close>

theorem strnstr_correct:
  assumes "c2 \<noteq> 0" "0 \<notin> set p" "len \<le> length s \<or> 0 \<in> set s"
  shows "ngx_strnstr s (c2 # p @ 0 # q) len = Some (first_match (c2 # p) 0 (takeWhile (\<lambda>c. c \<noteq> 0) (take len s)))"
proof -
  have "takeWhile (\<lambda>c. c \<noteq> 0) (p @ 0 # q) = p" using assms(2) by (simp add: takeWhile_append) 
  then show ?thesis using strnstr_loop_correct[OF assms] by (simp add: ngx_strnstr_def)
qed

text \<open>
  (C35) \<open>ngx_cpystrn\<close> copies as much of a null-terminated string as fits into \<open>n\<close> bytes with a terminator, and writes no more
  than \<open>n\<close> bytes.
\<close>

theorem cpystrn_correct:
  assumes "0 \<notin> set s" "0 < n"
  shows "ngx_cpystrn (s @ 0 # r) n = Some (take (n - 1) s @ [0]) \<and> length (take (n - 1) s @ [0]) \<le> n"
proof -
  have "cpystrn_loop (s @ 0 # r) m = Some (take m s @ [0])" for m
    using assms(1)
  proof (induction s arbitrary: m)
    case Nil
    show ?case by (cases m) simp_all
  next
    case (Cons c s)
    then show ?case by (cases m) auto
  qed
  then show ?thesis using assms(2) by (simp add: ngx_cpystrn_def)
qed

section \<open>Decimal numbers\<close>

definition decimal :: "byte list \<Rightarrow> nat" where
  "decimal = foldl (\<lambda>v c. v * 10 + (unat c - 48)) 0"

definition digit :: "byte \<Rightarrow> bool" where
  "digit c \<longleftrightarrow> 0x30 \<le> c \<and> c \<le> 0x39"

lemma digit_word:
  assumes "digit c"
  shows "(ucast c - 0x30 :: 64 word) = of_nat (unat c - 48)"
proof -
  have "48 \<le> unat c" using assms unfolding digit_def word_le_nat_alt by simp
  moreover have "(ucast c :: 64 word) = of_nat (unat c)" by simp
  ultimately show ?thesis by (simp add: of_nat_diff)
qed

lemma atoi_loop_digits:
  "list_all digit ds \<Longrightarrow> atoi_loop ds (of_nat v) = Some (of_nat (foldl (\<lambda>v c. v * 10 + (unat c - 48)) v ds))"
proof (induction ds arbitrary: v)
  case (Cons c ds)
  then have d: "digit c" "\<not> (c < 0x30 \<or> 0x39 < c)" by (auto simp: digit_def not_less)
  have "(of_nat v :: 64 word) * 10 + (ucast c - 0x30) = of_nat (v * 10 + (unat c - 48))"
    unfolding digit_word[OF d(1)] by simp
  then show ?case using Cons.IH[of "v * 10 + (unat c - 48)"] Cons.prems d(2) by (simp del: of_nat_add of_nat_mult)
qed simp

lemma atoi_loop_error: "\<not> list_all digit ds \<Longrightarrow> atoi_loop ds v = None"
  by (induction ds arbitrary: v) (auto simp: digit_def not_less)

lemma atoi_result_nat:
  "atoi_result (Some (of_nat m)) = (if m mod 2 ^ 64 < 2 ^ 63 then int (m mod 2 ^ 64) else NGX_ERROR_int)"
proof -
  define k where "k = m mod 2 ^ 64"
  have k: "int k < 2 ^ 64" by (simp add: k_def)
  have "take_bit 64 m = k" by (simp add: k_def take_bit_eq_mod)
  then have v: "(of_nat m :: 64 word) = word_of_int (int k)"
    unfolding of_int_of_nat_eq word_of_nat_eq_iff by (simp add: k_def take_bit_eq_mod)
  show ?thesis
  proof (cases "k < 2 ^ 63")
    case True
    then have "int k < 2 ^ 63" by (simp only: of_nat_less_numeral_power_cancel_iff)
    then have "sint (of_nat m :: 64 word) = int k" unfolding v by (intro sint_word_of_int) auto
    then show ?thesis using True by (simp add: atoi_result_def k_def)
  next
    case False
    then have "\<not> int k < 2 ^ 63" by (simp only: of_nat_less_numeral_power_cancel_iff not_False_eq_True)
    then have ge: "2 ^ 63 \<le> int k" by simp
    have "(of_nat m :: 64 word) = word_of_int (int k - 2 ^ 64)" unfolding v by simp
    moreover have "sint (word_of_int (int k - 2 ^ 64) :: 64 word) = int k - 2 ^ 64"
      using ge k by (intro sint_word_of_int) simp_all
    ultimately have "sint (of_nat m :: 64 word) < 0" using k by simp
    then show ?thesis using False by (simp add: atoi_result_def k_def)
  qed
qed

text \<open>
  (C31) What \<open>ngx_atoi\<close> (and \<open>ngx_atosz\<close>, \<open>ngx_atoof\<close>, \<open>ngx_atotm\<close>) return for any text: an error for the empty text and for a
  character that is no digit; otherwise the number modulo \<open>2 ^ 64\<close>, or an error if that is \<open>2 ^ 63\<close> or more. So
  every number below \<open>2 ^ 63\<close> is read right, and some of the greater ones are taken for smaller ones.
\<close>

theorem atoi_exact:
  "ngx_atoi line =
     (if line \<noteq> [] \<and> list_all digit line \<and> decimal line mod 2 ^ 64 < 2 ^ 63
      then int (decimal line mod 2 ^ 64) else NGX_ERROR_int) \<and>
   ngx_atosz line = ngx_atoi line \<and> ngx_atoof line = ngx_atoi line \<and> ngx_atotm line = ngx_atoi line"
proof -
  have "ngx_atoi line = (if line \<noteq> [] \<and> list_all digit line \<and> decimal line mod 2 ^ 64 < 2 ^ 63
      then int (decimal line mod 2 ^ 64) else NGX_ERROR_int)"
  proof (cases "list_all digit line")
    case True
    then have "atoi_loop line 0 = Some (of_nat (decimal line))"
      using atoi_loop_digits[OF True, of 0] by (simp add: decimal_def)
    then show ?thesis using True by (simp add: ngx_atoi_def atoi_result_nat del: of_nat_mod)
  next
    case False
    then show ?thesis using atoi_loop_error[OF False, of 0] by (simp add: ngx_atoi_def atoi_result_def)
  qed
  then show ?thesis by (simp add: ngx_atoi_def ngx_atosz_def ngx_atoof_def ngx_atotm_def)
qed

section \<open>Hexadecimal numbers\<close>

definition hex_value :: "byte list \<Rightarrow> nat" where
  "hex_value = foldl (\<lambda>v c. v * 256 + unat c) 0"

lemma hex_nibbles:
  "\<forall>n\<in>set [0..<16]. let h = hex_digits ! n in
     (0x30 \<le> h \<and> h \<le> 0x39 \<and> ucast h - 0x30 = (of_nat n :: 64 word) \<or>
      \<not> (0x30 \<le> h \<and> h \<le> 0x39) \<and> 0x61 \<le> h OR 0x20 \<and> h OR 0x20 \<le> 0x66 \<and> ucast (h OR 0x20) - 0x61 + 10 = (of_nat n :: 64 word))"
  by code_simp

lemma hextoi_digit:
  assumes "n < 16"
  shows "hextoi_loop (hex_digits ! n # line) value = hextoi_loop line (value * 16 + of_nat n)"
proof -
  have "n \<in> set [0..<16]" using assms by simp
  from hex_nibbles[THEN bspec, OF this] show ?thesis by (auto simp: Let_def)
qed

lemma hextoi_dump:
  "hextoi_loop (ngx_hex_dump s) (of_nat v) = Some (of_nat (foldl (\<lambda>v c. v * 256 + unat c) v s))"
proof (induction s arbitrary: v)
  case (Cons c s)
  define h l where "h = unat (drop_bit 4 c)" "l = unat (c AND 0xf)"
  have n: "h < 16" "l < 16" "16 * h + l = unat c" unfolding h_l_def by (rule byte_nibbles)+
  have "((of_nat v :: 64 word) * 16 + of_nat h) * 16 + of_nat l = of_nat (v * 256 + (16 * h + l))" by (simp add: algebra_simps)
  then have "((of_nat v :: 64 word) * 16 + of_nat h) * 16 + of_nat l = of_nat (v * 256 + unat c)" unfolding n(3) .
  then show ?case
    unfolding ngx_hex_dump.simps h_l_def[symmetric] hextoi_digit[OF n(1)] hextoi_digit[OF n(2)] foldl.simps
    using Cons by (simp only:)
qed simp

text \<open>
  (C32) Reading what \<open>ngx_hex_dump\<close> wrote with \<open>ngx_hextoi\<close> gives the number with these bytes, most significant byte
  first, for every byte string that is not empty and whose number is below \<open>2 ^ 63\<close>; the dump has two characters for each byte.
\<close>

theorem hextoi_hex_dump:
  assumes "s \<noteq> []" "hex_value s < 2 ^ 63"
  shows "ngx_hextoi (ngx_hex_dump s) = int (hex_value s) \<and> length (ngx_hex_dump s) = 2 * length s"
proof -
  have "length (ngx_hex_dump s) = 2 * length s" by (induction s) simp_all
  moreover have "ngx_hex_dump s \<noteq> []" using assms(1) by (cases s) simp_all
  moreover have "hex_value s mod 2 ^ 64 = hex_value s" using assms(2) by simp
  ultimately show ?thesis
    using hextoi_dump[of s 0] atoi_result_nat[of "hex_value s"] assms(2) by (simp add: ngx_hextoi_def hex_value_def)
qed

section \<open>Witnesses\<close>

theorem strcasecmp_correct_witness:
  "\<exists>v. ngx_strcasecmp ([0x41, 0x62] @ 0 # []) ([0x61, 0x43] @ 0 # [1]) = Some v \<and>
    (v < 0 \<longleftrightarrow> lex_less (map ngx_tolower [0x41, 0x62]) (map ngx_tolower [0x61, 0x43]))"
proof -
  have "0 \<notin> set [0x41, 0x62::byte]" "0 \<notin> set [0x61, 0x43::byte]" by simp_all
  from strcasecmp_correct[OF this, of "[]" "[1]"] show ?thesis by blast
qed

theorem strnstr_correct_witness: "ngx_strnstr [0x61, 0x62, 0x63] [0x62, 0x63, 0] 3 = Some (Some 1)"
  using strnstr_correct[of "0x62" "[0x63]" 3 "[0x61, 0x62, 0x63]" "[]"] by simp

theorem cpystrn_correct_witness: "ngx_cpystrn [0x61, 0x62, 0x63, 0] 3 = Some [0x61, 0x62, 0]"
  using cpystrn_correct[of "[0x61, 0x62, 0x63]" 3 "[]"] by simp

theorem hextoi_hex_dump_witness: "ngx_hextoi (ngx_hex_dump [0x12, 0xab]) = 0x12ab"
  using hextoi_hex_dump[of "[0x12, 0xab]"] by (simp add: hex_value_def)

end
