(* ===== verification/Ngx_Crc32.thy ===== *)
theory Ngx_Crc32
  imports Ngx_Prelude
begin

text \<open>
  The CRC-32 of \<open>src/nginx/src/core/ngx_crc32.[ch]\<close>, with the table for half bytes and with the
  table for bytes, and the checksum of \<open>src/nginx/src/core/ngx_crc.h\<close>. The table for half bytes is
  used through a pointer that \<open>ngx_crc32_table_init\<close> may set to an aligned copy of it; the copy has the same
  entries, so that the model reads the table itself.
\<close>

unbundle bit_operations_syntax

section \<open>Definitions\<close>

definition ngx_crc32_table16 :: "32 word list" where
  "ngx_crc32_table16 =
    [0x00000000, 0x1db71064, 0x3b6e20c8, 0x26d930ac, 0x76dc4190, 0x6b6b51f4, 0x4db26158, 0x5005713c,
     0xedb88320, 0xf00f9344, 0xd6d6a3e8, 0xcb61b38c, 0x9b64c2b0, 0x86d3d2d4, 0xa00ae278, 0xbdbdf21c]"

definition ngx_crc32_table256 :: "32 word list" where
  "ngx_crc32_table256 =
    [0x00000000, 0x77073096, 0xee0e612c, 0x990951ba, 0x076dc419, 0x706af48f, 0xe963a535, 0x9e6495a3,
     0x0edb8832, 0x79dcb8a4, 0xe0d5e91e, 0x97d2d988, 0x09b64c2b, 0x7eb17cbd, 0xe7b82d07, 0x90bf1d91,
     0x1db71064, 0x6ab020f2, 0xf3b97148, 0x84be41de, 0x1adad47d, 0x6ddde4eb, 0xf4d4b551, 0x83d385c7,
     0x136c9856, 0x646ba8c0, 0xfd62f97a, 0x8a65c9ec, 0x14015c4f, 0x63066cd9, 0xfa0f3d63, 0x8d080df5,
     0x3b6e20c8, 0x4c69105e, 0xd56041e4, 0xa2677172, 0x3c03e4d1, 0x4b04d447, 0xd20d85fd, 0xa50ab56b,
     0x35b5a8fa, 0x42b2986c, 0xdbbbc9d6, 0xacbcf940, 0x32d86ce3, 0x45df5c75, 0xdcd60dcf, 0xabd13d59,
     0x26d930ac, 0x51de003a, 0xc8d75180, 0xbfd06116, 0x21b4f4b5, 0x56b3c423, 0xcfba9599, 0xb8bda50f,
     0x2802b89e, 0x5f058808, 0xc60cd9b2, 0xb10be924, 0x2f6f7c87, 0x58684c11, 0xc1611dab, 0xb6662d3d,
     0x76dc4190, 0x01db7106, 0x98d220bc, 0xefd5102a, 0x71b18589, 0x06b6b51f, 0x9fbfe4a5, 0xe8b8d433,
     0x7807c9a2, 0x0f00f934, 0x9609a88e, 0xe10e9818, 0x7f6a0dbb, 0x086d3d2d, 0x91646c97, 0xe6635c01,
     0x6b6b51f4, 0x1c6c6162, 0x856530d8, 0xf262004e, 0x6c0695ed, 0x1b01a57b, 0x8208f4c1, 0xf50fc457,
     0x65b0d9c6, 0x12b7e950, 0x8bbeb8ea, 0xfcb9887c, 0x62dd1ddf, 0x15da2d49, 0x8cd37cf3, 0xfbd44c65,
     0x4db26158, 0x3ab551ce, 0xa3bc0074, 0xd4bb30e2, 0x4adfa541, 0x3dd895d7, 0xa4d1c46d, 0xd3d6f4fb,
     0x4369e96a, 0x346ed9fc, 0xad678846, 0xda60b8d0, 0x44042d73, 0x33031de5, 0xaa0a4c5f, 0xdd0d7cc9,
     0x5005713c, 0x270241aa, 0xbe0b1010, 0xc90c2086, 0x5768b525, 0x206f85b3, 0xb966d409, 0xce61e49f,
     0x5edef90e, 0x29d9c998, 0xb0d09822, 0xc7d7a8b4, 0x59b33d17, 0x2eb40d81, 0xb7bd5c3b, 0xc0ba6cad,
     0xedb88320, 0x9abfb3b6, 0x03b6e20c, 0x74b1d29a, 0xead54739, 0x9dd277af, 0x04db2615, 0x73dc1683,
     0xe3630b12, 0x94643b84, 0x0d6d6a3e, 0x7a6a5aa8, 0xe40ecf0b, 0x9309ff9d, 0x0a00ae27, 0x7d079eb1,
     0xf00f9344, 0x8708a3d2, 0x1e01f268, 0x6906c2fe, 0xf762575d, 0x806567cb, 0x196c3671, 0x6e6b06e7,
     0xfed41b76, 0x89d32be0, 0x10da7a5a, 0x67dd4acc, 0xf9b9df6f, 0x8ebeeff9, 0x17b7be43, 0x60b08ed5,
     0xd6d6a3e8, 0xa1d1937e, 0x38d8c2c4, 0x4fdff252, 0xd1bb67f1, 0xa6bc5767, 0x3fb506dd, 0x48b2364b,
     0xd80d2bda, 0xaf0a1b4c, 0x36034af6, 0x41047a60, 0xdf60efc3, 0xa867df55, 0x316e8eef, 0x4669be79,
     0xcb61b38c, 0xbc66831a, 0x256fd2a0, 0x5268e236, 0xcc0c7795, 0xbb0b4703, 0x220216b9, 0x5505262f,
     0xc5ba3bbe, 0xb2bd0b28, 0x2bb45a92, 0x5cb36a04, 0xc2d7ffa7, 0xb5d0cf31, 0x2cd99e8b, 0x5bdeae1d,
     0x9b64c2b0, 0xec63f226, 0x756aa39c, 0x026d930a, 0x9c0906a9, 0xeb0e363f, 0x72076785, 0x05005713,
     0x95bf4a82, 0xe2b87a14, 0x7bb12bae, 0x0cb61b38, 0x92d28e9b, 0xe5d5be0d, 0x7cdcefb7, 0x0bdbdf21,
     0x86d3d2d4, 0xf1d4e242, 0x68ddb3f8, 0x1fda836e, 0x81be16cd, 0xf6b9265b, 0x6fb077e1, 0x18b74777,
     0x88085ae6, 0xff0f6a70, 0x66063bca, 0x11010b5c, 0x8f659eff, 0xf862ae69, 0x616bffd3, 0x166ccf45,
     0xa00ae278, 0xd70dd2ee, 0x4e048354, 0x3903b3c2, 0xa7672661, 0xd06016f7, 0x4969474d, 0x3e6e77db,
     0xaed16a4a, 0xd9d65adc, 0x40df0b66, 0x37d83bf0, 0xa9bcae53, 0xdebb9ec5, 0x47b2cf7f, 0x30b5ffe9,
     0xbdbdf21c, 0xcabac28a, 0x53b39330, 0x24b4a3a6, 0xbad03605, 0xcdd70693, 0x54de5729, 0x23d967bf,
     0xb3667a2e, 0xc4614ab8, 0x5d681b02, 0x2a6f2b94, 0xb40bbe37, 0xc30c8ea1, 0x5a05df1b, 0x2d02ef8d]"

fun crc32_short_loop :: "byte list \<Rightarrow> 32 word \<Rightarrow> 32 word" where
  "crc32_short_loop [] crc = crc"
| "crc32_short_loop (c # p) crc =
     (let crc = ngx_crc32_table16 ! unat ((crc XOR ucast (c AND 0xf)) AND 0xf) XOR drop_bit 4 crc;
          crc = ngx_crc32_table16 ! unat ((crc XOR ucast (drop_bit 4 c)) AND 0xf) XOR drop_bit 4 crc
      in crc32_short_loop p crc)"

definition ngx_crc32_short :: "byte list \<Rightarrow> 32 word" where
  "ngx_crc32_short p = crc32_short_loop p 0xffffffff XOR 0xffffffff"

text \<open>The loop of \<open>ngx_crc32_long\<close> is also that of \<open>ngx_crc32_update\<close>.\<close>

fun ngx_crc32_update :: "byte list \<Rightarrow> 32 word \<Rightarrow> 32 word" where
  "ngx_crc32_update [] crc = crc"
| "ngx_crc32_update (b # p) crc =
     ngx_crc32_update p (ngx_crc32_table256 ! unat ((crc XOR ucast b) AND 0xff) XOR drop_bit 8 crc)"

definition ngx_crc32_long :: "byte list \<Rightarrow> 32 word" where
  "ngx_crc32_long p = ngx_crc32_update p 0xffffffff XOR 0xffffffff"

definition ngx_crc32_init :: "32 word" where
  "ngx_crc32_init = 0xffffffff"

definition ngx_crc32_final :: "32 word \<Rightarrow> 32 word" where
  "ngx_crc32_final crc = crc XOR 0xffffffff"

fun crc_loop :: "byte list \<Rightarrow> 32 word \<Rightarrow> 32 word" where
  "crc_loop [] s = s"
| "crc_loop (d # data) s = crc_loop data ((drop_bit 1 s OR push_bit 31 s) + ucast d)"

definition ngx_crc :: "byte list \<Rightarrow> 32 word" where
  "ngx_crc data = crc_loop data 0"

section \<open>The reference\<close>

text \<open>Division by the polynomial of CRC-32, one bit at a time, least significant bit first\<close>

definition crc_bit :: "32 word \<Rightarrow> 32 word" where
  "crc_bit x = (if bit x 0 then drop_bit 1 x XOR 0xedb88320 else drop_bit 1 x)"

definition crc_byte :: "byte \<Rightarrow> 32 word \<Rightarrow> 32 word" where
  "crc_byte b crc = (crc_bit ^^ 8) (crc XOR ucast b)"

definition crc32 :: "byte list \<Rightarrow> 32 word" where
  "crc32 bs = NOT (fold crc_byte bs (NOT 0))"

section \<open>The division is linear\<close>

lemma crc_bit_xor: "crc_bit (x XOR y) = crc_bit x XOR crc_bit y"
  by (simp add: crc_bit_def bit_xor_iff bit_eq_iff bit_drop_bit_eq) blast

lemma crc_bits_xor: "(crc_bit ^^ k) (x XOR y) = (crc_bit ^^ k) x XOR (crc_bit ^^ k) y"
  by (induction k) (simp_all add: crc_bit_xor)

lemma crc_bits_high: "(\<And>n. n < k \<Longrightarrow> \<not> bit y n) \<Longrightarrow> (crc_bit ^^ k) y = drop_bit k y"
proof (induction k)
  case (Suc k)
  have 1: "(crc_bit ^^ k) y = drop_bit k y" using Suc by simp
  have "\<not> bit (drop_bit k y) 0" using Suc.prems[of k] by (simp add: bit_drop_bit_eq)
  then have "crc_bit (drop_bit k y) = drop_bit (Suc k) y" by (simp add: crc_bit_def)
  then show ?case by (simp add: 1)
qed simp

lemma crc_bits_split: "(crc_bit ^^ k) x = (crc_bit ^^ k) (x AND mask k) XOR drop_bit k x"
proof -
  have x: "x = (x AND mask k) XOR (x AND NOT (mask k))" by (rule bit_eqI) (auto simp: bit_simps)
  have "(crc_bit ^^ k) (x AND NOT (mask k)) = drop_bit k (x AND NOT (mask k))"
    by (rule crc_bits_high) (simp add: bit_simps)
  also have "\<dots> = drop_bit k x" by (rule bit_eqI) (auto simp: bit_simps dest: bit_imp_le_length)
  finally show ?thesis using arg_cong[OF x, of "crc_bit ^^ k"] by (simp only: crc_bits_xor)
qed

section \<open>The tables\<close>

lemma table16: "ngx_crc32_table16 = map (\<lambda>n. (crc_bit ^^ 4) (of_nat n)) [0..<16]"
  by code_simp

lemma table256_low: "take 16 ngx_crc32_table256 = map (\<lambda>n. (crc_bit ^^ 8) (of_nat n)) [0..<16]"
  by code_simp

lemma table256_blocks:
  "ngx_crc32_table256 = concat (map (\<lambda>a. map (\<lambda>b. a XOR b) (take 16 ngx_crc32_table256)) ngx_crc32_table16)"
  by (simp add: ngx_crc32_table256_def ngx_crc32_table16_def)

lemma nth_concat_blocks:
  "(\<And>x. length (f x) = m) \<Longrightarrow> h < length xs \<Longrightarrow> l < m \<Longrightarrow> concat (map f xs) ! (h * m + l) = f (xs ! h) ! l"
proof (induction xs arbitrary: h)
  case (Cons x xs)
  then show ?case by (cases h) (simp_all add: nth_append)
qed simp

lemma unat_and_mask: "unat (x AND mask k) = unat x mod 2 ^ k" for x :: "32 word"
  by (simp only: unsigned_take_bit_eq flip: take_bit_eq_mask) (simp only: take_bit_eq_mod)

lemma low_nibble: "unat (x AND mask 4) = unat x mod 16" for x :: "32 word"
  by (simp only: unat_and_mask) simp

lemma table16_nth: "ngx_crc32_table16 ! unat (x AND 0xf) = (crc_bit ^^ 4) (x AND mask 4)"
proof -
  have m: "(0xf :: 32 word) = mask 4" by (simp add: mask_eq_decr_exp)
  have "unat (x AND mask 4) < 16" by (simp add: low_nibble)
  then show ?thesis unfolding m by (simp add: table16)
qed

lemma table256_nth:
  assumes "unat x < 256"
  shows "ngx_crc32_table256 ! unat x = (crc_bit ^^ 8) x"
proof -
  let ?l = "unat (x AND mask 4)" and ?h = "unat (drop_bit 4 x)"
  have l: "?l < 16" by (simp add: low_nibble)
  have h: "?h = unat x div 16" by (simp add: drop_bit_eq_div unat_div_distrib)
  then have h16: "?h < 16" using assms by simp
  have x: "unat x = ?h * 16 + ?l" by (simp add: h low_nibble)
  have t16: "ngx_crc32_table16 ! ?h = (crc_bit ^^ 4) (drop_bit 4 x)" using h16 by (simp add: table16)
  have low: "take 16 ngx_crc32_table256 ! ?l = (crc_bit ^^ 8) (x AND mask 4)" using l by (simp add: table256_low)
  have len: "length (take 16 ngx_crc32_table256) = 16" "length ngx_crc32_table16 = 16"
    by (simp_all only: table256_low table16 length_map length_upt)
  have "ngx_crc32_table256 ! unat x = ngx_crc32_table16 ! ?h XOR take 16 ngx_crc32_table256 ! ?l"
    unfolding x by (subst table256_blocks, subst nth_concat_blocks) (use l h16 len in simp_all)
  also have "\<dots> = (crc_bit ^^ 4) ((crc_bit ^^ 4) (x AND mask 4) XOR drop_bit 4 x)"
    unfolding t16 low crc_bits_xor using funpow_add[of 4 4 crc_bit] by (simp add: xor.commute)
  also have "\<dots> = (crc_bit ^^ 8) x"
    using crc_bits_split[of 4 x] funpow_add[of 4 4 crc_bit] by simp
  finally show ?thesis .
qed

section \<open>The loops\<close>

lemma long_step: "ngx_crc32_table256 ! unat ((crc XOR ucast b) AND 0xff) XOR drop_bit 8 crc = crc_byte b crc"
proof -
  have m: "(0xff :: 32 word) = mask 8" by (simp add: mask_eq_decr_exp)
  have "unat (x AND mask 8) < 256" for x :: "32 word"
    by (simp only: unat_and_mask) simp
  then have t: "ngx_crc32_table256 ! unat (x AND 0xff) = (crc_bit ^^ 8) (x AND mask 8)" for x
    unfolding m by (rule table256_nth)
  have "drop_bit 8 (crc XOR ucast b) = drop_bit 8 crc"
    by (rule bit_eqI) (auto simp: bit_simps dest: bit_imp_le_length)
  then show ?thesis
    unfolding crc_byte_def t using crc_bits_split[of 8 "crc XOR ucast b"] by simp
qed

lemma nibble_step:
  assumes "drop_bit 4 v = 0"
  shows "ngx_crc32_table16 ! unat ((crc XOR v) AND 0xf) XOR drop_bit 4 crc = (crc_bit ^^ 4) (crc XOR v)"
proof -
  have "drop_bit 4 (crc XOR v) = drop_bit 4 crc" using assms by (simp add: drop_bit_xor)
  then show ?thesis unfolding table16_nth using crc_bits_split[of 4 "crc XOR v"] by simp
qed

lemma short_step:
  fixes b :: byte
  shows "(crc_bit ^^ 4) ((crc_bit ^^ 4) (crc XOR ucast (b AND 0xf)) XOR ucast (drop_bit 4 b)) = crc_byte b crc"
proof -
  let ?hi = "push_bit 4 (ucast (drop_bit 4 b)) :: 32 word"
  have m: "(0xf :: byte) = mask 4" by (simp add: mask_eq_decr_exp)
  have b: "ucast b = (ucast (b AND 0xf) XOR ?hi :: 32 word)"
    unfolding m by (rule bit_eqI) (auto simp: bit_simps dest: bit_imp_le_length)
  have hi: "(crc_bit ^^ 4) ?hi = ucast (drop_bit 4 b)"
  proof -
    have "(crc_bit ^^ 4) ?hi = drop_bit 4 ?hi" by (rule crc_bits_high) (simp add: bit_simps)
    also have "\<dots> = ucast (drop_bit 4 b)" by (rule bit_eqI) (auto simp: bit_simps dest: bit_imp_le_length)
    finally show ?thesis .
  qed
  have "crc_byte b crc = (crc_bit ^^ 4) ((crc_bit ^^ 4) ((crc XOR ucast (b AND 0xf)) XOR ?hi))"
    unfolding crc_byte_def b using funpow_add[of 4 4 crc_bit] by (simp add: xor.assoc)
  then show ?thesis by (simp only: crc_bits_xor[of 4 _ ?hi] hi)
qed

lemma update_fold: "ngx_crc32_update p crc = fold crc_byte p crc"
  by (induction p crc rule: ngx_crc32_update.induct) (simp_all add: long_step)

lemma short_fold: "crc32_short_loop p crc = fold crc_byte p crc"
proof (induction p crc rule: crc32_short_loop.induct)
  case (2 c p crc)
  have m: "(0xf :: byte) = mask 4" by (simp add: mask_eq_decr_exp)
  have "\<not> bit c (8 + n)" for n using bit_imp_le_length[of c "8 + n"] by auto
  then have "drop_bit 4 (ucast (c AND 0xf)) = (0 :: 32 word)" "drop_bit 4 (ucast (drop_bit 4 c)) = (0 :: 32 word)"
    unfolding m by (auto intro!: bit_eqI simp: bit_simps dest: bit_imp_le_length)
  then show ?case using 2 by (simp add: Let_def nibble_step short_step)
qed simp

text \<open>
  (C28) The two table-driven routines compute the CRC-32 of the data as it is defined by
  division of its bits by the polynomial, for every byte string, and so does the
  incremental interface for every way of cutting the data into pieces. All entries of both
  tables are covered.
\<close>

theorem crc32_correct:
  "ngx_crc32_short p = crc32 p \<and> ngx_crc32_long p = crc32 p \<and>
   ngx_crc32_final (fold ngx_crc32_update ps ngx_crc32_init) = crc32 (concat ps)"
proof -
  have ones: "(0xffffffff :: 32 word) = - 1" by simp
  have neg: "x XOR 0xffffffff = NOT x" "(0xffffffff :: 32 word) = NOT 0" for x :: "32 word"
    unfolding ones by simp_all
  have "fold ngx_crc32_update ps c = fold crc_byte (concat ps) c" for c
    by (induction ps arbitrary: c) (simp_all add: update_fold)
  then show ?thesis
    by (simp add: ngx_crc32_short_def ngx_crc32_long_def ngx_crc32_final_def ngx_crc32_init_def crc32_def
        update_fold short_fold neg)
qed

end
