(* ===== verification/Spec2Isabelle.thy ===== *)
theory Spec2Isabelle
  imports Ngx_Prelude Ngx_Palloc Ngx_Loop Ngx_Reach Ngx_Rbtree_Props Ngx_Timer_Tree
    Ngxe_Timer_Props Ngxe_Data_Props Ngxe_Client_Props Ngx_Base64 Ngx_Uri Ngx_Utf8 Ngx_String Ngx_Crc32
begin

text \<open>
  Nginx::Engine is a Perl extension that drives the event loop of nginx 0.8. Perl code calls
  the operations of \<open>src/Engine.xs\<close>; these use the \<open>ngxe_*\<close> functions (\<open>src/ngxe_*.c\<close>), which
  build on the pools, connection slots, timers and event modules of the nginx sources under
  \<open>src/nginx/src\<close>. The loop waits for events of the kernel with epoll, runs the handler of
  each event, and then the handlers of the timers that have expired; a handler reads or
  writes a socket and calls back into Perl, which may use every operation again.

  The modelled build is the one for 64-bit Linux: epoll, one process, no threads, no IPv6, no
  \<open>NGX_DEBUG\<close>, no \<open>NGXE_READER_USE_BUFS\<close>.

  \<^bold>\<open>State and environment\<close>

  \<^item> \<open>Ngx_Prelude\<close>: machine words, bytes and the generic lemmas that the components share.
  \<^item> \<open>Ngx_World\<close>: the C structures as records (\<open>event\<close>, \<open>connection\<close>, \<open>session\<close>, \<open>callback\<close>,
    \<open>interval\<close>, \<open>listening\<close>, Perl scalars) and the record \<open>world\<close> of everything the process can
    change. Code outside the repository is the record \<open>env\<close>: the system calls, the C allocator,
    the functions of the Perl API and the Perl code itself. What the engine relies on is
    stated in \<open>malloc_ok\<close>, \<open>os_ok\<close> and \<open>perl_ok\<close>. An operation that may fail returns \<open>'a res\<close>; a
    \<open>fault\<close> stands for what C leaves undefined (a NULL dereference, a buffer overrun, the
    deletion of a timer that is not in the tree) or for a loop that used up its fuel.

  \<^bold>\<open>Components\<close>

  \<^item> \<open>Ngx_Palloc\<close>: memory pools (\<open>core/ngx_palloc.c\<close>). Regions never overlap, every request returns,
    and destruction gives back exactly what was taken, for sizes that are multiples of 8 and at least 96;
    what goes wrong for other sizes.
  \<^item> \<open>Ngx_Rbtree\<close>: the red-black tree on its pointers (\<open>core/ngx_rbtree.c\<close>); \<open>Ngx_Rbtree_Rep\<close>,
    \<open>Ngx_Rbtree_Insert\<close> and \<open>Ngx_Rbtree_Delete\<close> relate the pointers to trees and follow the repair
    loops; \<open>Ngx_Rbtree_Props\<close> shows that insertion and deletion return and keep the order, and that
    every tree made by them is balanced.
  \<^item> \<open>Ngx_Event_Timer\<close>: the timers as an ordered list (\<open>event/ngx_event_timer.[ch]\<close>);
    \<open>Ngx_Timer_Tree\<close>: the same operations on the red-black tree. The locale \<open>timer_store\<close> is the
    interface between them; its interpretation \<open>timer_tree\<close> discharges it for the tree, and a
    simulation carries over what is proved of the list, as long as all keys lie within half of
    the range of the clock.
  \<^item> \<open>Ngx_Connection\<close>: connection slots and posted events (\<open>core/ngx_connection.c\<close>,
    \<open>event/ngx_event_posted.[ch]\<close>, the slots of \<open>event/ngx_event.c\<close>).
  \<^item> \<open>Ngx_Event\<close>: epoll registration and socket I/O (\<open>event/modules/ngx_epoll_module.c\<close>,
    \<open>os/unix/ngx_recv.c\<close>, \<open>ngx_send.c\<close>).
  \<^item> \<open>Ngxe_Xs\<close>: calls into Perl, buffers and the pools of the process (\<open>ngxe_xs.c\<close>, \<open>ngxe_bufs.[ch]\<close>).
  \<^item> \<open>Ngxe_Connection\<close>: reader, writers, closing, clients and servers (\<open>ngxe_connection.c\<close>). The
    labels of the C functions are values of \<open>reader_next\<close> and \<open>writer_next\<close>.
  \<^item> \<open>Ngx_Inet\<close>: IPv4 addresses as text (\<open>core/ngx_inet.c\<close>). \<open>Ngx_Event_Connect\<close>: connecting, accepting
    and listening (\<open>event/ngx_event_connect.c\<close>, \<open>event/ngx_event_accept.c\<close>, \<open>ngxe_ngx.c\<close>).
  \<^item> \<open>Ngxe_Api\<close>: the operations for Perl (\<open>Engine.xs\<close>, \<open>ngxe_timer.c\<close>) and scripts of such operations
    in the place of Perl code; addresses are parsed as the code does it. \<open>Ngx_Loop\<close>: the event loop; the
    time for \<open>epoll_wait\<close> is cut to an \<open>int\<close> as in C.
  \<^item> \<open>Ngx_Base64\<close>, \<open>Ngx_Uri\<close>, \<open>Ngx_Utf8\<close>, \<open>Ngx_String\<close>: the string functions of \<open>core/ngx_string.c\<close>,
    with bytes as lists and a read behind the end of a buffer as the result \<open>None\<close>.
  \<^item> \<open>Ngx_Crc32\<close>: the checksums of \<open>core/ngx_crc32.[ch]\<close> and \<open>core/ngx_crc.h\<close>; the table-driven routines
    compute the division by the polynomial.

  \<^bold>\<open>What is shown of the engine\<close>

  \<^item> \<open>Ngxe_Invariant\<close>, \<open>Ngxe_Handlers\<close>, \<open>Ngxe_Scripts\<close>, \<open>Ngx_Reach\<close>: the free list of slots, the timer
    queue and the timer flags agree in every world that the engine reaches. The locale
    \<open>callback_contract\<close> says what the handlers need of the Perl code; it is interpreted on the
    environment whose callbacks are scripts of the operations, called to any depth.
    The scripts do not use \<open>ngxe_client\<close>, \<open>ngxe_interval_clear\<close> and \<open>ngxe_timeout_clear\<close>, which break the
    invariant there (see \<open>client_frees_slot_twice\<close> and \<open>timeout_clear_in_callback\<close>). The main
    program may use them, \<open>ngxe_client\<close> as long as it succeeds and the others on timers that are set. A
    timeout fires, or a timer is cleared, only while the write event of its slot has no timer.
  \<^item> \<open>Ngxe_Props\<close>: closing and reference counts. \<open>Ngxe_Timer_Props\<close>: sleeping and expiring.
    \<open>Ngxe_Data_Props\<close>: the bytes moved by reader and writer. \<open>Ngxe_Client_Props\<close>: defects of
    \<open>ngxe_client\<close>. \<open>Ngxe_Samples\<close>: a concrete environment for the examples.

  \<^bold>\<open>Fuel\<close>

  The loops whose length depends on the kernel or on Perl code (\<open>recv\<close> and \<open>send\<close> interrupted by
  signals, the jumps in the handlers, expiring timers) take \<open>loop_fuel\<close> turns at most; \<open>Out_of_fuel\<close>
  is a result of its own. For the timers, as many turns as timers are due are enough
  (\<open>expire_timers_ends\<close>). \<open>ngx_palloc\<close> needs a recursion depth of 2, which is shown to
  suffice in every pool of 96 bytes and more (\<open>pool_lifecycle\<close>). The descents and repair loops of the red-black tree are partial functions whose
  result is \<open>None\<close> when they do not end; they are shown to end on every red-black tree.

  \<^bold>\<open>Not modelled\<close>

  The log, the configuration files and the start of the server; the other event methods, TLS,
  threads and worker processes, shared memory, files and sendfile, which the engine does not use
  or which are thin wrappers of system calls; the resolver, hash tables, slab allocator and
  output chains, which only the server uses; the Perl modules under \<open>src/lib\<close>. Of the modelled
  files, \<open>ngx_vslprintf\<close> (but for decimal numbers), IPv6 and UNIX addresses, the file cleanup
  handlers of pools, the aligned copy of the checksum table, the options of \<open>ngxe_init\<close> and the conversion of Perl
  arguments to C values are left out.
\<close>

end
